(* ===== verification/Prelude.thy ===== *)
theory Prelude
  imports Main "HOL-Library.Word"
begin

text \<open>
  Shared vocabulary of the development.

  \<^item> The machine types of the C++ source: \<open>uint8_t\<close>, \<open>uint16_t\<close>, \<open>uint32_t\<close> and
    \<open>uint64_t\<close> are words of that width; a value of type \<open>int\<close>, \<open>int32_t\<close> or \<open>time_t\<close>
    is an \<open>int\<close>, and every conversion from an unsigned word to a signed one is written
    out with \<open>sint\<close>.
  \<^item> The outcome of running a piece of code: a value, or one of the ways in which C++ code
    fails to produce one (a read or write outside an object, a failed \<open>assert\<close>, a null
    pointer used as an object, a loop that never ends).
    \<open>bindR\<close> is the semicolon of the source: the rest of a function runs on the value of
    what came before and is skipped when that faulted.
\<close>

unbundle bit_operations_syntax

section \<open>Machine types\<close>

type_synonym u8 = "8 word"
type_synonym u16 = "16 word"
type_synonym u32 = "32 word"
type_synonym u64 = "64 word"
type_synonym i32 = int
type_synonym time_t = int
type_synonym bytes = "u8 list"

text \<open>The range of a signed integer of 32 bits.\<close>

definition in32 :: "int \<Rightarrow> bool" where
  "in32 v \<longleftrightarrow> - 0x80000000 \<le> v \<and> v < 0x80000000"

section \<open>Outcomes\<close>

datatype fault =
    OutOfBounds      \<comment> \<open>read or write outside the object: undefined behaviour\<close>
  | AssertFailed     \<comment> \<open>\<open>assert\<close> aborts the process\<close>
  | NullPointer      \<comment> \<open>a null pointer where an object is needed\<close>
  | BadConversion    \<comment> \<open>a float that does not fit the integer type: undefined behaviour\<close>
  | SignedOverflow   \<comment> \<open>\<open>++\<close> on the largest \<open>int\<close>: undefined behaviour\<close>
  | NeverReturns     \<comment> \<open>an endless loop\<close>
  | UncaughtException \<comment> \<open>an exception that nothing catches ends the process\<close>

datatype 'a res = Ret 'a | Fault fault

fun bindR :: "'a res \<Rightarrow> ('a \<Rightarrow> 'b res) \<Rightarrow> 'b res" where
  "bindR (Ret x) f = f x"
| "bindR (Fault e) f = Fault e"

named_theorems res_simps "reasoning about sequences of fallible operations"
named_theorems mem_simps "reading and writing bytes"
named_theorems bswap_simps "network and host byte order"

lemma bindR_assoc [res_simps]: "bindR (bindR m f) g = bindR m (\<lambda>x. bindR (f x) g)"
  by (cases m) simp_all

lemma bindR_Ret_right [simp, res_simps]: "bindR m Ret = m"
  by (cases m) simp_all

lemma bindR_eq_Ret_iff [res_simps]:
  "bindR m f = Ret y \<longleftrightarrow> (\<exists>x. m = Ret x \<and> f x = Ret y)"
  by (cases m) simp_all

lemma bindR_eq_Fault_iff:
  "bindR m f = Fault e \<longleftrightarrow> m = Fault e \<or> (\<exists>x. m = Ret x \<and> f x = Fault e)"
  by (cases m) simp_all

lemma bindR_RetE:
  assumes "bindR m f = Ret y"
  obtains x where "m = Ret x" and "f x = Ret y"
  using assms by (auto simp: bindR_eq_Ret_iff)

lemma bindR_cong [fundef_cong]:
  assumes "m = m'" and "\<And>x. m' = Ret x \<Longrightarrow> f x = f' x"
  shows "bindR m f = bindR m' f'"
  using assms by (cases m') simp_all

lemma bindR_if: "bindR (if b then m else n) f = (if b then bindR m f else bindR n f)"
  by simp

lemma bindR_case_prod: "bindR (case p of (a, b) \<Rightarrow> g a b) f = (case p of (a, b) \<Rightarrow> bindR (g a b) f)"
  by (cases p) simp

lemmas bindR_push = bindR_assoc bindR_if bindR_case_prod

text \<open>Whether a computation returned at all.\<close>

fun returns :: "'a res \<Rightarrow> bool" where
  "returns (Ret _) = True"
| "returns (Fault _) = False"

lemma returns_iff: "returns m \<longleftrightarrow> (\<exists>x. m = Ret x)"
  by (cases m) simp_all

lemma returnsE: "returns m \<Longrightarrow> (\<And>x. m = Ret x \<Longrightarrow> thesis) \<Longrightarrow> thesis"
  by (cases m) simp_all

lemma returns_bindR:
  "returns (bindR m f) \<longleftrightarrow> (\<exists>x. m = Ret x \<and> returns (f x))"
  by (cases m) simp_all

section \<open>Lists\<close>

lemma nth_drop_add: "i + k < length xs \<Longrightarrow> drop k xs ! i = xs ! (k + i)"
  by (simp add: add.commute)

lemma takeWhile_append_stop:
  assumes "\<forall>x \<in> set xs. P x" and "\<not> P y"
  shows "takeWhile P (xs @ y # ys) = xs"
  using assms by (induction xs) auto

lemma takeWhile_all_eq: "(\<forall>x \<in> set xs. P x) \<Longrightarrow> takeWhile P xs = xs"
  by (induction xs) auto

lemma set_takeWhile_P: "x \<in> set (takeWhile P xs) \<Longrightarrow> P x"
  by (induction xs) (auto split: if_splits)

end
