(* ===== verification/Bytes.thy ===== *)
theory Bytes
  imports Prelude
begin

text \<open>
  Memory as the source sees it: a block of bytes with a start and an end, read and written
  through casted pointers. The host is the little-endian machine the build targets
  (\<open>CMakeLists.txt\<close> defines \<open>LINUX\<close> and \<open>PTHREAD\<close>); a 16- or 32-bit load or store at an
  unaligned address is the plain byte access that compiler emits. A pointer is the block
  and an offset; an access that leaves the block faults with \<open>OutOfBounds\<close>.
  \<open>ntohl\<close>, \<open>htonl\<close>, \<open>ntohs\<close> and \<open>htons\<close> reverse the bytes.
\<close>

section \<open>Words and their bytes\<close>

definition le16 :: "u8 \<Rightarrow> u8 \<Rightarrow> u16" where
  "le16 b0 b1 = ucast b0 OR push_bit 8 (ucast b1)"

definition le32 :: "u8 \<Rightarrow> u8 \<Rightarrow> u8 \<Rightarrow> u8 \<Rightarrow> u32" where
  "le32 b0 b1 b2 b3 =
     ucast b0 OR push_bit 8 (ucast b1) OR push_bit 16 (ucast b2) OR push_bit 24 (ucast b3)"

definition byte_at :: "nat \<Rightarrow> 'a::len word \<Rightarrow> u8" where
  "byte_at k w = ucast (drop_bit (8 * k) w)"

definition bytes16 :: "u16 \<Rightarrow> bytes" where
  "bytes16 w = [byte_at 0 w, byte_at 1 w]"

definition bytes32 :: "u32 \<Rightarrow> bytes" where
  "bytes32 w = [byte_at 0 w, byte_at 1 w, byte_at 2 w, byte_at 3 w]"

lemma length_bytes16 [simp]: "length (bytes16 w) = 2"
  by (simp add: bytes16_def)

lemma length_bytes32 [simp]: "length (bytes32 w) = 4"
  by (simp add: bytes32_def)

lemma bit_byte_at: "bit (byte_at k w) n \<longleftrightarrow> n < 8 \<and> bit w (8 * k + n)"
  for w :: "'a::len word"
  by (auto simp: byte_at_def bit_simps)

lemma le16_byte_at [simp]: "le16 (byte_at 0 w) (byte_at (Suc 0) w) = w"
  by (rule bit_word_eqI) (auto simp: le16_def bit_simps bit_byte_at)

lemma bit_u8_less: "bit (b :: u8) n \<Longrightarrow> n < 8"
  using bit_imp_le_length by force

lemma bit_le32:
  "bit (le32 a b c d) n \<longleftrightarrow>
     (n < 8 \<and> bit a n) \<or> (8 \<le> n \<and> n < 16 \<and> bit b (n - 8)) \<or>
     (16 \<le> n \<and> n < 24 \<and> bit c (n - 16)) \<or> (24 \<le> n \<and> n < 32 \<and> bit d (n - 24))"
proof -
  have "bit a n \<Longrightarrow> n < 8" "bit b (n - 8) \<Longrightarrow> n - 8 < 8" "bit c (n - 16) \<Longrightarrow> n - 16 < 8"
    "bit d (n - 24) \<Longrightarrow> n - 24 < 8"
    by (rule bit_u8_less, assumption)+
  then show ?thesis
    by (cases "n < 8"; cases "n < 16"; cases "n < 24"; cases "n < 32")
      (auto simp: le32_def bit_simps)
qed

lemma less_32_cases:
  assumes "n < (32::nat)"
  obtains "n < 8" | "8 \<le> n" "n < 16" | "16 \<le> n" "n < 24" | "24 \<le> n" "n < 32"
  using assms by linarith

lemma le32_byte_at [simp]:
  "le32 (byte_at 0 w) (byte_at (Suc 0) w) (byte_at 2 w) (byte_at 3 w) = w"
proof (rule bit_word_eqI)
  fix n :: nat
  assume "n < LENGTH(32)"
  then have "n < 32" by simp
  then show "bit (le32 (byte_at 0 w) (byte_at (Suc 0) w) (byte_at 2 w) (byte_at 3 w)) n = bit w n"
    by (cases rule: less_32_cases) (auto simp: bit_le32 bit_byte_at)
qed

lemma byte_at_le16 [simp]:
  "byte_at 0 (le16 a b) = a" "byte_at (Suc 0) (le16 a b) = b"
  by (rule bit_word_eqI; auto simp: le16_def bit_simps bit_byte_at dest: bit_u8_less)+

lemma byte_at_le32 [simp]:
  "byte_at 0 (le32 a b c d) = a" "byte_at (Suc 0) (le32 a b c d) = b"
  "byte_at 2 (le32 a b c d) = c" "byte_at 3 (le32 a b c d) = d"
  by (rule bit_word_eqI; simp add: bit_le32 bit_byte_at; fail)+

lemma bytes16_le16 [mem_simps]: "bytes16 (le16 a b) = [a, b]"
  by (simp add: bytes16_def)

lemma bytes32_le32 [mem_simps]: "bytes32 (le32 a b c d) = [a, b, c, d]"
  by (simp add: bytes32_def)

section \<open>Byte order\<close>

definition bswap16 :: "u16 \<Rightarrow> u16" where
  "bswap16 w = le16 (byte_at 1 w) (byte_at 0 w)"

definition bswap32 :: "u32 \<Rightarrow> u32" where
  "bswap32 w = le32 (byte_at 3 w) (byte_at 2 w) (byte_at 1 w) (byte_at 0 w)"

abbreviation "ntohs \<equiv> bswap16"
abbreviation "htons \<equiv> bswap16"
abbreviation "ntohl \<equiv> bswap32"
abbreviation "htonl \<equiv> bswap32"

lemma bswap16_bswap16 [simp, bswap_simps]: "bswap16 (bswap16 w) = w"
  by (simp add: bswap16_def)

lemma bswap32_bswap32 [simp, bswap_simps]: "bswap32 (bswap32 w) = w"
  by (simp add: bswap32_def)

lemma bswap32_inj [simp]: "bswap32 a = bswap32 b \<longleftrightarrow> a = b"
  by (metis bswap32_bswap32)

lemma bswap16_inj [simp]: "bswap16 a = bswap16 b \<longleftrightarrow> a = b"
  by (metis bswap16_bswap16)

section \<open>Loads\<close>

definition ld8 :: "bytes \<Rightarrow> nat \<Rightarrow> u8 res" where
  "ld8 m p = (if p < length m then Ret (m ! p) else Fault OutOfBounds)"

definition ld16 :: "bytes \<Rightarrow> nat \<Rightarrow> u16 res" where
  "ld16 m p = (if p + 2 \<le> length m then Ret (le16 (m ! p) (m ! (p + 1))) else Fault OutOfBounds)"

definition ld32 :: "bytes \<Rightarrow> nat \<Rightarrow> u32 res" where
  "ld32 m p =
     (if p + 4 \<le> length m
      then Ret (le32 (m ! p) (m ! (p + 1)) (m ! (p + 2)) (m ! (p + 3)))
      else Fault OutOfBounds)"

lemmas ld_defs = ld8_def ld16_def ld32_def

text \<open>
  A C string at an address: the bytes up to the first zero. Without a zero before the end
  of the block, every reader of the string (\<open>strlen\<close>, \<open>strcpy\<close>, the \<open>std::string\<close>
  constructor, \<open>PreparedStatement_setString\<close>) leaves the block.
\<close>

definition c_str_at :: "bytes \<Rightarrow> nat \<Rightarrow> bytes res" where
  "c_str_at m p =
     (if 0 \<in> set (drop p m) then Ret (takeWhile (\<lambda>b. b \<noteq> 0) (drop p m)) else Fault OutOfBounds)"

text \<open>\<open>std::string(const char *)\<close> over a byte string: cut at the first zero.\<close>

definition cut_nul :: "bytes \<Rightarrow> bytes" where
  "cut_nul s = takeWhile (\<lambda>b. b \<noteq> 0) s"

lemma cut_nul_no_nul [simp]: "0 \<notin> set s \<Longrightarrow> cut_nul s = s"
  unfolding cut_nul_def by (rule takeWhile_all_eq) auto

lemma zero_notin_cut_nul [simp]: "0 \<notin> set (cut_nul s)"
  using set_takeWhile_P by (fastforce simp: cut_nul_def)

lemma c_str_at_no_nul: "c_str_at m p = Ret s \<Longrightarrow> 0 \<notin> set s"
  by (auto simp: c_str_at_def split: if_splits dest: set_takeWhile_P)

lemma length_cut_nul: "length (cut_nul s) \<le> length s"
  by (simp add: cut_nul_def length_takeWhile_le)

lemma c_str_at_length: "c_str_at m p = Ret s \<Longrightarrow> p + length s < length m"
proof -
  assume s: "c_str_at m p = Ret s"
  then have z: "0 \<in> set (drop p m)" and s': "s = takeWhile (\<lambda>b. b \<noteq> 0) (drop p m)"
    by (auto simp: c_str_at_def split: if_splits)
  have "s \<noteq> drop p m" using z c_str_at_no_nul [OF s] by auto
  then have "length s < length (drop p m)"
    by (metis s' length_takeWhile_le le_neq_implies_less takeWhile_eq_take take_all order_refl)
  then show ?thesis by simp
qed

lemma c_str_at_append: "0 \<notin> set s \<Longrightarrow> c_str_at (m @ s @ 0 # t) (length m) = Ret s"
  by (auto simp: c_str_at_def intro!: takeWhile_append_stop)

section \<open>Stores\<close>

text \<open>
  \<open>put m p bs\<close> writes the bytes \<open>bs\<close> at offset \<open>p\<close> of the block \<open>m\<close>: what a casted
  store, \<open>memcpy\<close> and \<open>strcpy\<close> do.
\<close>

definition put :: "bytes \<Rightarrow> nat \<Rightarrow> bytes \<Rightarrow> bytes res" where
  "put m p bs =
     (if p + length bs \<le> length m
      then Ret (take p m @ bs @ drop (p + length bs) m)
      else Fault OutOfBounds)"

definition get :: "bytes \<Rightarrow> nat \<Rightarrow> nat \<Rightarrow> bytes res" where
  "get m p n = (if p + n \<le> length m then Ret (take n (drop p m)) else Fault OutOfBounds)"

lemma put_length: "put m p bs = Ret m' \<Longrightarrow> length m' = length m"
  by (auto simp: put_def split: if_splits)

lemma put_Ret_iff [mem_simps]: "returns (put m p bs) \<longleftrightarrow> p + length bs \<le> length m"
  by (simp add: put_def)

lemma put_append [mem_simps]:
  "length bs \<le> length rest \<Longrightarrow>
   put (pre @ rest) (length pre) bs = Ret (pre @ bs @ drop (length bs) rest)"
  by (simp add: put_def)

end
