(* ===== verification/Floats.thy ===== *)
theory Floats
  imports Prelude
begin

text \<open>
  The floating-point operations the source uses, on IEEE 754 bit patterns: a \<open>float\<close> is
  the 32-bit word that holds it, a \<open>double\<close> the 64-bit word.
  The source compares floats (\<open>sate.snr > cur_snr\<close>), tests a double for being positive,
  narrows a double to a float, converts a float to \<open>int32_t\<close> and back (the constructor
  \<open>SateParam(int32_t, int32_t, int32_t)\<close>) and prints a float with \<open>std::to_string\<close>
  (\<open>"%f"\<close>: six decimals, halves to even). NaN compares false with everything.
\<close>

type_synonym f32 = "32 word"
type_synonym f64 = "64 word"

section \<open>Fields\<close>

definition f32_neg :: "f32 \<Rightarrow> bool" where "f32_neg w = (0x80000000 \<le> uint w)"
definition f32_mag :: "f32 \<Rightarrow> int" where "f32_mag w = uint w mod 0x80000000"
definition f32_exp :: "f32 \<Rightarrow> int" where "f32_exp w = f32_mag w div 0x800000"
definition f32_frac :: "f32 \<Rightarrow> int" where "f32_frac w = f32_mag w mod 0x800000"

definition f64_neg :: "f64 \<Rightarrow> bool" where "f64_neg w = (0x8000000000000000 \<le> uint w)"
definition f64_mag :: "f64 \<Rightarrow> int" where "f64_mag w = uint w mod 0x8000000000000000"
definition f64_exp :: "f64 \<Rightarrow> int" where "f64_exp w = f64_mag w div 0x10000000000000"
definition f64_frac :: "f64 \<Rightarrow> int" where "f64_frac w = f64_mag w mod 0x10000000000000"

definition f32_is_nan :: "f32 \<Rightarrow> bool" where "f32_is_nan w = (0x7F800000 < f32_mag w)"
definition f32_is_inf :: "f32 \<Rightarrow> bool" where "f32_is_inf w = (f32_mag w = 0x7F800000)"
definition f64_is_nan :: "f64 \<Rightarrow> bool" where "f64_is_nan w = (0x7FF0000000000000 < f64_mag w)"
definition f64_is_inf :: "f64 \<Rightarrow> bool" where "f64_is_inf w = (f64_mag w = 0x7FF0000000000000)"

lemmas f32_defs = f32_neg_def f32_mag_def f32_exp_def f32_frac_def f32_is_nan_def f32_is_inf_def
lemmas f64_defs = f64_neg_def f64_mag_def f64_exp_def f64_frac_def f64_is_nan_def f64_is_inf_def

text \<open>A finite float is \<open>mant \<times> 2 ^ expo\<close>, up to its sign.\<close>

definition f32_mant :: "f32 \<Rightarrow> int" where
  "f32_mant w = (if f32_exp w = 0 then f32_frac w else 0x800000 + f32_frac w)"

definition f32_expo :: "f32 \<Rightarrow> int" where
  "f32_expo w = max 1 (f32_exp w) - 150"

definition f64_mant :: "f64 \<Rightarrow> int" where
  "f64_mant w = (if f64_exp w = 0 then f64_frac w else 0x10000000000000 + f64_frac w)"

definition f64_expo :: "f64 \<Rightarrow> int" where
  "f64_expo w = max 1 (f64_exp w) - 1075"

section \<open>Comparison\<close>

definition f32_key :: "f32 \<Rightarrow> int" where
  "f32_key w = (if f32_neg w then - f32_mag w else f32_mag w)"

definition f32_gt :: "f32 \<Rightarrow> f32 \<Rightarrow> bool" where
  "f32_gt a b \<longleftrightarrow> \<not> f32_is_nan a \<and> \<not> f32_is_nan b \<and> f32_key b < f32_key a"

definition f64_positive :: "f64 \<Rightarrow> bool" where
  "f64_positive w \<longleftrightarrow> \<not> f64_is_nan w \<and> \<not> f64_neg w \<and> f64_mag w \<noteq> 0"

lemma f32_gt_irrefl [simp]: "\<not> f32_gt a a"
  by (simp add: f32_gt_def)

lemma f32_gt_trans: "f32_gt a b \<Longrightarrow> f32_gt b c \<Longrightarrow> f32_gt a c"
  by (auto simp: f32_gt_def)

lemma f32_gt_not_nan: "f32_gt a b \<Longrightarrow> \<not> f32_is_nan a"
  by (simp add: f32_gt_def)

text \<open>The float constant \<open>-1\<close> of the source.\<close>

definition f32_minus_one :: f32 where "f32_minus_one = 0xBF800000"

section \<open>Rounding\<close>

text \<open>\<open>rne a b\<close>: the quotient \<open>a / b\<close> rounded to the nearest integer, ties to even.\<close>

definition rne :: "int \<Rightarrow> int \<Rightarrow> int" where
  "rne a b =
     (let q = a div b; r = a mod b
      in if 2 * r < b then q else if b < 2 * r then q + 1 else if even q then q else q + 1)"

function bit_length :: "int \<Rightarrow> int" where
  "bit_length n = (if n \<le> 0 then 0 else 1 + bit_length (n div 2))"
  by pat_completeness auto
termination
  by (relation "measure nat") auto

declare bit_length.simps [simp del]

text \<open>
  The bits (without a sign) of the float nearest to \<open>m \<times> 2 ^ e\<close>, infinity when it is
  too large.
\<close>

definition f32_round :: "int \<Rightarrow> int \<Rightarrow> int" where
  "f32_round m e =
     (if m = 0 then 0
      else let q = max (e + bit_length m - 24) (- 149);
               r = (if q \<le> e then m * 2 ^ nat (e - q) else rne m (2 ^ nat (q - e)))
           in min 0x7F800000 (r + (q + 149) * 0x800000))"

definition f32_signed :: "bool \<Rightarrow> int \<Rightarrow> f32" where
  "f32_signed neg mag = word_of_int (mag + (if neg then 0x80000000 else 0))"

section \<open>Conversions\<close>

text \<open>\<open>(float) d\<close> for a double \<open>d\<close>.\<close>

definition f64_to_f32 :: "f64 \<Rightarrow> f32" where
  "f64_to_f32 d =
     (if f64_is_nan d
      then f32_signed (f64_neg d) (0x7FC00000 + f64_frac d mod 2 ^ 51 div 2 ^ 29)
      else if f64_is_inf d then f32_signed (f64_neg d) 0x7F800000
      else f32_signed (f64_neg d) (f32_round (f64_mant d) (f64_expo d)))"

text \<open>The conversion of a float to \<open>int32_t\<close>: towards zero, undefined out of range.\<close>

definition f32_trunc_mag :: "f32 \<Rightarrow> int" where
  "f32_trunc_mag w =
     (if 0 \<le> f32_expo w then f32_mant w * 2 ^ nat (f32_expo w)
      else f32_mant w div 2 ^ nat (- f32_expo w))"

definition f32_to_i32 :: "f32 \<Rightarrow> i32 res" where
  "f32_to_i32 w =
     (if f32_is_nan w \<or> f32_is_inf w then Fault BadConversion
      else let n = (if f32_neg w then - f32_trunc_mag w else f32_trunc_mag w)
           in if - 0x80000000 \<le> n \<and> n < 0x80000000 then Ret n else Fault BadConversion)"

definition i32_to_f32 :: "i32 \<Rightarrow> f32" where
  "i32_to_f32 n = f32_signed (n < 0) (f32_round \<bar>n\<bar> 0)"

section \<open>Printing\<close>

text \<open>\<open>std::to_string\<close> of an unsigned number, and of a float.\<close>

definition digit :: "int \<Rightarrow> char" where
  "digit k = ''0123456789'' ! nat (k mod 10)"

function nat_to_string :: "int \<Rightarrow> string" where
  "nat_to_string n =
     (if n < 10 then [digit n] else nat_to_string (n div 10) @ [digit n])"
  by pat_completeness auto
termination
  by (relation "measure nat") auto

declare nat_to_string.simps [simp del]

fun pad_digits :: "nat \<Rightarrow> int \<Rightarrow> string" where
  "pad_digits 0 n = []"
| "pad_digits (Suc k) n = pad_digits k (n div 10) @ [digit n]"

text \<open>The magnitude in millionths.\<close>

definition f32_micros :: "f32 \<Rightarrow> int" where
  "f32_micros w =
     (if 0 \<le> f32_expo w then f32_mant w * 2 ^ nat (f32_expo w) * 1000000
      else rne (f32_mant w * 1000000) (2 ^ nat (- f32_expo w)))"

definition f32_to_string :: "f32 \<Rightarrow> string" where
  "f32_to_string w =
     (if f32_neg w then ''-'' else '''') @
     (if f32_is_nan w then ''nan''
      else if f32_is_inf w then ''inf''
      else nat_to_string (f32_micros w div 1000000) @ ''.'' @
           pad_digits 6 (f32_micros w mod 1000000))"

lemma f32_to_string_minus_one: "f32_to_string f32_minus_one = ''-1.000000''"
  by code_simp

end
