(* ===== verification/Protocol.thy ===== *)
theory Protocol
  imports Bytes Floats
begin

text \<open>
  \<open>src/logic/protocol.h\<close>: the frame types, the packed structs and how the handlers read
  them. A handler gets a \<open>ControlHead *\<close> that points at the bytes of the request, so a
  field access is a load at the field's packed offset: \<open>from_id\<close> 0, \<open>to_id\<close> 4, \<open>frame_id\<close> 8,
  \<open>type\<close> 10, \<open>retain\<close> 11, \<open>content\<close> 12. The pointer is modelled by the block of memory it
  points to, from the struct's first byte to the end of the block. The fields keep the
  byte order of the wire; the handlers convert them with \<open>ntohl\<close>.
\<close>

section \<open>Frame types\<close>

datatype SignalType =
    Login | Logout | MOBILE_MANAGER_REQUEST | SIMPLE_MESSAGE | FORWARD_NOACK_MESSAGE
  | BACKWARD_NOACK_MESSAGE | COMPLETE_MESSAGE | INQUIRE_MESSAGE_REQUEST | RECEIPTE

fun signal_code :: "SignalType \<Rightarrow> u8" where
  "signal_code Login = 0x00"
| "signal_code Logout = 0x02"
| "signal_code MOBILE_MANAGER_REQUEST = 0x03"
| "signal_code SIMPLE_MESSAGE = 0x40"
| "signal_code FORWARD_NOACK_MESSAGE = 0x50"
| "signal_code BACKWARD_NOACK_MESSAGE = 0x51"
| "signal_code COMPLETE_MESSAGE = 0x60"
| "signal_code INQUIRE_MESSAGE_REQUEST = 0x70"
| "signal_code RECEIPTE = 0x80"

text \<open>The \<open>case\<close> label a byte selects; \<open>None\<close> is the \<open>default\<close> branch.\<close>

definition all_signals :: "SignalType list" where
  "all_signals =
     [Login, Logout, MOBILE_MANAGER_REQUEST, SIMPLE_MESSAGE, FORWARD_NOACK_MESSAGE,
      BACKWARD_NOACK_MESSAGE, COMPLETE_MESSAGE, INQUIRE_MESSAGE_REQUEST, RECEIPTE]"

definition signal_of :: "u8 \<Rightarrow> SignalType option" where
  "signal_of b = find (\<lambda>t. signal_code t = b) all_signals"

lemma signal_of_code [simp]: "signal_of (signal_code t) = Some t"
  by (cases t) (simp_all add: signal_of_def all_signals_def)

lemma signal_of_SomeD: "signal_of b = Some t \<Longrightarrow> b = signal_code t"
  by (auto simp: signal_of_def find_Some_iff)

lemma signal_of_None_iff: "signal_of b = None \<longleftrightarrow> (\<forall>t. b \<noteq> signal_code t)"
  by (metis not_None_eq signal_of_SomeD signal_of_code)

section \<open>Structs\<close>

record ControlHead =
  ch_from_id :: u32
  ch_to_id :: u32
  ch_frame_id :: u16
  ch_type :: u8
  ch_retain :: u8
  ch_content :: bytes

record MobileRequest =
  mr_timestamp :: u32
  mr_position :: u8
  mr_lng :: f32
  mr_lat :: f32
  mr_height :: f32
  mr_content :: bytes

record SateParam =
  sate_id :: i32
  beam_id :: i32
  snr :: f32

record Satellite =
  grand_cover :: u8
  sat_cover_num :: u8
  sates_param :: "SateParam list"

record Response =
  res_to_id :: u32
  res_from_id :: u32
  res_frame_id :: u16
  res_type :: u8
  res_retain :: u8
  res_receipt_type :: u8
  res_receipt_indicate :: u8

record MessageReceiptItem =
  item_user_id :: u32
  item_frame_id :: u16
  item_receipt_type :: u8
  item_receipt_indicate :: u8

record MessageResponse =
  mres_to_id :: u64
  mres_from_id :: u64
  mres_frame_id :: u16
  mres_type :: u8
  mres_retain :: u8
  message_receipt_item :: MessageReceiptItem

record MessageItem =
  msg_to_id :: u32
  msg_from_id :: u32
  msg_frame_id :: u16
  msg_type :: u8
  msg_retain :: u8
  msg_content :: bytes

text \<open>
  The two constructors of \<open>SateParam\<close> beside the copy constructor. The second takes the
  SNR as an \<open>int32_t\<close>, so a float argument is converted to an integer and back.
\<close>

definition SateParam0 :: SateParam where
  "SateParam0 = \<lparr>sate_id = 0, beam_id = 0, snr = 0\<rparr>"

definition SateParam3 :: "i32 \<Rightarrow> i32 \<Rightarrow> f32 \<Rightarrow> SateParam res" where
  "SateParam3 sate beam s =
     bindR (f32_to_i32 s) (\<lambda>n. Ret \<lparr>sate_id = sate, beam_id = beam, snr = i32_to_f32 n\<rparr>)"

section \<open>Field accesses through a \<open>ControlHead *\<close>\<close>

definition head_from_id :: "bytes \<Rightarrow> u32 res" where "head_from_id p = ld32 p 0"
definition head_to_id :: "bytes \<Rightarrow> u32 res" where "head_to_id p = ld32 p 4"
definition head_frame_id :: "bytes \<Rightarrow> u16 res" where "head_frame_id p = ld16 p 8"
definition head_type :: "bytes \<Rightarrow> u8 res" where "head_type p = ld8 p 10"
definition head_retain :: "bytes \<Rightarrow> u8 res" where "head_retain p = ld8 p 11"
definition head_content :: "bytes \<Rightarrow> bytes res" where "head_content p = c_str_at p 12"

lemmas head_defs = head_from_id_def head_to_id_def head_frame_id_def head_type_def
  head_retain_def head_content_def

text \<open>Offset of \<open>content\<close> in \<open>ControlHead\<close>, and of \<open>content\<close> in the \<open>MobileRequest\<close> there.\<close>

definition content_offset :: nat where "content_offset = 12"
definition cover_offset :: nat where "cover_offset = content_offset + 17"

text \<open>\<open>(UserAckResponse *) control_head->content\<close>.\<close>

definition ack_frame_id :: "bytes \<Rightarrow> u16 res" where "ack_frame_id p = ld16 p content_offset"
definition ack_receipt_type :: "bytes \<Rightarrow> u8 res" where
  "ack_receipt_type p = ld8 p (content_offset + 2)"

text \<open>
  The bytes of a frame, as the terminal sends them, and the block \<open>request.c_str()\<close> points
  to: the request and its terminating zero.
\<close>

definition head_bytes :: "ControlHead \<Rightarrow> bytes" where
  "head_bytes h =
     bytes32 (ch_from_id h) @ bytes32 (ch_to_id h) @ bytes16 (ch_frame_id h) @
     [ch_type h, ch_retain h] @ ch_content h"

definition mobile_bytes :: "MobileRequest \<Rightarrow> bytes" where
  "mobile_bytes r =
     bytes32 (mr_timestamp r) @ [mr_position r] @ bytes32 (mr_lng r) @ bytes32 (mr_lat r) @
     bytes32 (mr_height r) @ mr_content r"

definition c_str :: "bytes \<Rightarrow> bytes" where
  "c_str s = s @ [0]"

lemma length_head_bytes [simp]: "length (head_bytes h) = 12 + length (ch_content h)"
  by (simp add: head_bytes_def)

lemma length_mobile_bytes [simp]: "length (mobile_bytes r) = 17 + length (mr_content r)"
  by (simp add: mobile_bytes_def)

lemma length_c_str [simp]: "length (c_str s) = Suc (length s)"
  by (simp add: c_str_def)

text \<open>On a request of at least ten bytes every field up to \<open>type\<close> can be read.\<close>

lemma head_readable [mem_simps]:
  assumes "10 \<le> length req"
  shows "\<exists>v. head_from_id (c_str req) = Ret v" "\<exists>v. head_to_id (c_str req) = Ret v"
    "\<exists>v. head_frame_id (c_str req) = Ret v" "\<exists>v. head_type (c_str req) = Ret v"
  using assms by (simp_all add: head_defs ld_defs)

lemma head_fields [mem_simps]:
  "head_from_id (c_str (head_bytes h)) = Ret (ch_from_id h)"
  "head_to_id (c_str (head_bytes h)) = Ret (ch_to_id h)"
  "head_frame_id (c_str (head_bytes h)) = Ret (ch_frame_id h)"
  "head_type (c_str (head_bytes h)) = Ret (ch_type h)"
  "head_retain (c_str (head_bytes h)) = Ret (ch_retain h)"
  by (simp_all add: head_defs ld_defs c_str_def head_bytes_def bytes32_def bytes16_def
      nth_append nth_Cons')

lemma head_content_cut [mem_simps]:
  "head_content (c_str (head_bytes h)) = Ret (cut_nul (ch_content h))"
  by (auto simp: head_content_def c_str_at_def c_str_def head_bytes_def bytes32_def
      bytes16_def cut_nul_def takeWhile_append takeWhile_all_eq)

text \<open>The user numbers in a frame.\<close>

definition sender :: "ControlHead \<Rightarrow> u32" where "sender h = ntohl (ch_from_id h)"
definition receiver :: "ControlHead \<Rightarrow> u32" where "receiver h = ntohl (ch_to_id h)"

end
