(* ===== verification/Coder.thy ===== *)
theory Coder
  imports Protocol
begin

text \<open>
  \<open>src/logic/coder.cpp\<close>: the four encoders. Each has a local \<open>char buf[1024] = {0}\<close> and a
  write pointer \<open>pos\<close>; the state of an encoder is that buffer and the offset of \<open>pos\<close>.
  A store or a \<open>strcpy\<close> past the end of \<open>buf\<close> faults.
\<close>

section \<open>The encoders\<close>

type_synonym enc_state = "bytes \<times> nat"

definition buf_size :: nat where "buf_size = 1024"

definition start_enc :: enc_state where
  "start_enc = (replicate buf_size 0, 0)"

text \<open>A store at \<open>pos\<close> followed by the advance of \<open>pos\<close>.\<close>

definition emit :: "bytes \<Rightarrow> enc_state \<Rightarrow> enc_state res" where
  "emit bs s = (case s of (buf, pos) \<Rightarrow> bindR (put buf pos bs) (\<lambda>buf'. Ret (buf', pos + length bs)))"

definition ResponseEncode :: "Response \<Rightarrow> bytes res" where
  "ResponseEncode r =
     bindR (emit (bytes32 (res_to_id r)) start_enc) (\<lambda>s.
     bindR (emit (bytes32 (res_from_id r)) s) (\<lambda>s.
     bindR (emit (bytes16 (res_frame_id r)) s) (\<lambda>s.
     bindR (emit [res_type r] s) (\<lambda>s.
     bindR (emit [res_retain r] s) (\<lambda>s.
     bindR (emit [res_receipt_type r] s) (\<lambda>s.
     bindR (emit [res_receipt_indicate r] s) (\<lambda>(buf, pos).
     get buf 0 (pos + 1))))))))"

definition ResponseEncode_message :: "MessageResponse \<Rightarrow> bytes res" where
  "ResponseEncode_message r =
     bindR (emit (bytes32 (ucast (mres_to_id r))) start_enc) (\<lambda>s.
     bindR (emit (bytes32 (ucast (mres_from_id r))) s) (\<lambda>s.
     bindR (emit (bytes16 (mres_frame_id r)) s) (\<lambda>s.
     bindR (emit [mres_type r] s) (\<lambda>s.
     bindR (emit [mres_retain r] s) (\<lambda>s.
     bindR (emit (bytes32 (item_user_id (message_receipt_item r))) s) (\<lambda>s.
     bindR (emit (bytes16 (item_frame_id (message_receipt_item r))) s) (\<lambda>s.
     bindR (emit [item_receipt_type (message_receipt_item r)] s) (\<lambda>s.
     bindR (emit [item_receipt_indicate (message_receipt_item r)] s) (\<lambda>(buf, pos).
     get buf 0 (pos + 1))))))))))"

definition MessageEncode_head :: "bytes \<Rightarrow> bytes res" where
  "MessageEncode_head p =
     bindR (head_to_id p) (\<lambda>v. bindR (emit (bytes32 v) start_enc) (\<lambda>s.
     bindR (head_from_id p) (\<lambda>v. bindR (emit (bytes32 v) s) (\<lambda>s.
     bindR (head_frame_id p) (\<lambda>v. bindR (emit (bytes16 v) s) (\<lambda>s.
     bindR (head_type p) (\<lambda>v. bindR (emit [v] s) (\<lambda>s.
     bindR (head_retain p) (\<lambda>v. bindR (emit [v] s) (\<lambda>(buf, pos).
     bindR (head_content p) (\<lambda>str.
     bindR (put buf pos (str @ [0])) (\<lambda>buf.
     get buf 0 (pos + (length str + 1))))))))))))))"

definition MessageEncode_item :: "MessageItem \<Rightarrow> bytes res" where
  "MessageEncode_item m =
     bindR (emit (bytes32 (htonl (msg_to_id m))) start_enc) (\<lambda>s.
     bindR (emit (bytes32 (htonl (msg_from_id m))) s) (\<lambda>s.
     bindR (emit (bytes16 (htons (msg_frame_id m))) s) (\<lambda>s.
     bindR (emit [msg_type m] s) (\<lambda>s.
     bindR (emit [msg_retain m] s) (\<lambda>(buf, pos).
     bindR (put buf pos (cut_nul (msg_content m) @ [0])) (\<lambda>buf.
     get buf 0 (pos + (length (msg_content m) + 1))))))))"

section \<open>Writing into a zeroed buffer\<close>

text \<open>The encoder's state after the bytes \<open>pre\<close> have been written.\<close>

definition filled :: "bytes \<Rightarrow> enc_state" where
  "filled pre = (pre @ replicate (buf_size - length pre) 0, length pre)"

lemma start_enc_filled: "start_enc = filled []"
  by (simp add: start_enc_def filled_def)

lemma put_filled [mem_simps]:
  "length pre \<le> buf_size \<Longrightarrow>
   put (pre @ replicate (buf_size - length pre) 0) (length pre) bs =
     (if length pre + length bs \<le> buf_size
      then Ret ((pre @ bs) @ replicate (buf_size - length (pre @ bs)) 0)
      else Fault OutOfBounds)"
  by (auto simp: put_def)

lemma emit_filled [mem_simps]:
  "length pre \<le> buf_size \<Longrightarrow>
   emit bs (filled pre) =
     (if length pre + length bs \<le> buf_size then Ret (filled (pre @ bs)) else Fault OutOfBounds)"
  by (simp add: emit_def filled_def put_filled)

lemma get_filled [mem_simps]:
  "length pre + k \<le> buf_size \<Longrightarrow>
   get (pre @ replicate (buf_size - length pre) 0) 0 (length pre + k) = Ret (pre @ replicate k 0)"
  by (simp add: get_def)

lemma case_filled [mem_simps]:
  "(case filled pre of (buf, pos) \<Rightarrow> f buf pos) =
     f (pre @ replicate (buf_size - length pre) 0) (length pre)"
  by (simp add: filled_def)

lemmas enc_simps = start_enc_filled emit_filled put_filled get_filled case_filled

section \<open>What the encoders produce\<close>

text \<open>\<open>ResponseEncode\<close> passes \<open>(pos - buf) + 1\<close> as the length: one zero byte more than the struct.\<close>

definition response_wire :: "Response \<Rightarrow> bytes" where
  "response_wire r =
     bytes32 (res_to_id r) @ bytes32 (res_from_id r) @ bytes16 (res_frame_id r) @
     [res_type r, res_retain r, res_receipt_type r, res_receipt_indicate r]"

lemma length_response_wire [simp]: "length (response_wire r) = 14"
  by (simp add: response_wire_def)

lemma ResponseEncode_eq: "ResponseEncode r = Ret (response_wire r @ [0])"
proof -
  have "ResponseEncode r =
      (case filled (response_wire r) of (buf, pos) \<Rightarrow> get buf 0 (pos + 1))"
    by (simp add: ResponseEncode_def start_enc_filled emit_filled buf_size_def response_wire_def)
  also have "\<dots> = Ret (response_wire r @ [0])"
    using get_filled [of "response_wire r" 1] by (simp add: case_filled buf_size_def)
  finally show ?thesis .
qed

definition message_response_wire :: "MessageResponse \<Rightarrow> bytes" where
  "message_response_wire r =
     bytes32 (ucast (mres_to_id r)) @ bytes32 (ucast (mres_from_id r)) @
     bytes16 (mres_frame_id r) @ [mres_type r, mres_retain r] @
     bytes32 (item_user_id (message_receipt_item r)) @
     bytes16 (item_frame_id (message_receipt_item r)) @
     [item_receipt_type (message_receipt_item r), item_receipt_indicate (message_receipt_item r)]"

lemma length_message_response_wire [simp]: "length (message_response_wire r) = 20"
  by (simp add: message_response_wire_def)

lemma ResponseEncode_message_eq:
  "ResponseEncode_message r = Ret (message_response_wire r @ [0])"
proof -
  have "ResponseEncode_message r =
      (case filled (message_response_wire r) of (buf, pos) \<Rightarrow> get buf 0 (pos + 1))"
    by (simp add: ResponseEncode_message_def start_enc_filled emit_filled buf_size_def
        message_response_wire_def)
  also have "\<dots> = Ret (message_response_wire r @ [0])"
    using get_filled [of "message_response_wire r" 1] by (simp add: case_filled buf_size_def)
  finally show ?thesis .
qed

text \<open>
  The frame to a terminal: a header of twelve bytes with the receiver first, then the text
  as a C string.
\<close>

definition message_wire :: "u32 \<Rightarrow> u32 \<Rightarrow> u16 \<Rightarrow> u8 \<Rightarrow> u8 \<Rightarrow> bytes" where
  "message_wire dst src f t r = bytes32 dst @ bytes32 src @ bytes16 f @ [t, r]"

lemma length_message_wire [simp]: "length (message_wire d s f t r) = 12"
  by (simp add: message_wire_def)

text \<open>\<open>strcpy\<close> after the header, then the \<open>std::string\<close> over what was written.\<close>

lemma encode_text:
  assumes "length w = 12"
  shows "(case filled w of (buf, pos) \<Rightarrow>
           bindR (put buf pos (str @ [0])) (\<lambda>buf. get buf 0 (pos + (length str + 1)))) =
         (if length str \<le> 1011 then Ret (w @ str @ [0]) else Fault OutOfBounds)"
  using assms by (simp add: filled_def put_def get_def buf_size_def)

lemma MessageEncode_head_eq:
  assumes "head_to_id p = Ret dst" and "head_from_id p = Ret src" and "head_frame_id p = Ret f"
    and "head_type p = Ret t" and "head_retain p = Ret r" and "head_content p = Ret str"
  shows "MessageEncode_head p =
    (if length str \<le> 1011 then Ret (message_wire dst src f t r @ str @ [0])
     else Fault OutOfBounds)"
proof -
  let ?w = "message_wire dst src f t r"
  have "MessageEncode_head p =
      (case filled ?w of (buf, pos) \<Rightarrow>
         bindR (put buf pos (str @ [0])) (\<lambda>buf. get buf 0 (pos + (length str + 1))))"
    by (simp add: MessageEncode_head_def assms start_enc_filled emit_filled buf_size_def
        message_wire_def)
  also have "\<dots> = (if length str \<le> 1011 then Ret (?w @ str @ [0]) else Fault OutOfBounds)"
    by (rule encode_text) simp
  finally show ?thesis .
qed

lemma MessageEncode_item_eq:
  assumes "0 \<notin> set (msg_content m)"
  shows "MessageEncode_item m =
    (if length (msg_content m) \<le> 1011
     then Ret (message_wire (htonl (msg_to_id m)) (htonl (msg_from_id m)) (htons (msg_frame_id m))
                 (msg_type m) (msg_retain m) @ msg_content m @ [0])
     else Fault OutOfBounds)"
proof -
  let ?w = "message_wire (htonl (msg_to_id m)) (htonl (msg_from_id m)) (htons (msg_frame_id m))
    (msg_type m) (msg_retain m)"
  let ?str = "msg_content m"
  have "MessageEncode_item m =
      (case filled ?w of (buf, pos) \<Rightarrow>
         bindR (put buf pos (?str @ [0])) (\<lambda>buf. get buf 0 (pos + (length ?str + 1))))"
    by (simp add: MessageEncode_item_def assms start_enc_filled emit_filled buf_size_def
        message_wire_def)
  also have "\<dots> = (if length ?str \<le> 1011 then Ret (?w @ ?str @ [0]) else Fault OutOfBounds)"
    by (rule encode_text) simp
  finally show ?thesis .
qed

section \<open>Properties\<close>

text \<open>How a terminal reads the frames: the fields of the packed structs, in wire order.\<close>

definition decode_response :: "bytes \<Rightarrow> Response res" where
  "decode_response f =
     bindR (ld32 f 0) (\<lambda>dst. bindR (ld32 f 4) (\<lambda>src. bindR (ld16 f 8) (\<lambda>fr.
     bindR (ld8 f 10) (\<lambda>t. bindR (ld8 f 11) (\<lambda>rt. bindR (ld8 f 12) (\<lambda>rct. bindR (ld8 f 13) (\<lambda>ri.
     Ret \<lparr>res_to_id = dst, res_from_id = src, res_frame_id = fr, res_type = t, res_retain = rt,
          res_receipt_type = rct, res_receipt_indicate = ri\<rparr>)))))))"

definition decode_message :: "bytes \<Rightarrow> (u32 \<times> u32 \<times> u16 \<times> u8 \<times> u8 \<times> bytes) res" where
  "decode_message f =
     bindR (ld32 f 0) (\<lambda>dst. bindR (ld32 f 4) (\<lambda>src. bindR (ld16 f 8) (\<lambda>fr.
     bindR (ld8 f 10) (\<lambda>t. bindR (ld8 f 11) (\<lambda>rt. bindR (c_str_at f 12) (\<lambda>str.
     Ret (dst, src, fr, t, rt, str)))))))"

lemma decode_response_wire: "decode_response (response_wire r @ [0]) = Ret r"
  by (cases r) (simp add: decode_response_def response_wire_def ld_defs bytes32_def bytes16_def nth_Cons')

lemma decode_message_wire:
  "0 \<notin> set str \<Longrightarrow>
   decode_message (message_wire d s f t r @ str @ [0]) = Ret (d, s, f, t, r, str)"
  using c_str_at_append [of str "message_wire d s f t r" "[]"]
  by (simp add: decode_message_def ld_defs nth_append)
     (simp add: message_wire_def bytes32_def bytes16_def nth_Cons')

text \<open>
  C24: Encoding an answer never faults, gives fifteen bytes (the fourteen of the packed struct
  and one zero more), and a terminal that reads the packed struct back gets every field of
  the answer, unchanged and in the same byte order.
\<close>

theorem ResponseEncode_roundtrip:
  "\<exists>f. ResponseEncode r = Ret f \<and> length f = 15 \<and> decode_response f = Ret r"
  by (simp add: ResponseEncode_eq decode_response_wire)

text \<open>
  C23: The frame forwarded for a request: when the text up to its first zero byte has at most
  1011 bytes, the terminal reads back the header of the request, receiver first, and the
  text; when it is longer, the encoder writes past the end of its buffer of 1024 bytes.
\<close>

theorem MessageEncode_head_roundtrip:
  "if length (cut_nul (ch_content h)) \<le> 1011
   then \<exists>f. MessageEncode_head (c_str (head_bytes h)) = Ret f \<and>
     decode_message f = Ret (ch_to_id h, ch_from_id h, ch_frame_id h, ch_type h, ch_retain h,
       cut_nul (ch_content h))
   else MessageEncode_head (c_str (head_bytes h)) = Fault OutOfBounds"
  by (simp add: MessageEncode_head_eq [OF head_fields(2,1,3,4,5) head_content_cut]
      decode_message_wire)

end
