(* ===== verification/Environment.thy ===== *)
theory Environment
  imports Coder
begin

text \<open>
  What lies outside the repository and how the program reaches it: libzdb and the MySQL
  server behind it, the clock, and the access servers called over Thrift. None of that code
  is in the source tree, so it is a parameter: an \<open>environment\<close> is a record of functions on
  a state of any type \<open>'s\<close>, and every definition that calls out takes one as an argument.
  Nothing is assumed about these functions here. In particular \<open>'s\<close> can hold the effects
  of the other threads of the server and of other clients of the database between two calls.

  A \<open>world\<close> is the outside state and the trace of the calls made so far. The trace is
  written, never read, by the program: it is what the theorems speak about.
\<close>

section \<open>SQL statements\<close>

text \<open>
  The statements of \<open>database.cpp\<close> as syntax trees over its four tables. A value is one bound
  to a \<open>?\<close> (\<open>setInt\<close>, \<open>setString\<close>, \<open>setTimestamp\<close>) or, in the one statement that is put
  together as text, a literal.
\<close>

datatype table = User_info | Sate_cover | Message_store | Message_cache

datatype column =
    Id | User_id | SNR nat | From_user | To_user | Text | Recv_time | Send_time
  | Frame_id | Type | Retry_num | Retry_time

datatype sql_val = VInt i32 | VStr bytes | VTime time_t | VLit string

datatype cmp = Eq | Lt | Le

type_synonym cond = "column \<times> cmp \<times> sql_val"

datatype sql =
    Insert table "(column \<times> sql_val) list"
  | Update table "(column \<times> sql_val) list" "cond list"
  | Delete table "cond list"
  | Select "column list" table "cond list"
  | SelectAll table "cond list"
  | SelectCount table "cond list"

text \<open>The text of a statement, for comparison with the literals of the source.\<close>

fun table_text :: "table \<Rightarrow> string" where
  "table_text User_info = ''user_info''"
| "table_text Sate_cover = ''sate_cover''"
| "table_text Message_store = ''message_store''"
| "table_text Message_cache = ''message_cache''"

fun column_text :: "column \<Rightarrow> string" where
  "column_text Id = ''id''"
| "column_text User_id = ''user_id''"
| "column_text (SNR i) = ''SNR_'' @ nat_to_string (int i)"
| "column_text From_user = ''from_user''"
| "column_text To_user = ''to_user''"
| "column_text Text = ''text''"
| "column_text Recv_time = ''recv_time''"
| "column_text Send_time = ''send_time''"
| "column_text Frame_id = ''frame_id''"
| "column_text Type = ''type''"
| "column_text Retry_num = ''retry_num''"
| "column_text Retry_time = ''retry_time''"

fun val_text :: "sql_val \<Rightarrow> string" where
  "val_text (VLit s) = s"
| "val_text _ = ''?''"

fun cmp_text :: "cmp \<Rightarrow> string" where
  "cmp_text Eq = '' = ''"
| "cmp_text Lt = '' < ''"
| "cmp_text Le = '' <= ''"

fun sep_by :: "string \<Rightarrow> string list \<Rightarrow> string" where
  "sep_by s [] = ''''"
| "sep_by s [x] = x"
| "sep_by s (x # y # ys) = x @ s @ sep_by s (y # ys)"

definition where_text :: "cond list \<Rightarrow> string" where
  "where_text cs =
     '' WHERE '' @ sep_by '' AND '' (map (\<lambda>(c, op, v). column_text c @ cmp_text op @ val_text v) cs)"

fun sql_text :: "sql \<Rightarrow> string" where
  "sql_text (Insert t cvs) =
     ''INSERT INTO '' @ table_text t @ ''('' @ sep_by '', '' (map (column_text \<circ> fst) cvs) @
     '') VALUES('' @ sep_by '', '' (map (val_text \<circ> snd) cvs) @ '')''"
| "sql_text (Update t cvs cs) =
     ''UPDATE '' @ table_text t @ '' SET '' @
     sep_by '','' (map (\<lambda>(c, v). column_text c @ '' = '' @ val_text v) cvs) @ where_text cs"
| "sql_text (Delete t cs) = ''DELETE FROM '' @ table_text t @ where_text cs"
| "sql_text (Select cols t cs) =
     ''SELECT '' @ sep_by '', '' (map column_text cols) @ '' FROM '' @ table_text t @ where_text cs"
| "sql_text (SelectAll t cs) = ''SELECT * FROM '' @ table_text t @ where_text cs"
| "sql_text (SelectCount t cs) = ''SELECT COUNT(*) FROM '' @ table_text t @ where_text cs"

text \<open>Statements are compared without blanks (the source has a stray tab in one of them).\<close>

definition no_blanks :: "string \<Rightarrow> string" where
  "no_blanks s = filter (\<lambda>c. c \<noteq> CHR '' '' \<and> c \<noteq> CHR 0x09) s"

section \<open>Results\<close>

text \<open>
  A row of a result set answers the getters of libzdb by column position, from 1; \<open>None\<close>
  is a raised \<open>SQLException\<close>, and \<open>Some None\<close> of \<open>rs_string\<close> the null pointer
  \<open>ResultSet_getString\<close> returns for an SQL NULL.
\<close>

record row =
  rs_int :: "nat \<Rightarrow> i32 option"
  rs_string :: "nat \<Rightarrow> bytes option option"
  rs_double :: "nat \<Rightarrow> f64 option"
  rs_timestamp :: "nat \<Rightarrow> time_t option"

datatype answer = Rows "row list" | SQLException

fun succeeded :: "answer \<Rightarrow> bool" where
  "succeeded (Rows _) = True"
| "succeeded SQLException = False"

section \<open>What is sent to an access server\<close>

record Address =
  addr_ip :: string
  addr_port :: i32

record AccessMessage =
  am_uid :: i32
  am_sate_id :: i32
  am_beam_id :: i32
  am_level :: i32
  am_content :: bytes

section \<open>The environment\<close>

type_synonym conn = nat

text \<open>
  \<open>execute_sql\<close> is prepare, bind and execute of one statement; \<open>rpc\<close> is the whole client
  call of \<open>SendMessage\<close> (open, \<open>LogicToAccess\<close>, close), false when it throws.
\<close>

record 's environment =
  pool_getConnection :: "'s \<Rightarrow> conn option \<times> 's"
  connection_close :: "conn \<Rightarrow> 's \<Rightarrow> 's"
  connection_clear :: "conn \<Rightarrow> 's \<Rightarrow> 's"
  execute_sql :: "conn \<Rightarrow> sql \<Rightarrow> 's \<Rightarrow> answer \<times> 's"
  time_now :: "'s \<Rightarrow> time_t \<times> 's"
  rpc :: "Address \<Rightarrow> AccessMessage \<Rightarrow> 's \<Rightarrow> bool \<times> 's"
  sleep_for :: "i32 \<Rightarrow> 's \<Rightarrow> 's"

datatype event =
    Got "conn option"
  | Closed conn
  | Cleared conn
  | Sql conn sql bool
  | Clock time_t
  | Rpc Address AccessMessage bool
  | Slept i32

record 's world =
  ext :: 's
  trace :: "event list"

definition log_event :: "event \<Rightarrow> 's \<Rightarrow> 's world \<Rightarrow> 's world" where
  "log_event e s w = \<lparr>ext = s, trace = trace w @ [e]\<rparr>"

lemma trace_log_event [simp]: "trace (log_event e s w) = trace w @ [e]"
  by (simp add: log_event_def)

lemma ext_log_event [simp]: "ext (log_event e s w) = s"
  by (simp add: log_event_def)

definition ConnectionPool_getConnection ::
  "'s environment \<Rightarrow> 's world \<Rightarrow> conn option \<times> 's world" where
  "ConnectionPool_getConnection E w =
     (case pool_getConnection E (ext w) of (c, s) \<Rightarrow> (c, log_event (Got c) s w))"

definition Connection_close :: "'s environment \<Rightarrow> conn \<Rightarrow> 's world \<Rightarrow> 's world" where
  "Connection_close E c w = log_event (Closed c) (connection_close E c (ext w)) w"

definition Connection_clear :: "'s environment \<Rightarrow> conn \<Rightarrow> 's world \<Rightarrow> 's world" where
  "Connection_clear E c w = log_event (Cleared c) (connection_clear E c (ext w)) w"

definition execute :: "'s environment \<Rightarrow> conn \<Rightarrow> sql \<Rightarrow> 's world \<Rightarrow> answer \<times> 's world" where
  "execute E c q w =
     (case execute_sql E c q (ext w) of (a, s) \<Rightarrow> (a, log_event (Sql c q (succeeded a)) s w))"

definition time_NULL :: "'s environment \<Rightarrow> 's world \<Rightarrow> time_t \<times> 's world" where
  "time_NULL E w = (case time_now E (ext w) of (t, s) \<Rightarrow> (t, log_event (Clock t) s w))"

definition call_rpc :: "'s environment \<Rightarrow> Address \<Rightarrow> AccessMessage \<Rightarrow> 's world \<Rightarrow> bool \<times> 's world" where
  "call_rpc E a m w = (case rpc E a m (ext w) of (ok, s) \<Rightarrow> (ok, log_event (Rpc a m ok) s w))"

definition sleep :: "'s environment \<Rightarrow> i32 \<Rightarrow> 's world \<Rightarrow> 's world" where
  "sleep E n w = log_event (Slept n) (sleep_for E n (ext w)) w"

lemmas call_defs = ConnectionPool_getConnection_def Connection_close_def Connection_clear_def
  execute_def time_NULL_def call_rpc_def sleep_def

named_theorems trace_simps "the events an operation appends to the trace"

lemma trace_calls [trace_simps]:
  "trace (Connection_close E c w) = trace w @ [Closed c]"
  "trace (Connection_clear E c w) = trace w @ [Cleared c]"
  "trace (sleep E n w) = trace w @ [Slept n]"
  "ConnectionPool_getConnection E w = (c', w') \<Longrightarrow> trace w' = trace w @ [Got c']"
  "execute E c q w = (a, w') \<Longrightarrow> trace w' = trace w @ [Sql c q (succeeded a)]"
  "time_NULL E w = (t, w') \<Longrightarrow> trace w' = trace w @ [Clock t]"
  "call_rpc E ad m w = (ok, w') \<Longrightarrow> trace w' = trace w @ [Rpc ad m ok]"
  by (auto simp: call_defs split: prod.splits)

text \<open>\<open>events w w'\<close>: the calls made between two worlds.\<close>

definition events :: "'s world \<Rightarrow> 's world \<Rightarrow> event list" where
  "events w w' = drop (length (trace w)) (trace w')"

definition extends :: "'s world \<Rightarrow> 's world \<Rightarrow> bool" where
  "extends w w' \<longleftrightarrow> (\<exists>es. trace w' = trace w @ es)"

lemma extends_refl [simp]: "extends w w"
  by (simp add: extends_def)

lemma extends_trans [trans]: "extends a b \<Longrightarrow> extends b c \<Longrightarrow> extends a c"
  by (auto simp: extends_def)

lemma events_append: "trace w' = trace w @ es \<Longrightarrow> events w w' = es"
  by (simp add: events_def)

section \<open>Reasoning about what a handler calls\<close>

text \<open>
  \<open>emits r w Q\<close>: if the run \<open>r\<close>, started in the world \<open>w\<close>, returns, then the events it
  appended to the trace satisfy \<open>Q\<close>. The rules below work through a handler from its first
  call to its last; each theory adds the rule of each of its operations to \<open>emits_rules\<close>.
\<close>

definition emits :: "'s world res \<Rightarrow> 's world \<Rightarrow> (event list \<Rightarrow> bool) \<Rightarrow> bool" where
  "emits r w Q \<longleftrightarrow> (\<forall>w'. r = Ret w' \<longrightarrow> (\<exists>es. trace w' = trace w @ es \<and> Q es))"

named_theorems emits_rules "how to work through a handler"

lemma emitsD: "emits (Ret w') w Q \<Longrightarrow> \<exists>es. trace w' = trace w @ es \<and> Q es"
  by (simp add: emits_def)

lemma emits_events: "emits r w Q \<Longrightarrow> r = Ret w' \<Longrightarrow> Q (events w w')"
  by (auto simp: emits_def events_def)

lemma emits_mono: "emits r w P \<Longrightarrow> (\<And>es. P es \<Longrightarrow> Q es) \<Longrightarrow> emits r w Q"
  by (auto simp: emits_def)

lemma emits_Ret [emits_rules]: "Q [] \<Longrightarrow> emits (Ret w) w Q"
  by (auto simp: emits_def)

lemma emits_Fault [emits_rules]: "emits (Fault e) w Q"
  by (simp add: emits_def)

lemma emits_step:
  assumes "trace w1 = trace w @ pre" and "emits r w1 (\<lambda>es. Q (pre @ es))"
  shows "emits r w Q"
  using assms by (auto simp: emits_def)

lemma emits_bind:
  assumes "\<And>x. m = Ret x \<Longrightarrow> emits (f x) w Q"
  shows "emits (bindR m f) w Q"
  using assms by (auto simp: emits_def bindR_eq_Ret_iff)

lemma emits_bind_Ret: "emits (f x) w Q \<Longrightarrow> emits (bindR (Ret x) f) w Q"
  by simp

lemma emits_if [emits_rules]:
  assumes "b \<Longrightarrow> emits r1 w Q" and "\<not> b \<Longrightarrow> emits r2 w Q"
  shows "emits (if b then r1 else r2) w Q"
  using assms by simp

lemma emits_pair [emits_rules]: "emits (f a b) w Q \<Longrightarrow> emits (case (a, b) of (x, y) \<Rightarrow> f x y) w Q"
  by simp

lemma emits_Some [emits_rules]:
  "emits (f c) w Q \<Longrightarrow> emits (case Some c of None \<Rightarrow> n | Some x \<Rightarrow> f x) w Q"
  by simp

lemma emits_close_Ret [emits_rules]:
  "Q [Closed c] \<Longrightarrow> emits (Ret (Connection_close E c w)) w Q"
  by (auto simp: emits_def trace_calls)

lemma emits_clear_Ret [emits_rules]:
  "Q [Cleared c] \<Longrightarrow> emits (Ret (Connection_clear E c w)) w Q"
  by (auto simp: emits_def trace_calls)

lemma emits_let_close [emits_rules]:
  assumes "\<And>w1. emits (f w1) w1 (\<lambda>es. Q ([Closed c] @ es))"
  shows "emits (let w1 = Connection_close E c w in f w1) w Q"
  unfolding Let_def using assms by (rule emits_step [rotated]) (simp add: trace_calls)

lemma emits_let: "emits (f v) w Q \<Longrightarrow> emits (let x = v in f x) w Q"
  by simp

end
