(* ===== verification/Database.thy ===== *)
theory Database
  imports Environment
begin

text \<open>
  \<open>src/tools/database.cpp\<close>: the class \<open>Database\<close>, one definition per member function
  (\<open>Init\<close> is in \<open>Controller\<close>). Each issues the statements of the source, in the source's
  order, through the environment. A \<open>TRY ... CATCH(SQLException)\<close> block is the case split
  on the answer of a call: an exception ends the block and runs the handler.
\<close>

section \<open>Connections\<close>

text \<open>
  \<open>GetConnection\<close> loops while \<open>count > 0\<close>, with \<open>count\<close> set to 3 and never changed. The
  loop is a partial function: \<open>None\<close> when no attempt ever succeeds.
\<close>

partial_function (option) GetConnection_loop ::
  "'s environment \<Rightarrow> int \<Rightarrow> 's world \<Rightarrow> (conn option \<times> 's world) option" where
  "GetConnection_loop E count w =
     (if 0 < count
      then case ConnectionPool_getConnection E w of
             (Some c, w') \<Rightarrow> Some (Some c, w')
           | (None, w') \<Rightarrow> GetConnection_loop E count w'
      else Some (None, w))"

text \<open>The equation of the loop, so that runs of it can be evaluated.\<close>

declare GetConnection_loop.simps [code]

definition GetConnection :: "'s environment \<Rightarrow> 's world \<Rightarrow> (conn option \<times> 's world) res" where
  "GetConnection E w =
     (case GetConnection_loop E 3 w of Some r \<Rightarrow> Ret r | None \<Rightarrow> Fault NeverReturns)"

section \<open>Satellite cover\<close>

definition MAX_BEAM_NUM :: nat where "MAX_BEAM_NUM = 10"

text \<open>The loop that spreads the beams of a terminal over ten slots, preset to \<open>-1\<close>.\<close>

fun fill_snr :: "SateParam list \<Rightarrow> nat list \<Rightarrow> f32 list \<Rightarrow> f32 list res" where
  "fill_snr sates [] temp = Ret temp"
| "fill_snr sates (i # is) temp =
     (if i < length sates
      then let b = beam_id (sates ! i)
           in if 1 \<le> b \<and> b \<le> 10
              then fill_snr sates is (temp[nat (b - 1) := snr (sates ! i)])
              else Fault AssertFailed
      else Fault OutOfBounds)"

definition update_cover_sql :: "u32 \<Rightarrow> f32 list \<Rightarrow> sql" where
  "update_cover_sql user temp =
     Update Sate_cover
       (map (\<lambda>i. (SNR i, VLit (f32_to_string (temp ! (i - 1))))) [1..<MAX_BEAM_NUM + 1])
       [(User_id, Eq, VLit (nat_to_string (uint user)))]"

definition UpdateSateCover ::
  "'s environment \<Rightarrow> conn \<Rightarrow> u32 \<Rightarrow> Satellite \<Rightarrow> 's world \<Rightarrow> (bool \<times> 's world) res" where
  "UpdateSateCover E conn user_id sate_cover w =
     bindR (fill_snr (sates_param sate_cover) [0..<unat (sat_cover_num sate_cover)]
              (replicate MAX_BEAM_NUM f32_minus_one)) (\<lambda>temp_snr.
     case execute E conn (update_cover_sql user_id temp_snr) w of
       (SQLException, w) \<Rightarrow> Ret (False, w)
     | (Rows _, w) \<Rightarrow> Ret (True, w))"

definition select_cover_sql :: "i32 \<Rightarrow> sql" where
  "select_cover_sql user =
     Select (map SNR [1..<MAX_BEAM_NUM + 1]) Sate_cover [(User_id, Eq, VInt user)]"

text \<open>
  The loop over the ten columns; a getter that raises leaves it with the beams found so far.
\<close>

fun cover_loop :: "row \<Rightarrow> nat list \<Rightarrow> SateParam list \<Rightarrow> SateParam list res" where
  "cover_loop r [] res = Ret res"
| "cover_loop r (i # is) res =
     (case rs_double r i of
        None \<Rightarrow> Ret res
      | Some temp \<Rightarrow>
          if f64_positive temp
          then bindR (SateParam3 ((int i + 1) div 2) (int i) (f64_to_f32 temp)) (\<lambda>s.
               cover_loop r is (res @ [s]))
          else cover_loop r is res)"

definition GetSateCover ::
  "'s environment \<Rightarrow> conn \<Rightarrow> i32 \<Rightarrow> 's world \<Rightarrow> (SateParam list \<times> 's world) res" where
  "GetSateCover E conn user_id w =
     (case execute E conn (select_cover_sql user_id) w of
        (SQLException, w) \<Rightarrow> Ret ([], w)
      | (Rows [], w) \<Rightarrow> Ret ([], w)
      | (Rows (r # _), w) \<Rightarrow>
          bindR (cover_loop r [1..<MAX_BEAM_NUM + 1] []) (\<lambda>res. Ret (res, w)))"

section \<open>Messages\<close>

definition GetOfflineMessageNum ::
  "'s environment \<Rightarrow> conn \<Rightarrow> u32 \<Rightarrow> 's world \<Rightarrow> i32 \<times> 's world" where
  "GetOfflineMessageNum E conn user_id w =
     (case execute E conn (SelectCount Message_cache [(To_user, Eq, VInt (sint user_id))]) w of
        (SQLException, w) \<Rightarrow> (0, w)
      | (Rows [], w) \<Rightarrow> (0, w)
      | (Rows (r # _), w) \<Rightarrow> (case rs_int r 1 of None \<Rightarrow> (0, w) | Some n \<Rightarrow> (n, w)))"

text \<open>
  The first \<open>InsertStoreMessage\<close> takes a \<open>ControlHead *\<close>, \<open>None\<close> for the null pointer.
\<close>

definition insert_store_sql ::
  "i32 \<Rightarrow> i32 \<Rightarrow> bytes \<Rightarrow> time_t \<Rightarrow> time_t \<Rightarrow> i32 \<Rightarrow> i32 \<Rightarrow> sql" where
  "insert_store_sql src dst str rtime stime f t =
     Insert Message_store
       [(From_user, VInt src), (To_user, VInt dst), (Text, VStr str), (Recv_time, VTime rtime),
        (Send_time, VTime stime), (Frame_id, VInt f), (Type, VInt t)]"

definition InsertStoreMessage ::
  "'s environment \<Rightarrow> conn \<Rightarrow> bytes option \<Rightarrow> 's world \<Rightarrow> (bool \<times> 's world) res" where
  "InsertStoreMessage E conn control_head w =
     (case control_head of None \<Rightarrow> Ret (False, w)
      | Some p \<Rightarrow>
     bindR (head_to_id p) (\<lambda>dst. let to_id = ntohl dst in
     bindR (head_from_id p) (\<lambda>src. let from_id = ntohl src in
     bindR (head_frame_id p) (\<lambda>f. let frame_id = ntohs f in
     case time_NULL E w of (recv_time, w) \<Rightarrow>
     let send_time = recv_time in
     bindR (head_content p) (\<lambda>str.
     bindR (head_type p) (\<lambda>t.
     case execute E conn
            (insert_store_sql (sint from_id) (sint to_id) str recv_time send_time
               (uint frame_id) (uint t)) w of
       (SQLException, w) \<Rightarrow> Ret (False, w)
     | (Rows _, w) \<Rightarrow> Ret (True, w)))))))"

text \<open>The second binds \<open>msg.to_id\<close> to \<open>from_user\<close> and \<open>msg.from_id\<close> to \<open>to_user\<close>.\<close>

definition insert_store_item_sql :: "MessageItem \<Rightarrow> time_t \<Rightarrow> time_t \<Rightarrow> sql" where
  "insert_store_item_sql msg rtime stime =
     Insert Message_store
       [(From_user, VInt (sint (msg_to_id msg))), (To_user, VInt (sint (msg_from_id msg))),
        (Type, VInt (uint (msg_type msg))), (Text, VStr (cut_nul (msg_content msg))),
        (Recv_time, VTime rtime), (Send_time, VTime stime),
        (Frame_id, VInt (uint (msg_frame_id msg)))]"

definition InsertStoreMessage_item ::
  "'s environment \<Rightarrow> conn \<Rightarrow> MessageItem \<Rightarrow> time_t \<Rightarrow> 's world \<Rightarrow> bool \<times> 's world" where
  "InsertStoreMessage_item E conn msg recv_time w =
     (case time_NULL E w of (send_time, w) \<Rightarrow>
      case execute E conn (insert_store_item_sql msg recv_time send_time) w of
        (SQLException, w) \<Rightarrow> (False, w)
      | (Rows _, w) \<Rightarrow> (True, w))"

definition insert_offline_sql :: "i32 \<Rightarrow> i32 \<Rightarrow> i32 \<Rightarrow> bytes \<Rightarrow> time_t \<Rightarrow> i32 \<Rightarrow> time_t \<Rightarrow> sql" where
  "insert_offline_sql src dst t str rtime f retry =
     Insert Message_cache
       [(From_user, VInt src), (To_user, VInt dst), (Type, VInt t), (Text, VStr str),
        (Recv_time, VTime rtime), (Frame_id, VInt f), (Retry_time, VTime retry)]"

definition InsertOfflineMessage ::
  "'s environment \<Rightarrow> conn \<Rightarrow> bytes option \<Rightarrow> 's world \<Rightarrow> (bool \<times> 's world) res" where
  "InsertOfflineMessage E conn control_head w =
     (case control_head of None \<Rightarrow> Ret (False, w)
      | Some p \<Rightarrow>
     bindR (head_to_id p) (\<lambda>dst. let to_id = ntohl dst in
     bindR (head_from_id p) (\<lambda>src. let from_id = ntohl src in
     bindR (head_frame_id p) (\<lambda>f. let frame_id = ntohs f in
     case time_NULL E w of (timestamp, w) \<Rightarrow>
     bindR (head_type p) (\<lambda>t.
     bindR (head_content p) (\<lambda>str.
     case execute E conn
            (insert_offline_sql (sint from_id) (sint to_id) (uint t) str timestamp
               (uint frame_id) (timestamp + 10)) w of
       (SQLException, w) \<Rightarrow> Ret (False, w)
     | (Rows _, w) \<Rightarrow> Ret (True, w)))))))"

text \<open>The key of a message in \<open>message_cache\<close>.\<close>

definition cache_key :: "u32 \<Rightarrow> u32 \<Rightarrow> u16 \<Rightarrow> cond list" where
  "cache_key from_id to_id frame_id =
     [(From_user, Eq, VInt (sint from_id)), (To_user, Eq, VInt (sint to_id)),
      (Frame_id, Eq, VInt (uint frame_id))]"

definition DeleteOfflineMessage ::
  "'s environment \<Rightarrow> conn \<Rightarrow> u32 \<Rightarrow> u32 \<Rightarrow> u16 \<Rightarrow> 's world \<Rightarrow> bool \<times> 's world" where
  "DeleteOfflineMessage E conn from_id to_id frame_id w =
     (case execute E conn (Delete Message_cache (cache_key from_id to_id frame_id)) w of
        (SQLException, w) \<Rightarrow> (False, w)
      | (Rows _, w) \<Rightarrow> (True, w))"

definition UpdateOfflineMessage ::
  "'s environment \<Rightarrow> conn \<Rightarrow> u32 \<Rightarrow> u32 \<Rightarrow> u16 \<Rightarrow> i32 \<Rightarrow> time_t \<Rightarrow> 's world \<Rightarrow> 's world" where
  "UpdateOfflineMessage E conn from_id to_id frame_id retry_num timestamp w =
     snd (execute E conn
            (Update Message_cache [(Retry_num, VInt retry_num), (Retry_time, VTime timestamp)]
               (cache_key from_id to_id frame_id)) w)"

definition IsExistUser ::
  "'s environment \<Rightarrow> conn \<Rightarrow> u32 \<Rightarrow> 's world \<Rightarrow> bool \<times> 's world" where
  "IsExistUser E conn user_id w =
     (case execute E conn (SelectAll User_info [(Id, Eq, VInt (sint user_id))]) w of
        (SQLException, w) \<Rightarrow> (False, w)
      | (Rows rs, w) \<Rightarrow> (rs \<noteq> [], w))"

text \<open>
  A row of \<open>message_cache\<close> as a \<open>MessageItem\<close>: the getters in the source's order. \<open>None\<close> is
  an \<open>SQLException\<close> from one of them. The conversions from \<open>int\<close> to the unsigned fields
  keep the low bits, \<open>std::string(const char *)\<close> stops at the first zero.
\<close>

definition row_item :: "row \<Rightarrow> MessageItem option res" where
  "row_item r =
     (case rs_int r 1 of None \<Rightarrow> Ret None | Some dst \<Rightarrow>
      case rs_int r 2 of None \<Rightarrow> Ret None | Some src \<Rightarrow>
      case rs_int r 3 of None \<Rightarrow> Ret None | Some f \<Rightarrow>
      case rs_int r 4 of None \<Rightarrow> Ret None | Some t \<Rightarrow>
      case rs_string r 5 of None \<Rightarrow> Ret None
      | Some None \<Rightarrow> Fault NullPointer
      | Some (Some str) \<Rightarrow>
          Ret (Some \<lparr>msg_to_id = word_of_int dst, msg_from_id = word_of_int src,
                     msg_frame_id = word_of_int f, msg_type = word_of_int t, msg_retain = 0,
                     msg_content = cut_nul str\<rparr>))"

definition incr_i32 :: "i32 \<Rightarrow> i32 res" where
  "incr_i32 n = (if n < 0x7FFFFFFF then Ret (n + 1) else Fault SignedOverflow)"

definition select_retry_sql :: "i32 \<Rightarrow> time_t \<Rightarrow> sql" where
  "select_retry_sql max_retry_num now =
     Select [To_user, From_user, Frame_id, Type, Text, Retry_num] Message_cache
       [(Retry_num, Lt, VInt max_retry_num), (Retry_time, Le, VTime now)]"

definition update_retry_sql :: "i32 \<Rightarrow> time_t \<Rightarrow> MessageItem \<Rightarrow> sql" where
  "update_retry_sql n t m =
     Update Message_cache [(Retry_num, VInt n), (Retry_time, VTime t)]
       [(To_user, Eq, VInt (sint (msg_to_id m))), (From_user, Eq, VInt (sint (msg_from_id m))),
        (Frame_id, Eq, VInt (uint (msg_frame_id m)))]"

text \<open>
  The loop over the selected rows: a message joins the output, then its row is updated. An
  exception ends the loop; the messages of the rows read so far stay in the output.
\<close>

fun retry_loop ::
  "'s environment \<Rightarrow> conn \<Rightarrow> time_t \<Rightarrow> time_t \<Rightarrow> row list \<Rightarrow> MessageItem list \<Rightarrow> 's world \<Rightarrow>
   (MessageItem list \<times> 's world) res" where
  "retry_loop E conn now interval [] messages w = Ret (messages, w)"
| "retry_loop E conn now interval (r # rs) messages w =
     bindR (row_item r) (\<lambda>item.
     case item of None \<Rightarrow> Ret (messages, w)
     | Some message \<Rightarrow>
     (case rs_int r 6 of None \<Rightarrow> Ret (messages, w)
      | Some n \<Rightarrow>
     bindR (incr_i32 n) (\<lambda>retry_num.
     let messages = messages @ [message] in
     case execute E conn (update_retry_sql retry_num (now + retry_num * interval) message) w of
       (SQLException, w) \<Rightarrow> Ret (messages, w)
     | (Rows _, w) \<Rightarrow> retry_loop E conn now interval rs messages w)))"

definition GetAllOfflineMessage ::
  "'s environment \<Rightarrow> conn \<Rightarrow> i32 \<Rightarrow> time_t \<Rightarrow> MessageItem list \<Rightarrow> 's world \<Rightarrow>
   (MessageItem list \<times> 's world) res" where
  "GetAllOfflineMessage E conn max_retry_num retry_interval messages w =
     (case time_NULL E w of (cur_timestamp, w) \<Rightarrow>
      case execute E conn (select_retry_sql max_retry_num cur_timestamp) w of
        (SQLException, w) \<Rightarrow> Ret (messages, w)
      | (Rows rs, w) \<Rightarrow> retry_loop E conn cur_timestamp retry_interval rs messages w)"

text \<open>
  \<open>GetOfflineMessage\<close> writes through its reference arguments only when a row comes back, and
  returns \<open>true\<close> either way; the model returns them beside the flag. The fields are set one
  by one, so an exception leaves the earlier ones written, but then the flag is false.
\<close>

definition select_offline_sql :: "u32 \<Rightarrow> u32 \<Rightarrow> u16 \<Rightarrow> sql" where
  "select_offline_sql from_id to_id frame_id =
     Select [To_user, From_user, Frame_id, Type, Text, Recv_time] Message_cache
       (cache_key from_id to_id frame_id)"

definition GetOfflineMessage ::
  "'s environment \<Rightarrow> conn \<Rightarrow> u32 \<Rightarrow> u32 \<Rightarrow> u16 \<Rightarrow> MessageItem \<times> time_t \<Rightarrow> 's world \<Rightarrow>
   (bool \<times> (MessageItem \<times> time_t) \<times> 's world) res" where
  "GetOfflineMessage E conn from_id to_id frame_id out w =
     (case execute E conn (select_offline_sql from_id to_id frame_id) w of
        (SQLException, w) \<Rightarrow> Ret (False, out, w)
      | (Rows [], w) \<Rightarrow> Ret (True, out, w)
      | (Rows (r # _), w) \<Rightarrow>
          bindR (row_item r) (\<lambda>item.
          case item of None \<Rightarrow> Ret (False, out, w)
          | Some msg \<Rightarrow>
              (case rs_timestamp r 6 of
                 None \<Rightarrow> Ret (False, (msg, snd out), w)
               | Some t \<Rightarrow> Ret (True, (msg, t), w))))"

section \<open>The statements are those of the source\<close>

lemma sql_texts:
  "sql_text (insert_store_sql a b c d e f g) =
     ''INSERT INTO message_store(from_user, to_user, text, recv_time, send_time, frame_id, type) VALUES(?, ?, ?, ?, ?, ?, ?)''"
  "sql_text (insert_store_item_sql m rt st) =
     ''INSERT INTO message_store(from_user, to_user, type, text, recv_time, send_time, frame_id) VALUES(?, ?, ?, ?, ?, ?, ?)''"
  "sql_text (insert_offline_sql a b g c d f h) =
     ''INSERT INTO message_cache(from_user, to_user, type, text, recv_time, frame_id, retry_time) VALUES(?, ?, ?, ?, ?, ?, ?)''"
  "sql_text (Delete Message_cache (cache_key x y z)) =
     ''DELETE FROM message_cache WHERE from_user = ? AND to_user = ? AND frame_id = ?''"
  "sql_text (select_retry_sql n t) =
     ''SELECT to_user, from_user, frame_id, type, text, retry_num FROM message_cache WHERE retry_num < ? AND retry_time <= ?''"
  "sql_text (select_offline_sql x y z) =
     ''SELECT to_user, from_user, frame_id, type, text, recv_time FROM message_cache WHERE from_user = ? AND to_user = ? AND frame_id = ?''"
  by (simp_all add: insert_store_sql_def insert_store_item_sql_def insert_offline_sql_def
      cache_key_def select_retry_sql_def select_offline_sql_def where_text_def)

section \<open>The calls each operation makes\<close>

text \<open>
  For each member function, the events it appends to the trace, with the statement it issues
  and whether that statement succeeded. The theorems about the handlers rest on these facts
  and on nothing else about the database.
\<close>

lemma GetConnection_loop_trace:
  "GetConnection_loop E count w = Some (conn, w') \<Longrightarrow> 0 < count \<Longrightarrow>
     \<exists>k c. conn = Some c \<and> trace w' = trace w @ replicate k (Got None) @ [Got (Some c)]"
proof -
  assume ret: "GetConnection_loop E count w = Some (conn, w')" and pos: "0 < count"
  have "case (conn, w') of (conn, w') \<Rightarrow> 0 < count \<longrightarrow>
     (\<exists>k c. conn = Some c \<and> trace w' = trace w @ replicate k (Got None) @ [Got (Some c)])"
  proof (rule GetConnection_loop.raw_induct [where P = "\<lambda>E count w r. case r of (conn, w') \<Rightarrow> 0 < count \<longrightarrow>
     (\<exists>k c. conn = Some c \<and> trace w' = trace w @ replicate k (Got None) @ [Got (Some c)])", OF _ ret])
    fix f :: "'a environment \<Rightarrow> int \<Rightarrow> 'a world \<Rightarrow> (conn option \<times> 'a world) option"
      and E count w r
    assume IH: "\<And>E count w r. f E count w = Some r \<Longrightarrow> case r of (conn, w') \<Rightarrow> 0 < count \<longrightarrow>
       (\<exists>k c. conn = Some c \<and> trace w' = trace w @ replicate k (Got None) @ [Got (Some c)])"
      and eq: "(if 0 < count then case ConnectionPool_getConnection E w of
             (Some c, w') \<Rightarrow> Some (Some c, w') | (None, w') \<Rightarrow> f E count w'
           else Some (None, w)) = Some r"
    show "case r of (conn, w') \<Rightarrow> 0 < count \<longrightarrow>
       (\<exists>k c. conn = Some c \<and> trace w' = trace w @ replicate k (Got None) @ [Got (Some c)])"
    proof (clarify)
      fix conn w' assume r: "r = (conn, w')" and pos: "0 < count"
      obtain c1 w1 where step: "ConnectionPool_getConnection E w = (c1, w1)" by fastforce
      note tr = trace_calls(4) [OF step]
      show "\<exists>k c. conn = Some c \<and> trace w' = trace w @ replicate k (Got None) @ [Got (Some c)]"
      proof (cases c1)
        case None
        with eq pos step r have "f E count w1 = Some (conn, w')" by simp
        from IH [OF this] pos obtain k c where "conn = Some c"
          "trace w' = trace w1 @ replicate k (Got None) @ [Got (Some c)]" by auto
        with tr None have "conn = Some c \<and>
            trace w' = trace w @ replicate (Suc k) (Got None) @ [Got (Some c)]" by simp
        then show ?thesis by blast
      next
        case (Some c)
        with eq pos step r tr have "conn = Some c \<and>
            trace w' = trace w @ replicate 0 (Got None) @ [Got (Some c)]" by auto
        then show ?thesis by blast
      qed
    qed
  qed
  with pos show ?thesis by simp
qed

lemma GetConnection_trace:
  assumes "GetConnection E w = Ret (conn, w')"
  obtains k c where "conn = Some c"
    and "trace w' = trace w @ replicate k (Got None) @ [Got (Some c)]"
  using assms GetConnection_loop_trace [of E 3 w conn w']
  by (auto simp: GetConnection_def split: option.splits)

lemma GetConnection_now:
  "ConnectionPool_getConnection E w = (Some c, w') \<Longrightarrow> GetConnection E w = Ret (Some c, w')"
  by (simp add: GetConnection_def GetConnection_loop.simps)

lemma GetConnection_retry:
  "ConnectionPool_getConnection E w = (None, w') \<Longrightarrow> GetConnection E w = GetConnection E w'"
  by (simp add: GetConnection_def GetConnection_loop.simps [of E 3 w])

text \<open>One lemma for every function that runs one statement and branches on the answer.\<close>

lemma execute_cases:
  obtains (exception) w' where "execute E c q w = (SQLException, w')" "trace w' = trace w @ [Sql c q False]"
  | (rows) rs w' where "execute E c q w = (Rows rs, w')" "trace w' = trace w @ [Sql c q True]"
proof -
  obtain a w' where e: "execute E c q w = (a, w')" by fastforce
  show thesis
  proof (cases a)
    case (Rows rs)
    with e show thesis using trace_calls(5) [OF e] that(2) by simp
  next
    case SQLException
    with e show thesis using trace_calls(5) [OF e] that(1) by simp
  qed
qed

lemma UpdateSateCover_trace:
  assumes "UpdateSateCover E conn u sate w = Ret (ok, w')"
  obtains temp where
    "fill_snr (sates_param sate) [0..<unat (sat_cover_num sate)]
       (replicate MAX_BEAM_NUM f32_minus_one) = Ret temp"
    and "trace w' = trace w @ [Sql conn (update_cover_sql u temp) ok]"
proof -
  from assms obtain temp where fill: "fill_snr (sates_param sate) [0..<unat (sat_cover_num sate)]
       (replicate MAX_BEAM_NUM f32_minus_one) = Ret temp"
    and "(case execute E conn (update_cover_sql u temp) w of
       (SQLException, w) \<Rightarrow> Ret (False, w) | (Rows _, w) \<Rightarrow> Ret (True, w)) = Ret (ok, w')"
    unfolding UpdateSateCover_def by (rule bindR_RetE)
  then have "trace w' = trace w @ [Sql conn (update_cover_sql u temp) ok]"
    by (cases rule: execute_cases [of E conn "update_cover_sql u temp" w]) auto
  with fill show thesis by (rule that)
qed

lemma GetSateCover_trace:
  assumes "GetSateCover E conn u w = Ret (sates, w')"
  obtains b where "trace w' = trace w @ [Sql conn (select_cover_sql u) b]"
  using assms
  by (cases rule: execute_cases [of E conn "select_cover_sql u" w])
    (auto simp: GetSateCover_def bindR_eq_Ret_iff split: list.splits)

lemma GetOfflineMessageNum_trace:
  assumes "GetOfflineMessageNum E conn u w = (n, w')"
  obtains b where
    "trace w' = trace w @ [Sql conn (SelectCount Message_cache [(To_user, Eq, VInt (sint u))]) b]"
  using assms
  by (cases rule: execute_cases [of E conn "SelectCount Message_cache [(To_user, Eq, VInt (sint u))]" w])
    (auto simp: GetOfflineMessageNum_def split: list.splits option.splits)

lemma IsExistUser_trace:
  assumes "IsExistUser E conn u w = (ok, w')"
  obtains b where "trace w' = trace w @ [Sql conn (SelectAll User_info [(Id, Eq, VInt (sint u))]) b]"
    and "ok \<longrightarrow> b"
  using assms
  by (cases rule: execute_cases [of E conn "SelectAll User_info [(Id, Eq, VInt (sint u))]" w])
    (auto simp: IsExistUser_def)

lemma InsertStoreMessage_trace:
  assumes "InsertStoreMessage E conn (Some p) w = Ret (ok, w')"
  obtains dst src f str ty t where "head_to_id p = Ret dst" and "head_from_id p = Ret src"
    and "head_frame_id p = Ret f" and "head_content p = Ret str" and "head_type p = Ret ty"
    and "trace w' = trace w @ [Clock t, Sql conn (insert_store_sql (sint (ntohl src))
           (sint (ntohl dst)) str t t (uint (ntohs f)) (uint ty)) ok]"
proof -
  obtain t w1 where t: "time_NULL E w = (t, w1)" by fastforce
  from assms t obtain dst src f str ty where h: "head_to_id p = Ret dst" "head_from_id p = Ret src"
      "head_frame_id p = Ret f" "head_content p = Ret str" "head_type p = Ret ty"
    by (auto simp: InsertStoreMessage_def bindR_eq_Ret_iff Let_def)
  let ?q = "insert_store_sql (sint (ntohl src)) (sint (ntohl dst)) str t t (uint (ntohs f)) (uint ty)"
  have "trace w' = trace w1 @ [Sql conn ?q ok]"
    using assms h t
    by (cases rule: execute_cases [of E conn ?q w1]) (auto simp: InsertStoreMessage_def)
  with trace_calls(6) [OF t] h show thesis by (intro that) auto
qed

lemma InsertOfflineMessage_trace:
  assumes "InsertOfflineMessage E conn (Some p) w = Ret (ok, w')"
  obtains dst src f str ty t where "head_to_id p = Ret dst" and "head_from_id p = Ret src"
    and "head_frame_id p = Ret f" and "head_content p = Ret str" and "head_type p = Ret ty"
    and "trace w' = trace w @ [Clock t, Sql conn (insert_offline_sql (sint (ntohl src))
           (sint (ntohl dst)) (uint ty) str t (uint (ntohs f)) (t + 10)) ok]"
proof -
  obtain t w1 where t: "time_NULL E w = (t, w1)" by fastforce
  from assms t obtain dst src f str ty where h: "head_to_id p = Ret dst" "head_from_id p = Ret src"
      "head_frame_id p = Ret f" "head_content p = Ret str" "head_type p = Ret ty"
    by (auto simp: InsertOfflineMessage_def bindR_eq_Ret_iff Let_def)
  let ?q = "insert_offline_sql (sint (ntohl src)) (sint (ntohl dst)) (uint ty) str t
    (uint (ntohs f)) (t + 10)"
  have "trace w' = trace w1 @ [Sql conn ?q ok]"
    using assms h t
    by (cases rule: execute_cases [of E conn ?q w1]) (auto simp: InsertOfflineMessage_def)
  with trace_calls(6) [OF t] h show thesis by (intro that) auto
qed

lemma InsertStoreMessage_item_trace:
  assumes "InsertStoreMessage_item E conn msg rt w = (ok, w')"
  obtains t where "trace w' = trace w @ [Clock t, Sql conn (insert_store_item_sql msg rt t) ok]"
proof -
  obtain t w1 where t: "time_NULL E w = (t, w1)" by fastforce
  have "trace w' = trace w1 @ [Sql conn (insert_store_item_sql msg rt t) ok]"
    using assms t
    by (cases rule: execute_cases [of E conn "insert_store_item_sql msg rt t" w1])
      (auto simp: InsertStoreMessage_item_def)
  with trace_calls(6) [OF t] show thesis by (intro that) auto
qed

lemma DeleteOfflineMessage_trace:
  "DeleteOfflineMessage E conn a b f w = (ok, w') \<Longrightarrow>
     trace w' = trace w @ [Sql conn (Delete Message_cache (cache_key a b f)) ok]"
  by (cases rule: execute_cases [of E conn "Delete Message_cache (cache_key a b f)" w])
    (auto simp: DeleteOfflineMessage_def)

lemma UpdateOfflineMessage_trace:
  "\<exists>ok. trace (UpdateOfflineMessage E conn a b f n t w) = trace w @
     [Sql conn (Update Message_cache [(Retry_num, VInt n), (Retry_time, VTime t)] (cache_key a b f)) ok]"
  by (cases rule: execute_cases [of E conn
        "Update Message_cache [(Retry_num, VInt n), (Retry_time, VTime t)] (cache_key a b f)" w])
    (auto simp: UpdateOfflineMessage_def)

lemma GetOfflineMessage_trace:
  assumes "GetOfflineMessage E conn a b f out w = Ret (found, out', w')"
  obtains ok where "trace w' = trace w @ [Sql conn (select_offline_sql a b f) ok]" and "found \<longrightarrow> ok"
  using assms
  by (cases rule: execute_cases [of E conn "select_offline_sql a b f" w])
    (auto simp: GetOfflineMessage_def bindR_eq_Ret_iff split: list.splits option.splits)

text \<open>
  The updates of the retry loop: one per message put in the output, in the order of the rows,
  each raising the counter of its row by one; only the last can have failed.
\<close>

definition retry_event :: "conn \<Rightarrow> time_t \<Rightarrow> time_t \<Rightarrow> MessageItem \<times> i32 \<Rightarrow> bool \<Rightarrow> event" where
  "retry_event conn now interval mn ok =
     Sql conn (update_retry_sql (snd mn + 1) (now + (snd mn + 1) * interval) (fst mn)) ok"

lemma retry_loop_trace:
  "retry_loop E conn now interval rs messages w = Ret (messages', w') \<Longrightarrow>
   \<exists>mns oks. messages' = messages @ map fst mns \<and> length oks = length mns \<and>
     (\<forall>i < length mns. row_item (rs ! i) = Ret (Some (fst (mns ! i))) \<and> rs_int (rs ! i) 6 = Some (snd (mns ! i))) \<and>
     length mns \<le> length rs \<and> (\<forall>i. Suc i < length oks \<longrightarrow> oks ! i) \<and>
     trace w' = trace w @ map2 (retry_event conn now interval) mns oks"
proof (induction rs arbitrary: messages w)
  case Nil
  then show ?case by auto
next
  case (Cons r rs)
  from Cons.prems obtain item where item: "row_item r = Ret item"
    by (auto simp: bindR_eq_Ret_iff)
  show ?case
  proof (cases "item = None \<or> rs_int r 6 = None")
    case True
    with Cons.prems item have "messages' = messages \<and> w' = w" by (auto split: option.splits)
    then show ?thesis by (intro exI [of _ "[]"]) simp
  next
    case False
    then obtain m n where m: "item = Some m" "rs_int r 6 = Some n" by auto
    with Cons.prems item have inc: "incr_i32 n = Ret (n + 1)"
      by (auto simp: incr_i32_def bindR_eq_Ret_iff split: if_splits)
    let ?q = "update_retry_sql (n + 1) (now + (n + 1) * interval) m"
    show ?thesis
    proof (cases rule: execute_cases [of E conn ?q w])
      case (exception w1)
      with Cons.prems item m inc have "messages' = messages @ [m]" "w' = w1" by auto
      with exception item m show ?thesis
        by (intro exI [of _ "[(m, n)]"] exI [of _ "[False]"]) (simp add: retry_event_def)
    next
      case (rows as w1)
      with Cons.prems item m inc
      have "retry_loop E conn now interval rs (messages @ [m]) w1 = Ret (messages', w')" by simp
      from Cons.IH [OF this] obtain mns oks where ih: "messages' = (messages @ [m]) @ map fst mns"
        "length oks = length mns"
        "\<forall>i < length mns. row_item (rs ! i) = Ret (Some (fst (mns ! i))) \<and> rs_int (rs ! i) 6 = Some (snd (mns ! i))"
        "length mns \<le> length rs" "\<forall>i. Suc i < length oks \<longrightarrow> oks ! i"
        "trace w' = trace w1 @ map2 (retry_event conn now interval) mns oks" by blast
      then show ?thesis using rows item m
        by (intro exI [of _ "(m, n) # mns"] exI [of _ "True # oks"])
          (auto simp: retry_event_def nth_Cons split: nat.splits)
    qed
  qed
qed

section \<open>Rules for working through a handler\<close>

text \<open>The attempts to get a connection: failures, then the connection.\<close>

definition acquired :: "conn \<Rightarrow> event list \<Rightarrow> bool" where
  "acquired c es \<longleftrightarrow> (\<exists>k. es = replicate k (Got None) @ [Got (Some c)])"

lemma emits_GetConnection [emits_rules]:
  assumes "\<And>c got w1. GetConnection E w = Ret (Some c, w1) \<Longrightarrow> acquired c got \<Longrightarrow>
      emits (f (Some c, w1)) w1 (\<lambda>es. Q (got @ es))"
  shows "emits (bindR (GetConnection E w) f) w Q"
proof (rule emits_bind, clarify)
  fix conn w1 assume g: "GetConnection E w = Ret (conn, w1)"
  then obtain c got where "conn = Some c" "acquired c got" "trace w1 = trace w @ got"
    by (metis GetConnection_trace acquired_def)
  with assms g show "emits (f (conn, w1)) w Q" by (metis emits_step)
qed

lemma emits_UpdateSateCover [emits_rules]:
  assumes "\<And>temp ok w1. fill_snr (sates_param sate) [0..<unat (sat_cover_num sate)]
        (replicate MAX_BEAM_NUM f32_minus_one) = Ret temp \<Longrightarrow>
      UpdateSateCover E c u sate w = Ret (ok, w1) \<Longrightarrow>
      emits (f (ok, w1)) w1 (\<lambda>es. Q ([Sql c (update_cover_sql u temp) ok] @ es))"
  shows "emits (bindR (UpdateSateCover E c u sate w) f) w Q"
proof (rule emits_bind, clarify)
  fix ok w1 assume "UpdateSateCover E c u sate w = Ret (ok, w1)"
  with this show "emits (f (ok, w1)) w Q" by (metis UpdateSateCover_trace emits_step assms)
qed

lemma emits_GetSateCover [emits_rules]:
  assumes "\<And>sates b w1. GetSateCover E c u w = Ret (sates, w1) \<Longrightarrow>
      emits (f (sates, w1)) w1 (\<lambda>es. Q ([Sql c (select_cover_sql u) b] @ es))"
  shows "emits (bindR (GetSateCover E c u w) f) w Q"
proof (rule emits_bind, clarify)
  fix sates w1 assume g: "GetSateCover E c u w = Ret (sates, w1)"
  then show "emits (f (sates, w1)) w Q" by (metis GetSateCover_trace emits_step assms)
qed

lemma emits_IsExistUser [emits_rules]:
  assumes "\<And>ok b w1. (ok \<longrightarrow> b) \<Longrightarrow> IsExistUser E c u w = (ok, w1) \<Longrightarrow>
      emits (f ok w1) w1 (\<lambda>es. Q ([Sql c (SelectAll User_info [(Id, Eq, VInt (sint u))]) b] @ es))"
  shows "emits (case IsExistUser E c u w of (ok, w1) \<Rightarrow> f ok w1) w Q"
proof -
  obtain ok w1 where i: "IsExistUser E c u w = (ok, w1)" by fastforce
  then show ?thesis by (metis IsExistUser_trace emits_step assms case_prod_conv)
qed

lemma emits_GetOfflineMessageNum [emits_rules]:
  assumes "\<And>n b w1. GetOfflineMessageNum E c u w = (n, w1) \<Longrightarrow> emits (f n w1) w1
      (\<lambda>es. Q ([Sql c (SelectCount Message_cache [(To_user, Eq, VInt (sint u))]) b] @ es))"
  shows "emits (case GetOfflineMessageNum E c u w of (n, w1) \<Rightarrow> f n w1) w Q"
proof -
  obtain n w1 where i: "GetOfflineMessageNum E c u w = (n, w1)" by fastforce
  then show ?thesis by (metis GetOfflineMessageNum_trace emits_step assms case_prod_conv)
qed

lemma emits_GetOfflineMessage [emits_rules]:
  assumes "\<And>found msg t b w1. GetOfflineMessage E c x y z junk w = Ret (found, (msg, t), w1) \<Longrightarrow>
      (found \<longrightarrow> b) \<Longrightarrow>
      emits (f found msg t w1) w1 (\<lambda>es. Q ([Sql c (select_offline_sql x y z) b] @ es))"
  shows "emits (bindR (GetOfflineMessage E c x y z junk w) (\<lambda>(found, (msg, t), w1). f found msg t w1)) w Q"
proof (rule emits_bind, clarify)
  fix found m t w1 assume "GetOfflineMessage E c x y z junk w = Ret (found, (m, t), w1)"
  then show "emits (f found m t w1) w Q"
    by (metis GetOfflineMessage_trace emits_step assms)
qed

lemma emits_DeleteOfflineMessage [emits_rules]:
  assumes "\<And>ok w1. emits (f ok w1) w1 (\<lambda>es. Q ([Sql c (Delete Message_cache (cache_key x y z)) ok] @ es))"
  shows "emits (case DeleteOfflineMessage E c x y z w of (ok, w1) \<Rightarrow> f ok w1) w Q"
proof -
  obtain ok w1 where "DeleteOfflineMessage E c x y z w = (ok, w1)" by fastforce
  then show ?thesis by (metis DeleteOfflineMessage_trace emits_step assms case_prod_conv)
qed

lemma emits_InsertStoreMessage_item [emits_rules]:
  assumes "\<And>t ok w1. emits (f ok w1) w1
      (\<lambda>es. Q ([Clock t, Sql c (insert_store_item_sql msg rt t) ok] @ es))"
  shows "emits (case InsertStoreMessage_item E c msg rt w of (ok, w1) \<Rightarrow> f ok w1) w Q"
proof -
  obtain ok w1 where "InsertStoreMessage_item E c msg rt w = (ok, w1)" by fastforce
  then show ?thesis by (metis InsertStoreMessage_item_trace emits_step assms case_prod_conv)
qed

end
