(* ===== verification/SqlServer.thy ===== *)
theory SqlServer
  imports Database
begin

text \<open>
  What the program relies on in the database server: a statement that raises changes nothing,
  one that succeeds has the effect and the answer SQL gives it. The locale \<open>sql_server\<close>
  states this of an environment, for a view \<open>db\<close> of the tables in its state, columns an
  \<open>INSERT\<close> leaves out filled from \<open>dflt\<close>, and a reading \<open>lit\<close> of numeric literals as
  doubles. There is one client: nothing else writes between two calls. \<open>memory_env\<close> is an
  environment that keeps its tables in memory; it satisfies the laws, and the witnesses of
  the development run on it.
\<close>

section \<open>Tables\<close>

type_synonym record_row = "(column \<times> sql_val) list"
type_synonym tables = "table \<Rightarrow> record_row list"

definition digit_value :: "char \<Rightarrow> int" where
  "digit_value c = int (of_char c) - 48"

definition lit_int :: "string \<Rightarrow> int option" where
  "lit_int s =
     (if s \<noteq> [] \<and> list_all (\<lambda>c. 48 \<le> (of_char c :: nat) \<and> (of_char c :: nat) \<le> 57) s
      then Some (fold (\<lambda>c n. 10 * n + digit_value c) s 0) else None)"

fun as_int :: "sql_val \<Rightarrow> int option" where
  "as_int (VInt n) = Some n"
| "as_int (VTime t) = Some t"
| "as_int (VLit s) = lit_int s"
| "as_int (VStr s) = None"

fun cmp_holds :: "cmp \<Rightarrow> int \<Rightarrow> int \<Rightarrow> bool" where
  "cmp_holds Eq a b = (a = b)"
| "cmp_holds Lt a b = (a < b)"
| "cmp_holds Le a b = (a \<le> b)"

fun cond_holds :: "record_row \<Rightarrow> cond \<Rightarrow> bool" where
  "cond_holds r (c, op, v) =
     (case map_of r c of None \<Rightarrow> False
      | Some x \<Rightarrow> (case as_int x of None \<Rightarrow> False
      | Some a \<Rightarrow> (case as_int v of None \<Rightarrow> False | Some b \<Rightarrow> cmp_holds op a b)))"

definition matches :: "cond list \<Rightarrow> record_row \<Rightarrow> bool" where
  "matches cs r = list_all (cond_holds r) cs"

definition assign :: "(column \<times> sql_val) list \<Rightarrow> record_row \<Rightarrow> record_row" where
  "assign cvs r = map (\<lambda>(c, v). (c, case map_of cvs c of Some v' \<Rightarrow> v' | None \<Rightarrow> v)) r"

definition complete_row :: "record_row \<Rightarrow> record_row \<Rightarrow> record_row" where
  "complete_row defaults cvs = cvs @ filter (\<lambda>(c, v). c \<notin> set (map fst cvs)) defaults"

fun effect :: "(table \<Rightarrow> record_row) \<Rightarrow> sql \<Rightarrow> tables \<Rightarrow> tables" where
  "effect dflt (Insert t cvs) db = db(t := db t @ [complete_row (dflt t) cvs])"
| "effect dflt (Update t cvs cs) db =
     db(t := map (\<lambda>r. if matches cs r then assign cvs r else r) (db t))"
| "effect dflt (Delete t cs) db = db(t := filter (\<lambda>r. \<not> matches cs r) (db t))"
| "effect dflt (Select cols t cs) db = db"
| "effect dflt (SelectAll t cs) db = db"
| "effect dflt (SelectCount t cs) db = db"

section \<open>Answers\<close>

text \<open>The getters of a row of values, by position from 1.\<close>

definition row_of :: "(string \<Rightarrow> f64) \<Rightarrow> sql_val list \<Rightarrow> row" where
  "row_of lit vs =
     \<lparr>rs_int = \<lambda>k. if 1 \<le> k \<and> k \<le> length vs then as_int (vs ! (k - 1)) else None,
      rs_string = \<lambda>k. if 1 \<le> k \<and> k \<le> length vs
        then (case vs ! (k - 1) of VStr s \<Rightarrow> Some (Some s) | _ \<Rightarrow> None) else None,
      rs_double = \<lambda>k. if 1 \<le> k \<and> k \<le> length vs
        then (case vs ! (k - 1) of VLit s \<Rightarrow> Some (lit s) | _ \<Rightarrow> None) else None,
      rs_timestamp = \<lambda>k. if 1 \<le> k \<and> k \<le> length vs
        then (case vs ! (k - 1) of VTime t \<Rightarrow> Some t | _ \<Rightarrow> None) else None\<rparr>"

definition column_of :: "record_row \<Rightarrow> column \<Rightarrow> sql_val" where
  "column_of r c = (case map_of r c of Some v \<Rightarrow> v | None \<Rightarrow> VStr [])"

fun result_of :: "(string \<Rightarrow> f64) \<Rightarrow> sql \<Rightarrow> tables \<Rightarrow> row list" where
  "result_of lit (Select cols t cs) db =
     map (\<lambda>r. row_of lit (map (column_of r) cols)) (filter (matches cs) (db t))"
| "result_of lit (SelectAll t cs) db =
     map (\<lambda>r. row_of lit (map snd r)) (filter (matches cs) (db t))"
| "result_of lit (SelectCount t cs) db =
     [row_of lit [VInt (int (length (filter (matches cs) (db t))))]]"
| "result_of lit _ db = []"

section \<open>The laws\<close>

locale sql_server =
  fixes E :: "'s environment" and db :: "'s \<Rightarrow> tables"
    and dflt :: "table \<Rightarrow> record_row" and lit :: "string \<Rightarrow> f64"
  assumes exec: "execute_sql E c q s = (a, s') \<Longrightarrow>
        a = SQLException \<and> db s' = db s \<or>
        a = Rows (result_of lit q (db s)) \<and> db s' = effect dflt q (db s)"
    and pool_db: "db (snd (pool_getConnection E s)) = db s"
    and close_db: "db (connection_close E c s) = db s"
    and clear_db: "db (connection_clear E c s) = db s"
    and clock_db: "db (snd (time_now E s)) = db s"
    and rpc_db: "db (snd (rpc E ad m s)) = db s"
    and sleep_db: "db (sleep_for E n s) = db s"
begin

lemma execute_db:
  assumes "execute E c q w = (a, w')"
  obtains (raised) "a = SQLException" and "db (ext w') = db (ext w)"
  | (answered) "a = Rows (result_of lit q (db (ext w)))" and "db (ext w') = effect dflt q (db (ext w))"
proof -
  obtain s' where s': "execute_sql E c q (ext w) = (a, s')" "ext w' = s'"
    using assms by (auto simp: execute_def split: prod.splits)
  from exec [OF s'(1)] s'(2) show thesis by (auto intro: that)
qed

lemma calls_db:
  "ConnectionPool_getConnection E w = (c', w') \<Longrightarrow> db (ext w') = db (ext w)"
  "db (ext (Connection_close E c w)) = db (ext w)"
  "db (ext (Connection_clear E c w)) = db (ext w)"
  "time_NULL E w = (t, w') \<Longrightarrow> db (ext w') = db (ext w)"
  "call_rpc E ad m w = (ok, w') \<Longrightarrow> db (ext w') = db (ext w)"
  "db (ext (sleep E n w)) = db (ext w)"
  using pool_db close_db clear_db clock_db rpc_db sleep_db
  by (auto simp: call_defs split: prod.splits) (metis snd_conv)+

end

section \<open>An environment in memory\<close>

record memory =
  mem_tables :: tables
  mem_clock :: time_t
  mem_pool :: "conn list"
  mem_down :: nat  \<comment> \<open>how many requests for a connection fail first\<close>

definition default_row :: "table \<Rightarrow> record_row" where
  "default_row t = (if t = Message_cache then [(Retry_num, VInt 0)] else [])"

definition memory_env :: "(string \<Rightarrow> f64) \<Rightarrow> (Address \<Rightarrow> bool) \<Rightarrow> memory environment" where
  "memory_env lit reachable =
     \<lparr>pool_getConnection = \<lambda>s.
        (if 0 < mem_down s then (None, s\<lparr>mem_down := mem_down s - 1\<rparr>)
         else case mem_pool s of [] \<Rightarrow> (None, s) | c # cs \<Rightarrow> (Some c, s\<lparr>mem_pool := cs\<rparr>)),
      connection_close = \<lambda>c s. s\<lparr>mem_pool := c # mem_pool s\<rparr>,
      connection_clear = \<lambda>c s. s,
      execute_sql = \<lambda>c q s. (Rows (result_of lit q (mem_tables s)),
        s\<lparr>mem_tables := effect default_row q (mem_tables s)\<rparr>),
      time_now = \<lambda>s. (mem_clock s, s),
      rpc = \<lambda>a m s. (reachable a, s),
      sleep_for = \<lambda>n s. s\<lparr>mem_clock := mem_clock s + n\<rparr>\<rparr>"

interpretation memory: sql_server "memory_env lit reachable" mem_tables default_row lit
  for lit reachable
  by unfold_locales (auto simp: memory_env_def split: list.splits)

section \<open>A small server\<close>

text \<open>
  Two users, each in the cover of beam 1 at SNR 12, one connection that is handed out at the
  second attempt, and the access server of beam 1.
\<close>

definition demo_lit :: "string \<Rightarrow> f64" where
  "demo_lit s = (if s = ''12.000000'' then 0x4028000000000000 else 0xBFF0000000000000)"

definition demo_cover :: "int \<Rightarrow> string \<Rightarrow> record_row" where
  "demo_cover user best =
     (User_id, VInt user) # (SNR 1, VLit best) # map (\<lambda>i. (SNR i, VLit ''-1.000000'')) [2..<11]"

definition demo_memory :: memory where
  "demo_memory =
     \<lparr>mem_tables = (\<lambda>t. if t = User_info then [[(Id, VInt 1)], [(Id, VInt 2)]]
        else if t = Sate_cover then [demo_cover 1 ''12.000000'', demo_cover 2 ''12.000000'']
        else []),
      mem_clock = 100, mem_pool = [7], mem_down = 1\<rparr>"

definition demo_env :: "memory environment" where
  "demo_env = memory_env demo_lit (\<lambda>a. True)"

definition demo_world :: "memory world" where
  "demo_world = \<lparr>ext = demo_memory, trace = []\<rparr>"

definition demo_connected :: "memory world" where
  "demo_connected =
     \<lparr>ext = demo_memory\<lparr>mem_pool := [], mem_down := 0\<rparr>,
      trace = [Got None, Got (Some 7)]\<rparr>"
lemma demo_connection: "GetConnection demo_env demo_world = Ret (Some 7, demo_connected)"
  by (simp add: GetConnection_retry GetConnection_now ConnectionPool_getConnection_def
      demo_world_def demo_connected_def demo_env_def memory_env_def demo_memory_def log_event_def)

end
