(* ===== verification/SendHelper.thy ===== *)
theory SendHelper
  imports SqlServer
begin

text \<open>
  \<open>src/workmanager/send_helper.cpp\<close>: the singleton that knows the access server of each beam
  (\<open>schedule_address_\<close>, a \<open>std::map<int32_t, Address>\<close>) and sends a frame through the best
  beam of a terminal. A \<open>libconfig\<close> setting is what its lookups answer: for each address the
  values of its keys, \<open>None\<close> when \<open>lookupValue\<close> returns false.
\<close>

type_synonym schedule = "i32 \<rightharpoonup> Address"

record address_setting =
  set_beamid :: "i32 option"
  set_port :: "i32 option"
  set_ip :: "string option"

text \<open>
  \<open>std::map::insert\<close> keeps an entry that is there already. A missing key ends \<open>Init\<close> with
  \<open>false\<close> and leaves the entries inserted so far.
\<close>

definition map_insert :: "i32 \<Rightarrow> Address \<Rightarrow> schedule \<Rightarrow> schedule" where
  "map_insert k a m = (case m k of None \<Rightarrow> m(k \<mapsto> a) | Some _ \<Rightarrow> m)"

fun SendHelper_Init :: "address_setting list \<Rightarrow> schedule \<Rightarrow> bool \<times> schedule" where
  "SendHelper_Init [] m = (True, m)"
| "SendHelper_Init (addr # rest) m =
     (case set_beamid addr of None \<Rightarrow> (False, m) | Some beam \<Rightarrow>
      case set_port addr of None \<Rightarrow> (False, m) | Some prt \<Rightarrow>
      case set_ip addr of None \<Rightarrow> (False, m) | Some host \<Rightarrow>
        SendHelper_Init rest (map_insert beam \<lparr>addr_ip = host, addr_port = prt\<rparr> m))"

text \<open>The loop of \<open>SendMessage\<close>: \<open>cur_snr\<close>, \<open>cur_sate_id\<close> and \<open>cur_beam_id\<close>.\<close>

type_synonym choice = "f32 \<times> i32 \<times> i32"

fun pick_step :: "schedule \<Rightarrow> SateParam \<Rightarrow> choice \<Rightarrow> choice" where
  "pick_step m s (cur_snr, cur_sate, cur_beam) =
     (if f32_gt (snr s) cur_snr \<and> m (beam_id s) \<noteq> None
      then (snr s, sate_id s, beam_id s) else (cur_snr, cur_sate, cur_beam))"

definition pick_beam :: "schedule \<Rightarrow> SateParam list \<Rightarrow> choice" where
  "pick_beam m sates = fold (pick_step m) sates (f32_minus_one, -1, -1)"

definition access_message :: "u32 \<Rightarrow> bytes \<Rightarrow> i32 \<Rightarrow> i32 \<Rightarrow> i32 \<Rightarrow> AccessMessage" where
  "access_message user_id buf sate beam lvl =
     \<lparr>am_uid = sint user_id, am_sate_id = sate, am_beam_id = beam, am_level = lvl, am_content = buf\<rparr>"

text \<open>
  \<open>schedule_address_[cur_beam_id]\<close> would insert a default \<open>Address\<close>, with its port not
  initialised, for a missing key; \<open>pick_beam_cases\<close> below shows that the key is there.
\<close>

definition schedule_at :: "schedule \<Rightarrow> i32 \<Rightarrow> Address" where
  "schedule_at m k =
     (case m k of Some a \<Rightarrow> a | None \<Rightarrow> \<lparr>addr_ip = '''', addr_port = undefined\<rparr>)"

definition SendMessage ::
  "'s environment \<Rightarrow> schedule \<Rightarrow> u32 \<Rightarrow> bytes \<Rightarrow> SateParam list \<Rightarrow> i32 \<Rightarrow> 's world \<Rightarrow> bool \<times> 's world" where
  "SendMessage E m user_id buf sates lvl w =
     (case pick_beam m sates of (cur_snr, cur_sate_id, cur_beam_id) \<Rightarrow>
      if cur_sate_id = -1 then (False, w)
      else call_rpc E (schedule_at m cur_beam_id)
             (access_message user_id buf cur_sate_id cur_beam_id lvl) w)"

section \<open>The beam that is chosen\<close>

text \<open>A beam that can be chosen: its access server is known and its SNR is above \<open>-1\<close>.\<close>

definition usable :: "schedule \<Rightarrow> SateParam \<Rightarrow> bool" where
  "usable m s \<longleftrightarrow> m (beam_id s) \<noteq> None \<and> f32_gt (snr s) f32_minus_one"

text \<open>
  The first of the usable beams with the largest SNR: larger than every usable beam before
  it, not smaller than any after it.
\<close>

definition is_best :: "schedule \<Rightarrow> SateParam list \<Rightarrow> SateParam \<Rightarrow> bool" where
  "is_best m sates s \<longleftrightarrow>
     (\<exists>before after. sates = before @ s # after \<and> usable m s \<and>
        (\<forall>t \<in> set before. usable m t \<longrightarrow> f32_gt (snr s) (snr t)) \<and>
        (\<forall>t \<in> set after. usable m t \<longrightarrow> \<not> f32_gt (snr t) (snr s)))"

lemma not_nan_minus_one [simp]: "\<not> f32_is_nan f32_minus_one"
  by code_simp

lemma usable_not_nan: "usable m s \<Longrightarrow> \<not> f32_is_nan (snr s)"
  by (auto simp: usable_def dest: f32_gt_not_nan)

lemma f32_gt_asym: "f32_gt a b \<Longrightarrow> \<not> f32_gt b a"
  by (auto simp: f32_gt_def)

lemma f32_gt_not_gt_trans:
  "f32_gt a b \<Longrightarrow> \<not> f32_gt c b \<Longrightarrow> \<not> f32_is_nan c \<Longrightarrow> f32_gt a c"
  by (auto simp: f32_gt_def)

lemma is_best_usable: "is_best m sates s \<Longrightarrow> s \<in> set sates \<and> usable m s"
  by (auto simp: is_best_def)

lemma is_best_max:
  assumes "is_best m sates s" and "t \<in> set sates" and "usable m t"
  shows "\<not> f32_gt (snr t) (snr s)"
proof -
  from assms(1,2) consider "t = s" | "usable m t \<longrightarrow> f32_gt (snr s) (snr t)"
    | "usable m t \<longrightarrow> \<not> f32_gt (snr t) (snr s)"
    unfolding is_best_def by auto
  then show ?thesis using assms(3) f32_gt_asym by cases auto
qed

lemma is_best_snoc_keep:
  assumes "is_best m sates s" and "\<not> (f32_gt (snr y) (snr s) \<and> m (beam_id y) \<noteq> None)"
  shows "is_best m (sates @ [y]) s"
proof -
  from assms(1) obtain before after where
    "sates @ [y] = before @ s # (after @ [y])" "usable m s"
    "\<forall>t \<in> set before. usable m t \<longrightarrow> f32_gt (snr s) (snr t)"
    "\<forall>t \<in> set after. usable m t \<longrightarrow> \<not> f32_gt (snr t) (snr s)"
    by (auto simp: is_best_def)
  moreover have "usable m y \<longrightarrow> \<not> f32_gt (snr y) (snr s)"
    using assms(2) by (auto simp: usable_def)
  ultimately show ?thesis unfolding is_best_def by (auto intro!: exI)
qed

lemma is_best_snoc_new:
  assumes "is_best m sates s" and "f32_gt (snr y) (snr s)" and "m (beam_id y) \<noteq> None"
  shows "is_best m (sates @ [y]) y"
proof -
  have "usable m y"
    using assms is_best_usable [OF assms(1)] by (auto simp: usable_def intro: f32_gt_trans)
  moreover have "f32_gt (snr y) (snr t)" if "t \<in> set sates" "usable m t" for t
    using is_best_max [OF assms(1) that] assms(2) usable_not_nan [OF that(2)]
    by (blast intro: f32_gt_not_gt_trans)
  ultimately show ?thesis unfolding is_best_def by (intro exI [of _ sates] exI [of _ "[]"]) simp
qed

lemma pick_beam_snoc [simp]: "pick_beam m (sates @ [y]) = pick_step m y (pick_beam m sates)"
  by (simp add: pick_beam_def)

lemma pick_beam_Nil [simp]: "pick_beam m [] = (f32_minus_one, -1, -1)"
  by (simp add: pick_beam_def)

text \<open>The loop finds that beam, or leaves its initial values when no beam is usable.\<close>

lemma pick_beam_cases:
  "(\<exists>s. is_best m sates s \<and> pick_beam m sates = (snr s, sate_id s, beam_id s)) \<or>
   ((\<forall>t \<in> set sates. \<not> usable m t) \<and> pick_beam m sates = (f32_minus_one, -1, -1))"
proof (induction sates rule: rev_induct)
  case Nil
  show ?case by simp
next
  case (snoc y sates)
  then consider s where "is_best m sates s" "pick_beam m sates = (snr s, sate_id s, beam_id s)"
    | "\<forall>t \<in> set sates. \<not> usable m t" "pick_beam m sates = (f32_minus_one, -1, -1)"
    by blast
  then show ?case
  proof cases
    case 1
    show ?thesis
    proof (cases "f32_gt (snr y) (snr s) \<and> m (beam_id y) \<noteq> None")
      case True
      with 1 have "is_best m (sates @ [y]) y" by (blast intro: is_best_snoc_new)
      with 1 True show ?thesis by auto
    next
      case False
      with 1 have "is_best m (sates @ [y]) s" by (blast intro: is_best_snoc_keep)
      moreover have "pick_beam m (sates @ [y]) = pick_beam m sates"
        using 1 False by auto
      ultimately show ?thesis using 1 by metis
    qed
  next
    case 2
    have "is_best m (sates @ [y]) y" if "usable m y"
      using that 2(1) unfolding is_best_def
      by (intro exI [of _ sates] exI [of _ "[]"]) simp
    with 2 show ?thesis by (auto simp: usable_def)
  qed
qed

lemma SendMessage_none:
  "\<forall>t \<in> set sates. \<not> usable m t \<Longrightarrow> SendMessage E m user_id buf sates lvl w = (False, w)"
  using pick_beam_cases [of m sates] is_best_usable by (fastforce simp: SendMessage_def)

text \<open>
  What \<open>SendMessage\<close> does to the trace: at most one call, to the access server of the best
  beam, carrying the buffer unchanged. \<open>sent\<close> is that contract; the two cases are the two
  ways the loop can end.
\<close>

inductive sent :: "schedule \<Rightarrow> u32 \<Rightarrow> bytes \<Rightarrow> SateParam list \<Rightarrow> i32 \<Rightarrow> event list \<Rightarrow> bool"
  for m user_id buf sates lvl where
  sent_nothing: "\<forall>t \<in> set sates. \<not> usable m t \<Longrightarrow> sent m user_id buf sates lvl []"
| sent_best: "is_best m sates s \<Longrightarrow> m (beam_id s) = Some a \<Longrightarrow>
     sent m user_id buf sates lvl [Rpc a (access_message user_id buf (sate_id s) (beam_id s) lvl) ok]"

inductive_cases sent_NilE: "sent m user_id buf sates lvl []"
inductive_cases sent_ConsE: "sent m user_id buf sates lvl (e # es)"
inductive_simps sent_Nil_simp: "sent m user_id buf sates lvl []"

definition real_sates :: "SateParam list \<Rightarrow> bool" where
  "real_sates sates \<longleftrightarrow> (\<forall>s \<in> set sates. 0 \<le> sate_id s)"

lemma SendMessage_sent:
  assumes "real_sates sates"
  obtains es where "sent m user_id buf sates lvl es"
    and "trace (snd (SendMessage E m user_id buf sates lvl w)) = trace w @ es"
    and "fst (SendMessage E m user_id buf sates lvl w) \<longleftrightarrow> (\<exists>a x. es = [Rpc a x True])"
proof -
  consider (best) s where "is_best m sates s" "pick_beam m sates = (snr s, sate_id s, beam_id s)"
    | (none) "\<forall>t \<in> set sates. \<not> usable m t"
    using pick_beam_cases [of m sates] by blast
  then show thesis
  proof cases
    case best
    then have s: "s \<in> set sates" "usable m s" by (auto dest: is_best_usable)
    then obtain a where a: "m (beam_id s) = Some a" by (auto simp: usable_def)
    let ?x = "access_message user_id buf (sate_id s) (beam_id s) lvl"
    obtain ok w1 where r: "call_rpc E a ?x w = (ok, w1)" by fastforce
    have "sate_id s \<noteq> -1" using s assms by (auto simp: real_sates_def)
    with best a r have "SendMessage E m user_id buf sates lvl w = (ok, w1)"
      by (simp add: SendMessage_def schedule_at_def)
    with trace_calls(7) [OF r] sent_best [OF best(1) a] show thesis
      by (intro that [of "[Rpc a ?x ok]"]) auto
  next
    case none
    then have "SendMessage E m user_id buf sates lvl w = (False, w)" by (rule SendMessage_none)
    with none show thesis
      by (intro that [of "[]"]) (auto intro: sent_nothing)
  qed
qed

lemma sent_only_rpc: "sent m u b ss l es \<Longrightarrow> e \<in> set es \<Longrightarrow>
    \<exists>a x ok. e = Rpc a x ok \<and> am_uid x = sint u \<and> am_content x = b \<and> am_level x = l \<and>
      m (am_beam_id x) = Some a"
  by (induction rule: sent.induct) (auto simp: access_message_def)

section \<open>Where lists of beams come from\<close>

text \<open>The beams read from \<open>sate_cover\<close> are numbered 1 to 10, two to a satellite.\<close>

lemma SateParam3_fields:
  "SateParam3 a b v = Ret s \<Longrightarrow> sate_id s = a \<and> beam_id s = b"
  by (auto simp: SateParam3_def bindR_eq_Ret_iff)

lemma cover_loop_sates:
  "cover_loop r is acc = Ret ss \<Longrightarrow> s \<in> set ss \<Longrightarrow>
     s \<in> set acc \<or> (\<exists>i \<in> set is. beam_id s = int i \<and> sate_id s = (int i + 1) div 2)"
proof (induction "is" arbitrary: acc)
  case Nil
  then show ?case by simp
next
  case (Cons i "is")
  then show ?case
    by (fastforce simp: bindR_eq_Ret_iff split: option.splits if_splits dest: SateParam3_fields)
qed

lemma GetSateCover_beams:
  assumes "GetSateCover E conn u w = Ret (sates, w')" and "s \<in> set sates"
  shows "1 \<le> beam_id s \<and> beam_id s \<le> 10 \<and> sate_id s = (beam_id s + 1) div 2"
proof -
  from assms obtain r where "cover_loop r [1..<MAX_BEAM_NUM + 1] [] = Ret sates"
    by (cases rule: execute_cases [of E conn "select_cover_sql u" w])
      (auto simp: GetSateCover_def bindR_eq_Ret_iff split: list.splits)
  from cover_loop_sates [OF this assms(2)] show ?thesis
    by (auto simp: MAX_BEAM_NUM_def)
qed

lemma GetSateCover_real: "GetSateCover E conn u w = Ret (sates, w') \<Longrightarrow> real_sates sates"
  by (auto simp: real_sates_def dest!: GetSateCover_beams)

lemma sent_no_beams [simp]: "sent m u str [] l es \<longleftrightarrow> es = []"
  by (auto simp: is_best_def elim: sent.cases intro: sent_nothing)

lemma emits_SendMessage [emits_rules]:
  assumes "real_sates sates" and "\<And>es. sent m u str sates l es \<Longrightarrow> Q es"
  shows "emits (Ret (snd (SendMessage E m u str sates l w))) w Q"
  using assms SendMessage_sent [OF assms(1), of m u str l E w] unfolding emits_def by (metis res.inject(1))

lemma emits_bind_SendMessage [emits_rules]:
  assumes "real_sates sates"
    and "\<And>es w1. sent m u str sates l es \<Longrightarrow> emits (f w1) w1 (\<lambda>es'. Q (es @ es'))"
  shows "emits (bindR (Ret (snd (SendMessage E m u str sates l w))) f) w Q"
proof -
  obtain es where "sent m u str sates l es"
    "trace (snd (SendMessage E m u str sates l w)) = trace w @ es"
    by (rule SendMessage_sent [OF assms(1)])
  with assms(2) show ?thesis by (auto intro: emits_step)
qed

lemma emits_ResponseEncode [emits_rules]:
  "emits (f (response_wire r @ [0])) w Q \<Longrightarrow> emits (bindR (ResponseEncode r) f) w Q"
  by (simp add: ResponseEncode_eq)

text \<open>Inputs for the witnesses.\<close>

definition demo_schedule :: schedule where
  "demo_schedule = [1 \<mapsto> \<lparr>addr_ip = ''a'', addr_port = 11001\<rparr>]"

definition demo_beams :: "SateParam list" where
  "demo_beams =
     [\<lparr>sate_id = 1, beam_id = 1, snr = 0x41400000\<rparr>, \<lparr>sate_id = 1, beam_id = 2, snr = 0x41500000\<rparr>,
      \<lparr>sate_id = 2, beam_id = 1, snr = 0x41400000\<rparr>]"

definition demo_settings :: "address_setting list" where
  "demo_settings =
     [\<lparr>set_beamid = Some 1, set_port = Some 11001, set_ip = Some ''a''\<rparr>,
      \<lparr>set_beamid = Some 1, set_port = Some 11002, set_ip = Some ''b''\<rparr>]"

section \<open>Properties\<close>

text \<open>
  C22: \<open>SendMessage\<close> on a list of beams with satellite numbers that are not negative (as every
  caller passes): if some beam has a known access server and an SNR above \<open>-1\<close>, exactly one
  remote call is made, to the access server of the best such beam (the first with the largest
  SNR), and its result is the result; the message carries the receiver, the satellite and beam
  chosen, the level and the frame unchanged. Otherwise nothing is called and the result is
  false.
\<close>

theorem SendMessage_best:
  assumes "real_sates sates"
  shows "if \<exists>t \<in> set sates. usable m t
    then \<exists>s a. is_best m sates s \<and> m (beam_id s) = Some a \<and>
      SendMessage E m u buf sates lvl w =
        call_rpc E a \<lparr>am_uid = sint u, am_sate_id = sate_id s, am_beam_id = beam_id s,
                     am_level = lvl, am_content = buf\<rparr> w
    else SendMessage E m u buf sates lvl w = (False, w)"
proof (cases "\<exists>t \<in> set sates. usable m t")
  case True
  with pick_beam_cases [of m sates] obtain s where
    s: "is_best m sates s" "pick_beam m sates = (snr s, sate_id s, beam_id s)" by blast
  moreover obtain a where "m (beam_id s) = Some a" "s \<in> set sates"
    using is_best_usable [OF s(1)] by (auto simp: usable_def)
  moreover from this assms have "sate_id s \<noteq> -1" by (auto simp: real_sates_def)
  ultimately show ?thesis using True
    by (auto simp: SendMessage_def schedule_at_def access_message_def)
next
  case False
  then show ?thesis by (simp add: SendMessage_none)
qed

theorem SendMessage_best_witness:
  "\<exists>s a. is_best demo_schedule demo_beams s \<and> demo_schedule (beam_id s) = Some a \<and>
     SendMessage demo_env demo_schedule 2 [1, 2] demo_beams 5 demo_world =
       call_rpc demo_env a \<lparr>am_uid = 2, am_sate_id = sate_id s, am_beam_id = beam_id s,
         am_level = 5, am_content = [1, 2]\<rparr> demo_world"
proof -
  have r: "real_sates demo_beams" and u: "\<exists>t \<in> set demo_beams. usable demo_schedule t"
    by code_simp+
  show ?thesis using SendMessage_best [OF r, of demo_schedule demo_env 2 "[1, 2]" 5 demo_world] u
    by simp
qed

text \<open>
  After a successful \<open>Init\<close> from an empty map, the access server of a beam is the one of
  the first entry of the configuration with that beam number; a beam that no entry names has
  none.
\<close>

theorem SendHelper_Init_lookup:
  assumes "SendHelper_Init as Map.empty = (True, m)"
  shows "m k = map_option (\<lambda>x. \<lparr>addr_ip = the (set_ip x), addr_port = the (set_port x)\<rparr>)
     (find (\<lambda>x. set_beamid x = Some k) as)"
proof -
  have "SendHelper_Init as n = (True, m) \<Longrightarrow> m k = (case n k of Some a \<Rightarrow> Some a | None \<Rightarrow>
     map_option (\<lambda>x. \<lparr>addr_ip = the (set_ip x), addr_port = the (set_port x)\<rparr>)
       (find (\<lambda>x. set_beamid x = Some k) as))" for n
    by (induction as n rule: SendHelper_Init.induct)
      (auto split: option.splits if_splits simp: map_insert_def)
  from this [OF assms] show ?thesis by simp
qed

theorem SendHelper_Init_lookup_witness:
  "snd (SendHelper_Init demo_settings Map.empty) 1 = Some \<lparr>addr_ip = ''a'', addr_port = 11001\<rparr>"
  using SendHelper_Init_lookup [of demo_settings "snd (SendHelper_Init demo_settings Map.empty)" 1]
  by (simp add: demo_settings_def map_insert_def)

end
