(* ===== verification/Sessions.thy ===== *)
theory Sessions
  imports SendHelper
begin

text \<open>
  What every handler owes to the connection pool and to the message it carries, stated over
  the trace of calls: a connection is used only between the moment it is handed out and the
  moment it is closed, none is kept, no remote call is made while one is held, and a handler
  that stores a message does so before it sends anything. The locales \<open>frame_handler\<close> and
  \<open>storing_handler\<close> are these contracts; each handler interprets them in its own theory.
\<close>

section \<open>Connections\<close>

text \<open>
  The connection held after a sequence of calls, starting from the one held before, or
  \<open>None\<close> when the sequence breaks the rules: a statement on a connection that is not held,
  a second connection, a close of another one. \<open>busy\<close> says whether a remote call or a sleep
  is allowed while a connection is held.
\<close>

fun held :: "bool \<Rightarrow> conn option \<Rightarrow> event list \<Rightarrow> conn option option" where
  "held busy h [] = Some h"
| "held busy h (Got c # es) = (if h = None then held busy c es else None)"
| "held busy h (Closed c # es) = (if h = Some c then held busy None es else None)"
| "held busy h (Cleared c # es) = (if h = Some c then held busy h es else None)"
| "held busy h (Sql c q b # es) = (if h = Some c then held busy h es else None)"
| "held busy h (Clock t # es) = held busy h es"
| "held busy h (Rpc a m b # es) = (if busy \<or> h = None then held busy h es else None)"
| "held busy h (Slept n # es) = (if busy \<or> h = None then held busy h es else None)"

definition disciplined :: "bool \<Rightarrow> event list \<Rightarrow> bool" where
  "disciplined busy es \<longleftrightarrow> held busy None es = Some None"

named_theorems held_simps "which connection a group of calls leaves held"

lemma held_append [held_simps]:
  "held busy h (es @ fs) = Option.bind (held busy h es) (\<lambda>h'. held busy h' fs)"
  by (induction busy h es rule: held.induct) simp_all

lemma held_replicate_failed: "held busy None (replicate k (Got None)) = Some None"
  by (induction k) simp_all

lemma held_acquired [held_simps]: "acquired c got \<Longrightarrow> held busy None got = Some (Some c)"
  by (auto simp: acquired_def held_append held_replicate_failed)

lemma held_sent [held_simps]:
  "sent m u str ss l out \<Longrightarrow> busy \<or> h = None \<Longrightarrow> held busy h out = Some h"
  by (induction rule: sent.induct) simp_all

lemma disciplined_concat:
  "(\<forall>es \<in> set ess. disciplined busy es) \<Longrightarrow> disciplined busy (concat ess)"
  by (induction ess) (auto simp: disciplined_def held_append)

section \<open>Order\<close>

text \<open>No \<open>Q\<close> before the first \<open>P\<close>.\<close>

fun preceded :: "(event \<Rightarrow> bool) \<Rightarrow> (event \<Rightarrow> bool) \<Rightarrow> event list \<Rightarrow> bool" where
  "preceded P Q [] = True"
| "preceded P Q (e # es) = (\<not> Q e \<and> (P e \<or> preceded P Q es))"

lemma preceded_iff:
  "preceded P Q es \<longleftrightarrow> (\<forall>i < length es. Q (es ! i) \<longrightarrow> (\<exists>j < i. P (es ! j)))" (is "_ \<longleftrightarrow> ?R es")
proof (induction es)
  case Nil
  then show ?case by simp
next
  case (Cons e es)
  have "?R (e # es) \<longleftrightarrow> \<not> Q e \<and> (\<forall>i < length es. Q (es ! i) \<longrightarrow> P e \<or> (\<exists>j < i. P (es ! j)))"
    by (simp add: All_less_Suc2 Ex_less_Suc2)
  also have "\<dots> \<longleftrightarrow> \<not> Q e \<and> (P e \<or> ?R es)" by blast
  finally show ?case using Cons.IH by simp
qed

lemma preceded_append_free [simp]:
  "(\<forall>e \<in> set es. \<not> Q e) \<Longrightarrow>
   preceded P Q (es @ fs) \<longleftrightarrow> (\<exists>e \<in> set es. P e) \<or> preceded P Q fs"
  by (induction es) auto

lemma preceded_free [simp]: "(\<forall>e \<in> set es. \<not> Q e) \<Longrightarrow> preceded P Q es"
  by (induction es) auto

fun is_rpc :: "event \<Rightarrow> bool" where
  "is_rpc (Rpc a m ok) = True"
| "is_rpc _ = False"

fun rpcs :: "event list \<Rightarrow> AccessMessage list" where
  "rpcs [] = []"
| "rpcs (Rpc a m ok # es) = m # rpcs es"
| "rpcs (_ # es) = rpcs es"

lemma rpcs_append [simp]: "rpcs (es @ fs) = rpcs es @ rpcs fs"
  by (induction es rule: rpcs.induct) simp_all

lemma acquired_no_rpc [simp]:
  "acquired c got \<Longrightarrow> e \<in> set got \<Longrightarrow> \<not> is_rpc e"
  by (auto simp: acquired_def)

lemma rpcs_replicate_Got [simp]: "rpcs (replicate k (Got c)) = []"
  by (induction k) simp_all

lemma rpcs_acquired [simp]: "acquired c got \<Longrightarrow> rpcs got = []"
  by (auto simp: acquired_def)

lemma rpcs_sent:
  "sent m u str ss l out \<Longrightarrow> rpcs out = [] \<and> (\<forall>s \<in> set ss. \<not> usable m s) \<or>
     (\<exists>s. is_best m ss s \<and> rpcs out = [access_message u str (sate_id s) (beam_id s) l])"
  by (induction rule: sent.induct) auto

lemma sent_addressed:
  "sent m u str ss l out \<Longrightarrow> x \<in> set (rpcs out) \<Longrightarrow>
     am_uid x = sint u \<and> am_content x = str \<and> am_level x = l"
  by (induction rule: sent.induct) (auto simp: access_message_def)

text \<open>A cleared connection is one the program will not give back.\<close>

definition gives_back :: "event list \<Rightarrow> bool" where
  "gives_back es \<longleftrightarrow> (\<forall>c. Cleared c \<notin> set es)"

lemma acquired_gives_back [simp]: "acquired c got \<Longrightarrow> Cleared d \<notin> set got"
  by (auto simp: acquired_def)

lemma sent_gives_back [simp]: "sent m u str ss l out \<Longrightarrow> Cleared d \<notin> set out"
  by (induction rule: sent.induct) simp_all

lemmas calls_simps = disciplined_def held_simps gives_back_def

section \<open>The contracts\<close>

locale frame_handler =
  fixes run :: "ControlHead \<Rightarrow> 's world \<Rightarrow> 's world res"
    and calls :: "ControlHead \<Rightarrow> 's world \<Rightarrow> event list \<Rightarrow> bool"
  assumes run_calls: "emits (run h w) w (calls h w)"
    and calls_disciplined: "calls h w es \<Longrightarrow> gives_back es \<Longrightarrow> disciplined False es"
    and calls_leak: "calls h w es \<Longrightarrow> \<not> gives_back es \<Longrightarrow>
          \<exists>c. held False None es = Some (Some c) \<and> rpcs es = []"
    and calls_addressed: "calls h w es \<Longrightarrow> m \<in> set (rpcs es) \<Longrightarrow>
          am_uid m = sint (sender h) \<or> am_uid m = sint (receiver h)"
begin

lemma run_events:
  assumes "run h w = Ret w'"
  obtains es where "trace w' = trace w @ es" and "calls h w es"
  using run_calls [of h w] assms by (auto simp: emits_def)

lemma events_calls: "run h w = Ret w' \<Longrightarrow> calls h w (events w w')"
  using run_calls emits_events by blast

lemma run_extends: "run h w = Ret w' \<Longrightarrow> extends w w'"
  by (elim run_events) (auto simp: extends_def)

lemma run_disciplined:
  "run h w = Ret w' \<Longrightarrow> gives_back (events w w') \<Longrightarrow> disciplined False (events w w')"
  using events_calls calls_disciplined by blast

lemma run_leak:
  "run h w = Ret w' \<Longrightarrow> \<not> gives_back (events w w') \<Longrightarrow> \<not> disciplined False (events w w')"
  using events_calls calls_leak by (fastforce simp: disciplined_def)

lemma run_disciplined_iff:
  "run h w = Ret w' \<Longrightarrow> disciplined False (events w w') \<longleftrightarrow> gives_back (events w w')"
  using run_disciplined run_leak by blast

lemma run_addressed:
  "run h w = Ret w' \<Longrightarrow> m \<in> set (rpcs (events w w')) \<Longrightarrow>
     am_uid m \<in> {sint (sender h), sint (receiver h)}"
  using events_calls calls_addressed by blast

end

text \<open>A handler that stores the message of the frame; \<open>stored\<close> is the event of storing it.\<close>

locale storing_handler = frame_handler run calls
  for run :: "ControlHead \<Rightarrow> 's world \<Rightarrow> 's world res"
    and calls :: "ControlHead \<Rightarrow> 's world \<Rightarrow> event list \<Rightarrow> bool" +
  fixes stored :: "ControlHead \<Rightarrow> event \<Rightarrow> bool"
  assumes calls_stored: "calls h w es \<Longrightarrow> preceded (stored h) is_rpc es"
    and stored_sql: "stored h e \<Longrightarrow> \<exists>c q. e = Sql c q True"
begin

lemma run_stored_first:
  "run h w = Ret w' \<Longrightarrow> preceded (stored h) is_rpc (events w w')"
  using events_calls calls_stored by blast

lemma nothing_sent_unless_stored:
  assumes "run h w = Ret w'" and "\<forall>e \<in> set (events w w'). \<not> stored h e"
  shows "\<forall>e \<in> set (events w w'). \<not> is_rpc e"
proof -
  have "preceded P Q es \<Longrightarrow> \<forall>e \<in> set es. \<not> P e \<Longrightarrow> \<forall>e \<in> set es. \<not> Q e"
    for P Q :: "event \<Rightarrow> bool" and es
    by (induction es) auto
  then show ?thesis using run_stored_first [OF assms(1)] assms(2) by blast
qed

end

section \<open>Frames for the witnesses\<close>

text \<open>A frame from user 1 to user 2, and what uninitialised variables may hold.\<close>

definition demo_frame :: "u8 \<Rightarrow> bytes \<Rightarrow> ControlHead" where
  "demo_frame t str =
     \<lparr>ch_from_id = htonl 1, ch_to_id = htonl 2, ch_frame_id = htons 9, ch_type = t, ch_retain = 0,
      ch_content = str\<rparr>"

definition demo_junk :: "MessageItem \<times> time_t" where
  "demo_junk =
     (\<lparr>msg_to_id = 0, msg_from_id = 0, msg_frame_id = 0, msg_type = 0x60, msg_retain = 0,
       msg_content = []\<rparr>, 0)"

end
