(* ===== verification/MessageManager.thy ===== *)
theory MessageManager
  imports Sessions
begin

text \<open>
  \<open>src/logic/message_manager.cpp\<close>: the handlers of the message frames and of receipts, in
  the same shape as those of \<open>MobileManager\<close>.
\<close>

definition ProcessSimpleMessage ::
  "'s environment \<Rightarrow> schedule \<Rightarrow> bytes \<Rightarrow> 's world \<Rightarrow> 's world res" where
  "ProcessSimpleMessage E sh p w =
     bindR (head_to_id p) (\<lambda>dst. let to_id = ntohl dst in
     bindR (head_from_id p) (\<lambda>src.
     bindR (GetConnection E w) (\<lambda>(conn, w).
     case conn of None \<Rightarrow> Ret w
     | Some conn \<Rightarrow>
     bindR (InsertStoreMessage E conn (Some p) w) (\<lambda>(ok, w).
     if \<not> ok then Ret (Connection_close E conn w)
     else
     bindR (GetSateCover E conn (sint to_id) w) (\<lambda>(sates, w).
     let w = Connection_close E conn w in
     if sates \<noteq> []
     then bindR (MessageEncode_head p) (\<lambda>str.
          Ret (snd (SendMessage E sh to_id str sates 5 w)))
     else Ret w)))))"

definition ProcessForwardNoAckMessage :: "bytes \<Rightarrow> 's world \<Rightarrow> 's world res" where
  "ProcessForwardNoAckMessage p w = Ret w"

definition ProcessBackwardNoAckMessage :: "bytes \<Rightarrow> 's world \<Rightarrow> 's world res" where
  "ProcessBackwardNoAckMessage p w = Ret w"

text \<open>
  On a failed insert \<open>ProcessCompleteMessage\<close> calls \<open>Connection_clear\<close>, not
  \<open>Connection_close\<close>.
\<close>

definition ProcessCompleteMessage ::
  "'s environment \<Rightarrow> schedule \<Rightarrow> bytes \<Rightarrow> 's world \<Rightarrow> 's world res" where
  "ProcessCompleteMessage E sh p w =
     bindR (head_to_id p) (\<lambda>dst. let to_id = ntohl dst in
     bindR (head_from_id p) (\<lambda>src. let from_id = ntohl src in
     bindR (GetConnection E w) (\<lambda>(conn, w).
     case conn of None \<Rightarrow> Ret w
     | Some conn \<Rightarrow>
     bindR (InsertOfflineMessage E conn (Some p) w) (\<lambda>(ok, w).
     if \<not> ok then Ret (Connection_clear E conn w)
     else
     bindR (GetSateCover E conn (sint to_id) w) (\<lambda>(sates_to_user, w).
     bindR (GetSateCover E conn (sint from_id) w) (\<lambda>(sates_from_user, w).
     let w = Connection_close E conn w in
     bindR (head_frame_id p) (\<lambda>f.
     let response = \<lparr>res_to_id = htonl from_id, res_from_id = 0, res_frame_id = f,
                     res_type = 0x80, res_retain = 0, res_receipt_type = 0x50,
                     res_receipt_indicate = 0\<rparr> in
     bindR
       (if sates_from_user \<noteq> []
        then bindR (ResponseEncode response) (\<lambda>res.
             Ret (snd (SendMessage E sh from_id res sates_from_user 10 w)))
        else Ret w) (\<lambda>w.
     if sates_to_user \<noteq> []
     then bindR (MessageEncode_head p) (\<lambda>str.
          Ret (snd (SendMessage E sh to_id str sates_to_user 5 w)))
     else Ret w))))))))"

text \<open>
  \<open>ProcessReceipt\<close> has local variables \<open>msg\<close> and \<open>recv_time\<close> that it does not initialise:
  \<open>junk\<close> is what they happen to hold. It does not test the connection for null.
\<close>

definition ProcessReceipt ::
  "'s environment \<Rightarrow> MessageItem \<times> time_t \<Rightarrow> bytes \<Rightarrow> 's world \<Rightarrow> 's world res" where
  "ProcessReceipt E junk p w =
     bindR (head_from_id p) (\<lambda>src. let to_id = ntohl src in
     bindR (head_to_id p) (\<lambda>dst. let from_id = ntohl dst in
     bindR (ack_receipt_type p) (\<lambda>receipt_type.
     if receipt_type \<noteq> 0x60 then Ret w
     else
     bindR (ack_frame_id p) (\<lambda>f. let frame_id = ntohs f in
     bindR (GetConnection E w) (\<lambda>(conn, w).
     case conn of None \<Rightarrow> Fault NullPointer
     | Some conn \<Rightarrow>
     bindR (GetOfflineMessage E conn from_id to_id frame_id junk w)
       (\<lambda>(found, (msg, recv_time), w).
     bindR
       (if found \<and> msg_type msg = 0x60
        then case DeleteOfflineMessage E conn from_id to_id frame_id w of (_, w) \<Rightarrow>
             case InsertStoreMessage_item E conn msg recv_time w of (_, w) \<Rightarrow> Ret w
        else Ret w) (\<lambda>w.
     Ret (Connection_close E conn w))))))))"

section \<open>What the handlers do\<close>

text \<open>
  For a request of at least twelve bytes, \<open>head_bytes h\<close>: the frames that go out, and the
  sequence of calls of a run that returns.
\<close>

definition receipt_for :: "ControlHead \<Rightarrow> bytes" where
  "receipt_for h =
     response_wire \<lparr>res_to_id = ch_from_id h, res_from_id = 0, res_frame_id = ch_frame_id h,
       res_type = 0x80, res_retain = 0, res_receipt_type = 0x50, res_receipt_indicate = 0\<rparr> @ [0]"

definition forward_of :: "ControlHead \<Rightarrow> bytes" where
  "forward_of h =
     message_wire (ch_to_id h) (ch_from_id h) (ch_frame_id h) (ch_type h) (ch_retain h) @
     cut_nul (ch_content h) @ [0]"

lemma MessageEncode_head_request:
  "MessageEncode_head (c_str (head_bytes h)) =
     (if length (cut_nul (ch_content h)) \<le> 1011 then Ret (forward_of h) else Fault OutOfBounds)"
  by (simp add: MessageEncode_head_eq [OF head_fields(2,1,3,4,5) head_content_cut] forward_of_def)

definition store_stmt :: "ControlHead \<Rightarrow> time_t \<Rightarrow> sql" where
  "store_stmt h t =
     insert_store_sql (sint (sender h)) (sint (receiver h)) (cut_nul (ch_content h)) t t
       (uint (ntohs (ch_frame_id h))) (uint (ch_type h))"

definition cache_stmt :: "ControlHead \<Rightarrow> time_t \<Rightarrow> sql" where
  "cache_stmt h t =
     insert_offline_sql (sint (sender h)) (sint (receiver h)) (uint (ch_type h))
       (cut_nul (ch_content h)) t (uint (ntohs (ch_frame_id h))) (t + 10)"

lemma emits_InsertStoreMessage [emits_rules]:
  assumes "\<And>t ok w1. InsertStoreMessage E c (Some (c_str (head_bytes h))) w = Ret (ok, w1) \<Longrightarrow>
      emits (f (ok, w1)) w1 (\<lambda>es. Q ([Clock t, Sql c (store_stmt h t) ok] @ es))"
  shows "emits (bindR (InsertStoreMessage E c (Some (c_str (head_bytes h))) w) f) w Q"
proof (rule emits_bind, clarify)
  fix ok w1 assume i: "InsertStoreMessage E c (Some (c_str (head_bytes h))) w = Ret (ok, w1)"
  then obtain t where "trace w1 = trace w @ [Clock t, Sql c (store_stmt h t) ok]"
    by (elim InsertStoreMessage_trace)
      (simp add: head_fields head_content_cut store_stmt_def sender_def receiver_def)
  then show "emits (f (ok, w1)) w Q" by (rule emits_step) (rule assms [OF i])
qed

lemma emits_InsertOfflineMessage [emits_rules]:
  assumes "\<And>t ok w1. InsertOfflineMessage E c (Some (c_str (head_bytes h))) w = Ret (ok, w1) \<Longrightarrow>
      emits (f (ok, w1)) w1 (\<lambda>es. Q ([Clock t, Sql c (cache_stmt h t) ok] @ es))"
  shows "emits (bindR (InsertOfflineMessage E c (Some (c_str (head_bytes h))) w) f) w Q"
proof (rule emits_bind, clarify)
  fix ok w1 assume i: "InsertOfflineMessage E c (Some (c_str (head_bytes h))) w = Ret (ok, w1)"
  then obtain t where "trace w1 = trace w @ [Clock t, Sql c (cache_stmt h t) ok]"
    by (elim InsertOfflineMessage_trace)
      (simp add: head_fields head_content_cut cache_stmt_def sender_def receiver_def)
  then show "emits (f (ok, w1)) w Q" by (rule emits_step) (rule assms [OF i])
qed

lemma emits_MessageEncode_head [emits_rules]:
  assumes "length (cut_nul (ch_content h)) \<le> 1011 \<Longrightarrow> emits (f (forward_of h)) w Q"
  shows "emits (bindR (MessageEncode_head (c_str (head_bytes h))) f) w Q"
  using assms by (simp add: MessageEncode_head_request emits_Fault)

section \<open>The calls of each handler\<close>

text \<open>
  The sequences of calls a run that returns can make, one rule per way through the handler.
\<close>

inductive simple_calls ::
  "'s environment \<Rightarrow> schedule \<Rightarrow> ControlHead \<Rightarrow> 's world \<Rightarrow> event list \<Rightarrow> bool"
  for E sh h w where
  simple_failed: "GetConnection E w = Ret (Some c, w0) \<Longrightarrow> acquired c got \<Longrightarrow>
     InsertStoreMessage E c (Some (c_str (head_bytes h))) w0 = Ret (False, w1) \<Longrightarrow>
     simple_calls E sh h w (got @ [Clock t, Sql c (store_stmt h t) False, Closed c])"
| simple_stored: "GetConnection E w = Ret (Some c, w0) \<Longrightarrow> acquired c got \<Longrightarrow>
     InsertStoreMessage E c (Some (c_str (head_bytes h))) w0 = Ret (True, w1) \<Longrightarrow>
     GetSateCover E c (sint (receiver h)) w1 = Ret (sates, w2) \<Longrightarrow>
     sent sh (receiver h) (forward_of h) sates 5 out \<Longrightarrow>
     simple_calls E sh h w
       (got @ [Clock t, Sql c (store_stmt h t) True,
               Sql c (select_cover_sql (sint (receiver h))) b, Closed c] @ out)"

inductive complete_calls ::
  "'s environment \<Rightarrow> schedule \<Rightarrow> ControlHead \<Rightarrow> 's world \<Rightarrow> event list \<Rightarrow> bool"
  for E sh h w where
  complete_failed: "GetConnection E w = Ret (Some c, w0) \<Longrightarrow> acquired c got \<Longrightarrow>
     InsertOfflineMessage E c (Some (c_str (head_bytes h))) w0 = Ret (False, w1) \<Longrightarrow>
     complete_calls E sh h w (got @ [Clock t, Sql c (cache_stmt h t) False, Cleared c])"
| complete_cached: "GetConnection E w = Ret (Some c, w0) \<Longrightarrow> acquired c got \<Longrightarrow>
     InsertOfflineMessage E c (Some (c_str (head_bytes h))) w0 = Ret (True, w1) \<Longrightarrow>
     GetSateCover E c (sint (receiver h)) w1 = Ret (to_sates, w2) \<Longrightarrow>
     GetSateCover E c (sint (sender h)) w2 = Ret (from_sates, w3) \<Longrightarrow>
     sent sh (sender h) (receipt_for h) from_sates 10 ack \<Longrightarrow>
     sent sh (receiver h) (forward_of h) to_sates 5 out \<Longrightarrow>
     complete_calls E sh h w
       (got @ [Clock t, Sql c (cache_stmt h t) True,
               Sql c (select_cover_sql (sint (receiver h))) b1,
               Sql c (select_cover_sql (sint (sender h))) b2, Closed c] @ ack @ out)"

text \<open>
  A receipt for a message looks the message up under its own sender and receiver, which are
  the receiver and the sender of the receipt.
\<close>

inductive receipt_calls ::
  "'s environment \<Rightarrow> MessageItem \<times> time_t \<Rightarrow> ControlHead \<Rightarrow> 's world \<Rightarrow> event list \<Rightarrow> bool"
  for E junk h w where
  receipt_ignored: "ack_receipt_type (c_str (head_bytes h)) = Ret rt \<Longrightarrow> rt \<noteq> 0x60 \<Longrightarrow>
     receipt_calls E junk h w []"
| receipt_unmatched: "ack_receipt_type (c_str (head_bytes h)) = Ret 0x60 \<Longrightarrow>
     ack_frame_id (c_str (head_bytes h)) = Ret f \<Longrightarrow>
     GetConnection E w = Ret (Some c, w0) \<Longrightarrow> acquired c got \<Longrightarrow>
     GetOfflineMessage E c (receiver h) (sender h) (ntohs f) junk w0 = Ret (found, (msg, rtime), w1) \<Longrightarrow>
     \<not> (found \<and> msg_type msg = 0x60) \<Longrightarrow>
     receipt_calls E junk h w
       (got @ [Sql c (select_offline_sql (receiver h) (sender h) (ntohs f)) b, Closed c])"
| receipt_moved: "ack_receipt_type (c_str (head_bytes h)) = Ret 0x60 \<Longrightarrow>
     ack_frame_id (c_str (head_bytes h)) = Ret f \<Longrightarrow>
     GetConnection E w = Ret (Some c, w0) \<Longrightarrow> acquired c got \<Longrightarrow>
     GetOfflineMessage E c (receiver h) (sender h) (ntohs f) junk w0 = Ret (True, (msg, rtime), w1) \<Longrightarrow>
     msg_type msg = 0x60 \<Longrightarrow>
     receipt_calls E junk h w
       (got @ [Sql c (select_offline_sql (receiver h) (sender h) (ntohs f)) True,
               Sql c (Delete Message_cache (cache_key (receiver h) (sender h) (ntohs f))) d,
               Clock t, Sql c (insert_store_item_sql msg rtime t) s, Closed c])"

lemma receipt_for_eq:
  "response_wire \<lparr>res_to_id = htonl (sender h), res_from_id = 0, res_frame_id = ch_frame_id h,
     res_type = 0x80, res_retain = 0, res_receipt_type = 0x50, res_receipt_indicate = 0\<rparr> @ [0] =
   receipt_for h"
  by (simp add: receipt_for_def sender_def)

lemma ProcessSimpleMessage_calls:
  "emits (ProcessSimpleMessage E sh (c_str (head_bytes h)) w) w (simple_calls E sh h w)"
  unfolding ProcessSimpleMessage_def head_fields bindR.simps
  by ((rule emits_rules | rule emits_let | erule GetSateCover_real |
       simp only: receiver_def [symmetric] |
       (auto dest: simple_failed simple_stored; fail))+)

lemma ProcessCompleteMessage_calls:
  "emits (ProcessCompleteMessage E sh (c_str (head_bytes h)) w) w (complete_calls E sh h w)"
  unfolding ProcessCompleteMessage_def head_fields bindR.simps
  unfolding bindR_push
  by ((rule emits_rules | rule emits_bind_Ret | rule emits_let | erule GetSateCover_real |
       simp only: receiver_def [symmetric] sender_def [symmetric] receipt_for_eq |
       (auto dest: complete_failed complete_cached; fail))+)

lemma ProcessReceipt_calls:
  "emits (ProcessReceipt E junk (c_str (head_bytes h)) w) w (receipt_calls E junk h w)"
  unfolding ProcessReceipt_def head_fields bindR.simps
  unfolding bindR_push
  by ((rule emits_rules | rule emits_bind_Ret | rule emits_let | rule emits_bind |
       simp only: receiver_def [symmetric] sender_def [symmetric] |
       (auto intro: receipt_ignored dest: receipt_unmatched receipt_moved; fail))+)

section \<open>The contracts of the handlers\<close>

text \<open>The event of storing the message of a frame, in either table.\<close>

definition is_store :: "ControlHead \<Rightarrow> event \<Rightarrow> bool" where
  "is_store h e \<longleftrightarrow> (\<exists>c t. e = Sql c (store_stmt h t) True)"

definition is_cache :: "ControlHead \<Rightarrow> event \<Rightarrow> bool" where
  "is_cache h e \<longleftrightarrow> (\<exists>c t. e = Sql c (cache_stmt h t) True)"

interpretation simple: storing_handler "\<lambda>h. ProcessSimpleMessage E sh (c_str (head_bytes h))"
  "simple_calls E sh" is_store
  for E :: "'s environment" and sh
proof
  show "emits (ProcessSimpleMessage E sh (c_str (head_bytes h)) w) w (simple_calls E sh h w)" for h w
    by (rule ProcessSimpleMessage_calls)
qed (auto elim!: simple_calls.cases simp: calls_simps is_store_def dest: sent_addressed)

interpretation complete: storing_handler "\<lambda>h. ProcessCompleteMessage E sh (c_str (head_bytes h))"
  "complete_calls E sh" is_cache
  for E :: "'s environment" and sh
proof
  show "emits (ProcessCompleteMessage E sh (c_str (head_bytes h)) w) w (complete_calls E sh h w)" for h w
    by (rule ProcessCompleteMessage_calls)
qed (auto elim!: complete_calls.cases simp: calls_simps is_cache_def dest: sent_addressed)

interpretation receipt: frame_handler "\<lambda>h. ProcessReceipt E junk (c_str (head_bytes h))"
  "receipt_calls E junk" for E :: "'s environment" and junk
proof
  show "emits (ProcessReceipt E junk (c_str (head_bytes h)) w) w (receipt_calls E junk h w)" for h w
    by (rule ProcessReceipt_calls)
qed (auto elim!: receipt_calls.cases simp: calls_simps)

section \<open>Properties\<close>

text \<open>
  C12: A run of \<open>ProcessSimpleMessage\<close> that returns made exactly these calls: it got a connection
  and stored the message in \<open>message_store\<close>, under the time of one reading of the clock. If that
  failed it gave the connection back. If not, it looked up the beams of the receiver, gave
  the connection back, and sent the frame of the request to the receiver at level 5 through
  the best beam, or sent nothing when no beam is usable.
\<close>

theorem ProcessSimpleMessage_events:
  assumes "ProcessSimpleMessage E sh (c_str (head_bytes h)) w = Ret w'"
  shows "simple_calls E sh h w (events w w')"
  using assms by (rule simple.events_calls)

theorem ProcessSimpleMessage_events_witness:
  "\<exists>w'. ProcessSimpleMessage demo_env demo_schedule (c_str (head_bytes (demo_frame 0x40 [72, 105]))) demo_world = Ret w' \<and>
     simple_calls demo_env demo_schedule (demo_frame 0x40 [72, 105]) demo_world (events demo_world w')"
proof -
  have "returns (ProcessSimpleMessage demo_env demo_schedule (c_str (head_bytes (demo_frame 0x40 [72, 105]))) demo_world)"
    by code_simp
  then show ?thesis using ProcessSimpleMessage_events by (blast elim: returnsE)
qed

text \<open>
  C10: A run of \<open>ProcessCompleteMessage\<close> that returns put the message in \<open>message_cache\<close>, with its
  first retry ten seconds later; then looked up the beams of receiver and sender, gave the
  connection back, answered the sender with a receipt (code \<open>0x50\<close>, the frame number of the
  request) at level 10, and sent the frame to the receiver at level 5, in this order, each
  through its best beam. If the insert failed it sent nothing and did not give the connection
  back.
\<close>

theorem ProcessCompleteMessage_events:
  assumes "ProcessCompleteMessage E sh (c_str (head_bytes h)) w = Ret w'"
  shows "complete_calls E sh h w (events w w')"
  using assms by (rule complete.events_calls)

theorem ProcessCompleteMessage_events_witness:
  "\<exists>w'. ProcessCompleteMessage demo_env demo_schedule
       (c_str (head_bytes (demo_frame 0x60 [72, 105]))) demo_world = Ret w' \<and>
     complete_calls demo_env demo_schedule (demo_frame 0x60 [72, 105]) demo_world (events demo_world w')"
proof -
  have "returns (ProcessCompleteMessage demo_env demo_schedule
      (c_str (head_bytes (demo_frame 0x60 [72, 105]))) demo_world)"
    by code_simp
  then show ?thesis using ProcessCompleteMessage_events by (blast elim: returnsE)
qed

text \<open>
  C13: A run of \<open>ProcessReceipt\<close> that returns sends nothing. A receipt of another type than \<open>0x60\<close>
  makes no call at all; one of that type looks the message up under the ends of the receipt
  exchanged, and when it finds one of type \<open>0x60\<close> deletes it from \<open>message_cache\<close>, then stores
  it in \<open>message_store\<close>, over one connection that is given back.
\<close>

theorem ProcessReceipt_events:
  assumes "ProcessReceipt E junk (c_str (head_bytes h)) w = Ret w'"
  shows "receipt_calls E junk h w (events w w') \<and> rpcs (events w w') = []"
  using receipt.events_calls [OF assms] by (auto elim: receipt_calls.cases)

theorem ProcessReceipt_events_witness:
  "\<exists>w'. ProcessReceipt demo_env demo_junk (c_str (head_bytes (demo_frame 0x80 [0, 9, 0x60]))) demo_world = Ret w' \<and>
     rpcs (events demo_world w') = []"
proof -
  have "returns (ProcessReceipt demo_env demo_junk (c_str (head_bytes (demo_frame 0x80 [0, 9, 0x60]))) demo_world)"
    by code_simp
  then show ?thesis using ProcessReceipt_events by (blast elim: returnsE)
qed

text \<open>
  C29: A receipt for a message that is not cached: \<open>GetOfflineMessage\<close> reports success without
  having set its result, so when the uninitialised \<open>type\<close> happens to be \<open>0x60\<close> the handler
  stores the uninitialised message.
\<close>

theorem ProcessReceipt_unknown:
  assumes "ack_receipt_type (c_str (head_bytes h)) = Ret 0x60"
    and "ack_frame_id (c_str (head_bytes h)) = Ret f"
    and "GetConnection E w = Ret (Some c, w0)"
    and "execute E c (select_offline_sql (receiver h) (sender h) (ntohs f)) w0 = (Rows [], w1)"
    and "msg_type (fst junk) = 0x60"
  shows "\<exists>w' d t ok. ProcessReceipt E junk (c_str (head_bytes h)) w = Ret w' \<and>
    trace w' = trace w1 @
      [Sql c (Delete Message_cache (cache_key (receiver h) (sender h) (ntohs f))) d, Clock t,
       Sql c (insert_store_item_sql (fst junk) (snd junk) t) ok, Closed c]"
proof -
  obtain d w2 where d: "DeleteOfflineMessage E c (receiver h) (sender h) (ntohs f) w1 = (d, w2)"
    by fastforce
  obtain ok w3 where i: "InsertStoreMessage_item E c (fst junk) (snd junk) w2 = (ok, w3)" by fastforce
  obtain t where t: "trace w3 = trace w2 @ [Clock t, Sql c (insert_store_item_sql (fst junk) (snd junk) t) ok]"
    using InsertStoreMessage_item_trace [OF i] by blast
  have "ProcessReceipt E junk (c_str (head_bytes h)) w = Ret (Connection_close E c w3)"
    using assms d i by (cases junk) (simp add: ProcessReceipt_def head_fields GetOfflineMessage_def
        sender_def receiver_def)
  with DeleteOfflineMessage_trace [OF d] t show ?thesis by (auto simp: trace_calls)
qed

theorem ProcessReceipt_unknown_witness:
  "\<exists>w'. ProcessReceipt demo_env demo_junk (c_str (head_bytes (demo_frame 0x80 [0, 9, 0x60]))) demo_world =
     Ret w' \<and> (\<exists>t ok. Sql 7 (insert_store_item_sql (fst demo_junk) 0 t) ok \<in> set (trace w'))"
proof -
  let ?h = "demo_frame 0x80 [0, 9, 0x60]"
  let ?q = "select_offline_sql (receiver ?h) (sender ?h) (ntohs (htons 9))"
  have a: "ack_receipt_type (c_str (head_bytes ?h)) = Ret 0x60"
    and f: "ack_frame_id (c_str (head_bytes ?h)) = Ret (htons 9)" by code_simp+
  have "execute demo_env 7 ?q demo_connected = (Rows [], snd (execute demo_env 7 ?q demo_connected))"
    by (simp add: execute_def demo_env_def memory_env_def demo_connected_def demo_memory_def
        select_offline_sql_def)
  from ProcessReceipt_unknown [OF a f demo_connection this, of demo_junk] obtain w' d t ok where
    "ProcessReceipt demo_env demo_junk (c_str (head_bytes ?h)) demo_world = Ret w'"
    "Sql 7 (insert_store_item_sql (fst demo_junk) (snd demo_junk) t) ok \<in> set (trace w')"
    by (fastforce simp: demo_junk_def)
  then show ?thesis by (auto simp: demo_junk_def)
qed

end
