(* ===== verification/MobileManager.thy ===== *)
theory MobileManager
  imports Sessions
begin

text \<open>
  \<open>src/logic/mobile_manager.cpp\<close>: the handlers of the frames a terminal sends when it is
  switched on, switched off or moves. Each takes the environment, the schedule of the
  \<open>SendHelper\<close> singleton, the block of memory the \<open>ControlHead *\<close> points to, and the world;
  it returns the world after the call, or the fault that ended it. The debug log lines are
  not modelled.
\<close>

section \<open>Reading the beams of a request\<close>

text \<open>
  The loop over \<open>sat_cover_num\<close> entries of six bytes: satellite, beam, SNR. \<open>pos\<close> is the
  read pointer.
\<close>

fun read_beams :: "bytes \<Rightarrow> nat \<Rightarrow> nat \<Rightarrow> SateParam list \<Rightarrow> SateParam list res" where
  "read_beams p pos 0 acc = Ret acc"
| "read_beams p pos (Suc k) acc =
     bindR (ld8 p pos) (\<lambda>s.
     bindR (ld8 p (pos + 1)) (\<lambda>b.
     bindR (ld32 p (pos + 2)) (\<lambda>v.
     read_beams p (pos + 6) k (acc @ [\<lparr>sate_id = uint s, beam_id = uint b, snr = v\<rparr>]))))"

section \<open>The handlers\<close>

text \<open>The number of waiting messages in the one byte of the answer to a login.\<close>

definition offline_indicate :: "i32 \<Rightarrow> u8" where
  "offline_indicate n = (if 0 \<le> n \<and> n < 255 then word_of_int n else 0xFF)"

definition ProcessLogin ::
  "'s environment \<Rightarrow> schedule \<Rightarrow> bytes \<Rightarrow> 's world \<Rightarrow> 's world res" where
  "ProcessLogin E sh p w =
     bindR (head_from_id p) (\<lambda>src. let user_id = ntohl src in
     bindR (ld8 p cover_offset) (\<lambda>grand.
     bindR (ld8 p (cover_offset + 1)) (\<lambda>num.
     if num = 0 then Ret w
     else
     bindR (read_beams p (cover_offset + 2) (unat num) []) (\<lambda>beams.
     let sate = \<lparr>grand_cover = grand, sat_cover_num = num, sates_param = beams\<rparr> in
     bindR (head_to_id p) (\<lambda>dst.
     bindR (head_frame_id p) (\<lambda>f.
     bindR (head_retain p) (\<lambda>rt.
     let response = \<lparr>res_to_id = src, res_from_id = dst, res_frame_id = f, res_type = 0x80,
                     res_retain = rt, res_receipt_type = 0x01, res_receipt_indicate = 0x00\<rparr> in
     bindR (GetConnection E w) (\<lambda>(conn, w).
     case conn of None \<Rightarrow> Ret w
     | Some conn \<Rightarrow>
     case IsExistUser E conn user_id w of (res, w) \<Rightarrow>
     bindR
       (if res
        then bindR (UpdateSateCover E conn user_id sate w) (\<lambda>(res, w).
             if res
             then case GetOfflineMessageNum E conn user_id w of (n, w) \<Rightarrow>
                  Ret (response\<lparr>res_receipt_type := 0x00,
                                res_receipt_indicate := offline_indicate n\<rparr>, w)
             else Ret (response\<lparr>res_receipt_type := 0x01, res_receipt_indicate := 0x00\<rparr>, w))
        else Ret (response\<lparr>res_receipt_type := 0x01, res_receipt_indicate := 0x00\<rparr>, w))
       (\<lambda>(response, w).
     let w = Connection_close E conn w in
     bindR (ResponseEncode response) (\<lambda>str.
     Ret (snd (SendMessage E sh user_id str (sates_param sate) 10 w)))))))))))) "

text \<open>
  \<open>ProcessLogout\<close> writes a cover of no beams, with \<open>grand_cover\<close> not initialised and not
  read, and answers through the beams stored before.
\<close>

definition no_cover :: Satellite where
  "no_cover = \<lparr>grand_cover = undefined, sat_cover_num = 0, sates_param = []\<rparr>"

definition ProcessLogout ::
  "'s environment \<Rightarrow> schedule \<Rightarrow> bytes \<Rightarrow> 's world \<Rightarrow> 's world res" where
  "ProcessLogout E sh p w =
     bindR (head_from_id p) (\<lambda>src. let user_id = ntohl src in
     bindR (head_to_id p) (\<lambda>dst.
     bindR (head_frame_id p) (\<lambda>f.
     bindR (head_retain p) (\<lambda>rt.
     let response = \<lparr>res_to_id = src, res_from_id = dst, res_frame_id = f, res_type = 0x80,
                     res_retain = rt, res_receipt_type = 0x02, res_receipt_indicate = 0x00\<rparr> in
     bindR (GetConnection E w) (\<lambda>(conn, w).
     case conn of None \<Rightarrow> Ret w
     | Some conn \<Rightarrow>
     bindR (GetSateCover E conn (sint user_id) w) (\<lambda>(sates, w).
     bindR (UpdateSateCover E conn user_id no_cover w) (\<lambda>(_, w).
     let w = Connection_close E conn w in
     bindR (ResponseEncode response) (\<lambda>str.
     Ret (snd (SendMessage E sh user_id str sates 10 w))))))))))"

definition ProcessMobileRequest ::
  "'s environment \<Rightarrow> schedule \<Rightarrow> bytes \<Rightarrow> 's world \<Rightarrow> 's world res" where
  "ProcessMobileRequest E sh p w =
     bindR (head_from_id p) (\<lambda>src. let user_id = ntohl src in
     bindR (ld8 p cover_offset) (\<lambda>grand.
     bindR (ld8 p (cover_offset + 1)) (\<lambda>num.
     if num = 0 then Ret w
     else
     bindR (read_beams p (cover_offset + 2) (unat num) []) (\<lambda>beams.
     let sate = \<lparr>grand_cover = grand, sat_cover_num = num, sates_param = beams\<rparr> in
     bindR (head_to_id p) (\<lambda>dst.
     bindR (head_frame_id p) (\<lambda>f.
     bindR (head_retain p) (\<lambda>rt.
     let response = \<lparr>res_to_id = src, res_from_id = dst, res_frame_id = f, res_type = 0x80,
                     res_retain = rt, res_receipt_type = 0x03, res_receipt_indicate = 0x00\<rparr> in
     bindR (GetConnection E w) (\<lambda>(conn, w).
     case conn of None \<Rightarrow> Ret w
     | Some conn \<Rightarrow>
     bindR (UpdateSateCover E conn user_id sate w) (\<lambda>(_, w).
     let w = Connection_close E conn w in
     bindR (ResponseEncode response) (\<lambda>str.
     Ret (snd (SendMessage E sh user_id str (sates_param sate) 10 w)))))))))))) "

section \<open>The calls of each handler\<close>

lemma read_beams_real:
  "read_beams p pos k acc = Ret ss \<Longrightarrow> real_sates acc \<Longrightarrow> real_sates ss"
  by (induction p pos k acc rule: read_beams.induct)
    (auto simp: bindR_eq_Ret_iff real_sates_def)

text \<open>The answer to a login, logout or move: the header of the request, its ends exchanged.\<close>

definition answer_to :: "ControlHead \<Rightarrow> u8 \<Rightarrow> u8 \<Rightarrow> bytes" where
  "answer_to h rt ri =
     response_wire \<lparr>res_to_id = ch_from_id h, res_from_id = ch_to_id h,
       res_frame_id = ch_frame_id h, res_type = 0x80, res_retain = ch_retain h,
       res_receipt_type = rt, res_receipt_indicate = ri\<rparr> @ [0]"

definition user_stmt :: "ControlHead \<Rightarrow> sql" where
  "user_stmt h = SelectAll User_info [(Id, Eq, VInt (sint (sender h)))]"

definition count_stmt :: "ControlHead \<Rightarrow> sql" where
  "count_stmt h = SelectCount Message_cache [(To_user, Eq, VInt (sint (sender h)))]"

text \<open>The cover a request announces, when all its bytes can be read.\<close>

definition read_cover :: "bytes \<Rightarrow> Satellite res" where
  "read_cover p =
     bindR (ld8 p cover_offset) (\<lambda>grand. bindR (ld8 p (cover_offset + 1)) (\<lambda>num.
     bindR (read_beams p (cover_offset + 2) (unat num) []) (\<lambda>beams.
     Ret \<lparr>grand_cover = grand, sat_cover_num = num, sates_param = beams\<rparr>)))"

definition cover_of :: "ControlHead \<Rightarrow> Satellite \<Rightarrow> bool" where
  "cover_of h sate \<longleftrightarrow> read_cover (c_str (head_bytes h)) = Ret sate"

lemma cover_of_iff:
  "cover_of h sate \<longleftrightarrow>
     ld8 (c_str (head_bytes h)) cover_offset = Ret (grand_cover sate) \<and>
     ld8 (c_str (head_bytes h)) (cover_offset + 1) = Ret (sat_cover_num sate) \<and>
     read_beams (c_str (head_bytes h)) (cover_offset + 2) (unat (sat_cover_num sate)) [] =
       Ret (sates_param sate)"
  by (cases sate) (auto simp: cover_of_def read_cover_def bindR_eq_Ret_iff)

definition slots :: "u8 \<Rightarrow> SateParam list \<Rightarrow> f32 list res" where
  "slots num beams = fill_snr beams [0..<unat num] (replicate MAX_BEAM_NUM f32_minus_one)"

inductive login_calls ::
  "'s environment \<Rightarrow> schedule \<Rightarrow> ControlHead \<Rightarrow> 's world \<Rightarrow> event list \<Rightarrow> bool"
  for E sh h w where
  login_no_beams: "cover_of h sate \<Longrightarrow> sat_cover_num sate = 0 \<Longrightarrow> login_calls E sh h w []"
| login_unknown: "cover_of h sate \<Longrightarrow> sat_cover_num sate \<noteq> 0 \<Longrightarrow>
     GetConnection E w = Ret (Some c, w0) \<Longrightarrow> acquired c got \<Longrightarrow>
     IsExistUser E c (sender h) w0 = (False, w1) \<Longrightarrow>
     sent sh (sender h) (answer_to h 0x01 0x00) (sates_param sate) 10 out \<Longrightarrow>
     login_calls E sh h w (got @ [Sql c (user_stmt h) b, Closed c] @ out)"
| login_not_stored: "cover_of h sate \<Longrightarrow> sat_cover_num sate \<noteq> 0 \<Longrightarrow>
     GetConnection E w = Ret (Some c, w0) \<Longrightarrow> acquired c got \<Longrightarrow>
     IsExistUser E c (sender h) w0 = (True, w1) \<Longrightarrow>
     slots (sat_cover_num sate) (sates_param sate) = Ret temp \<Longrightarrow> UpdateSateCover E c (sender h) sate w1 = Ret (False, w2) \<Longrightarrow>
     sent sh (sender h) (answer_to h 0x01 0x00) (sates_param sate) 10 out \<Longrightarrow>
     login_calls E sh h w
       (got @ [Sql c (user_stmt h) True, Sql c (update_cover_sql (sender h) temp) False,
               Closed c] @ out)"
| login_done: "cover_of h sate \<Longrightarrow> sat_cover_num sate \<noteq> 0 \<Longrightarrow>
     GetConnection E w = Ret (Some c, w0) \<Longrightarrow> acquired c got \<Longrightarrow>
     IsExistUser E c (sender h) w0 = (True, w1) \<Longrightarrow>
     slots (sat_cover_num sate) (sates_param sate) = Ret temp \<Longrightarrow> UpdateSateCover E c (sender h) sate w1 = Ret (True, w2) \<Longrightarrow>
     GetOfflineMessageNum E c (sender h) w2 = (n, w3) \<Longrightarrow>
     sent sh (sender h) (answer_to h 0x00 (offline_indicate n)) (sates_param sate) 10 out \<Longrightarrow>
     login_calls E sh h w
       (got @ [Sql c (user_stmt h) True, Sql c (update_cover_sql (sender h) temp) True,
               Sql c (count_stmt h) b, Closed c] @ out)"

inductive logout_calls ::
  "'s environment \<Rightarrow> schedule \<Rightarrow> ControlHead \<Rightarrow> 's world \<Rightarrow> event list \<Rightarrow> bool"
  for E sh h w where
  logout_done: "GetConnection E w = Ret (Some c, w0) \<Longrightarrow> acquired c got \<Longrightarrow>
     GetSateCover E c (sint (sender h)) w0 = Ret (sates, w1) \<Longrightarrow>
     sent sh (sender h) (answer_to h 0x02 0x00) sates 10 out \<Longrightarrow>
     logout_calls E sh h w
       (got @ [Sql c (select_cover_sql (sint (sender h))) b,
               Sql c (update_cover_sql (sender h) (replicate MAX_BEAM_NUM f32_minus_one)) ok,
               Closed c] @ out)"

inductive move_calls ::
  "'s environment \<Rightarrow> schedule \<Rightarrow> ControlHead \<Rightarrow> 's world \<Rightarrow> event list \<Rightarrow> bool"
  for E sh h w where
  move_no_beams: "cover_of h sate \<Longrightarrow> sat_cover_num sate = 0 \<Longrightarrow> move_calls E sh h w []"
| move_done: "cover_of h sate \<Longrightarrow> sat_cover_num sate \<noteq> 0 \<Longrightarrow>
     GetConnection E w = Ret (Some c, w0) \<Longrightarrow> acquired c got \<Longrightarrow> slots (sat_cover_num sate) (sates_param sate) = Ret temp \<Longrightarrow>
     sent sh (sender h) (answer_to h 0x03 0x00) (sates_param sate) 10 out \<Longrightarrow>
     move_calls E sh h w
       (got @ [Sql c (update_cover_sql (sender h) temp) ok, Closed c] @ out)"

text \<open>The loads of a handler, put together.\<close>

lemma cover_ofI:
  "ld8 (c_str (head_bytes h)) cover_offset = Ret g \<Longrightarrow>
   ld8 (c_str (head_bytes h)) (cover_offset + 1) = Ret num \<Longrightarrow>
   read_beams (c_str (head_bytes h)) (cover_offset + 2) (unat num) [] = Ret beams \<Longrightarrow>
   cover_of h \<lparr>grand_cover = g, sat_cover_num = num, sates_param = beams\<rparr>"
  by (simp add: cover_of_iff)

lemma cover_of_real: "cover_of h sate \<Longrightarrow> real_sates (sates_param sate)"
  by (auto simp: cover_of_iff real_sates_def [of "[]"] elim!: read_beams_real)

lemma cover_of_none:
  "ld8 (c_str (head_bytes h)) cover_offset = Ret g \<Longrightarrow>
   ld8 (c_str (head_bytes h)) (cover_offset + 1) = Ret 0 \<Longrightarrow>
   cover_of h \<lparr>grand_cover = g, sat_cover_num = 0, sates_param = []\<rparr>"
  by (simp add: cover_of_iff)

lemma emits_read_beams:
  assumes "ld8 (c_str (head_bytes h)) cover_offset = Ret g"
    and "ld8 (c_str (head_bytes h)) (cover_offset + 1) = Ret num"
    and "\<And>beams. cover_of h \<lparr>grand_cover = g, sat_cover_num = num, sates_param = beams\<rparr> \<Longrightarrow>
      emits (f beams) w Q"
  shows "emits (bindR (read_beams (c_str (head_bytes h)) (cover_offset + 2) (unat num) []) f) w Q"
  using cover_ofI [OF assms(1,2)] assms(3) by (blast intro: emits_bind)

text \<open>The rules above for a cover given by its fields.\<close>

lemmas login_unknown' = login_unknown
  [where sate = "\<lparr>grand_cover = g, sat_cover_num = num, sates_param = beams\<rparr>" for g num beams,
   simplified Satellite.simps]

lemmas login_not_stored' = login_not_stored
  [where sate = "\<lparr>grand_cover = g, sat_cover_num = num, sates_param = beams\<rparr>" for g num beams,
   simplified Satellite.simps]

lemmas login_done' = login_done
  [where sate = "\<lparr>grand_cover = g, sat_cover_num = num, sates_param = beams\<rparr>" for g num beams,
   simplified Satellite.simps]

lemmas move_done' = move_done
  [where sate = "\<lparr>grand_cover = g, sat_cover_num = num, sates_param = beams\<rparr>" for g num beams,
   simplified Satellite.simps]

lemmas mobile_folds = sender_def [symmetric] slots_def [symmetric] user_stmt_def [symmetric]
  count_stmt_def [symmetric] answer_to_def [symmetric]

lemma ProcessLogin_calls:
  "emits (ProcessLogin E sh (c_str (head_bytes h)) w) w (login_calls E sh h w)"
  unfolding ProcessLogin_def head_fields bindR.simps
  unfolding bindR_push
  by ((rule emits_rules | rule emits_bind_Ret | rule emits_let |
       rule cover_of_real, assumption |
       (rule login_no_beams, erule (1) cover_of_none, simp) |
       simp only: sender_def [symmetric] |
       rule emits_read_beams, assumption, assumption | rule emits_bind |
       (auto simp: mobile_folds dest: login_unknown' login_not_stored' login_done'; fail))+)

lemma ProcessLogout_calls:
  "emits (ProcessLogout E sh (c_str (head_bytes h)) w) w (logout_calls E sh h w)"
  unfolding ProcessLogout_def head_fields bindR.simps
  unfolding bindR_push
  by ((rule emits_rules | rule emits_bind_Ret | rule emits_let | erule GetSateCover_real |
       simp only: sender_def [symmetric] |
       (auto simp: mobile_folds no_cover_def dest: logout_done; fail))+)

lemma ProcessMobileRequest_calls:
  "emits (ProcessMobileRequest E sh (c_str (head_bytes h)) w) w (move_calls E sh h w)"
  unfolding ProcessMobileRequest_def head_fields bindR.simps
  unfolding bindR_push
  by ((rule emits_rules | rule emits_bind_Ret | rule emits_let |
       rule cover_of_real, assumption |
       (rule move_no_beams, erule (1) cover_of_none, simp) |
       simp only: sender_def [symmetric] |
       rule emits_read_beams, assumption, assumption | rule emits_bind |
       (auto simp: mobile_folds dest: move_done'; fail))+)

section \<open>The contracts of the handlers\<close>

interpretation login: frame_handler "\<lambda>h. ProcessLogin E sh (c_str (head_bytes h))"
  "login_calls E sh" for E :: "'s environment" and sh
proof
  show "emits (ProcessLogin E sh (c_str (head_bytes h)) w) w (login_calls E sh h w)" for h w
    by (rule ProcessLogin_calls)
qed (auto elim!: login_calls.cases simp: calls_simps dest: sent_addressed)

interpretation logout: frame_handler "\<lambda>h. ProcessLogout E sh (c_str (head_bytes h))"
  "logout_calls E sh" for E :: "'s environment" and sh
proof
  show "emits (ProcessLogout E sh (c_str (head_bytes h)) w) w (logout_calls E sh h w)" for h w
    by (rule ProcessLogout_calls)
qed (auto elim!: logout_calls.cases simp: calls_simps dest: sent_addressed)

interpretation move: frame_handler "\<lambda>h. ProcessMobileRequest E sh (c_str (head_bytes h))"
  "move_calls E sh" for E :: "'s environment" and sh
proof
  show "emits (ProcessMobileRequest E sh (c_str (head_bytes h)) w) w (move_calls E sh h w)" for h w
    by (rule ProcessMobileRequest_calls)
qed (auto elim!: move_calls.cases simp: calls_simps dest: sent_addressed)

section \<open>Properties\<close>

text \<open>A request that announces one beam of satellite 1, at SNR 12.\<close>

definition demo_cover_text :: "u8 \<Rightarrow> bytes" where
  "demo_cover_text beam = replicate 17 0 @ [0, 1, 1, beam, 0, 0, 0x40, 0x41]"

text \<open>
  C14: A run of \<open>ProcessLogin\<close> that returns did nothing when no beam was announced. Otherwise it
  looked the user up, wrote the announced beams and counted the waiting messages over one
  connection, gave it back, and answered through the best of the announced beams: code \<open>0\<close>
  with the number of waiting messages (255 stands for 255 and more) if the user exists and the
  beams were written, code \<open>1\<close> if not.
\<close>

theorem ProcessLogin_events:
  assumes "ProcessLogin E sh (c_str (head_bytes h)) w = Ret w'"
  shows "login_calls E sh h w (events w w')"
  using assms by (rule login.events_calls)

theorem ProcessLogin_events_witness:
  "\<exists>w'. ProcessLogin demo_env demo_schedule
       (c_str (head_bytes (demo_frame 0 (demo_cover_text 1)))) demo_world = Ret w' \<and>
     login_calls demo_env demo_schedule (demo_frame 0 (demo_cover_text 1)) demo_world (events demo_world w')"
proof -
  have "returns (ProcessLogin demo_env demo_schedule
      (c_str (head_bytes (demo_frame 0 (demo_cover_text 1)))) demo_world)"
    by code_simp
  then show ?thesis using ProcessLogin_events by (blast elim: returnsE)
qed

text \<open>
  A run of \<open>ProcessLogout\<close> that returns read the stored beams of the user, overwrote all ten
  with \<open>-1\<close>, gave the connection back and answered with code \<open>2\<close> through the best of the
  beams it had read before.
\<close>

theorem ProcessLogout_events:
  assumes "ProcessLogout E sh (c_str (head_bytes h)) w = Ret w'"
  shows "logout_calls E sh h w (events w w')"
  using assms by (rule logout.events_calls)

theorem ProcessLogout_events_witness:
  "\<exists>w'. ProcessLogout demo_env demo_schedule
       (c_str (head_bytes (demo_frame 2 []))) demo_world = Ret w' \<and>
     logout_calls demo_env demo_schedule (demo_frame 2 []) demo_world (events demo_world w')"
proof -
  have "returns (ProcessLogout demo_env demo_schedule
      (c_str (head_bytes (demo_frame 2 []))) demo_world)"
    by code_simp
  then show ?thesis using ProcessLogout_events by (blast elim: returnsE)
qed

text \<open>
  A run of \<open>ProcessMobileRequest\<close> that returns did nothing when no beam was announced;
  otherwise it wrote the announced beams, gave the connection back and answered with code \<open>3\<close>
  through the best of them, whether or not the statement succeeded.
\<close>

theorem ProcessMobileRequest_events:
  assumes "ProcessMobileRequest E sh (c_str (head_bytes h)) w = Ret w'"
  shows "move_calls E sh h w (events w w')"
  using assms by (rule move.events_calls)

theorem ProcessMobileRequest_events_witness:
  "\<exists>w'. ProcessMobileRequest demo_env demo_schedule
       (c_str (head_bytes (demo_frame 3 (demo_cover_text 1)))) demo_world = Ret w' \<and>
     move_calls demo_env demo_schedule (demo_frame 3 (demo_cover_text 1)) demo_world (events demo_world w')"
proof -
  have "returns (ProcessMobileRequest demo_env demo_schedule
      (c_str (head_bytes (demo_frame 3 (demo_cover_text 1)))) demo_world)"
    by code_simp
  then show ?thesis using ProcessMobileRequest_events by (blast elim: returnsE)
qed

end
