(* ===== verification/Handler.thy ===== *)
theory Handler
  imports MessageManager MobileManager
begin

text \<open>
  \<open>src/workmanager/LogicInterfaceHandler.cpp\<close>: the entry point the access servers call. The
  request is cast to a \<open>ControlHead *\<close> and its type byte selects a handler. The two
  \<open>gettimeofday\<close> calls only feed a log line and are not modelled.
\<close>

definition AccessToLogic ::
  "'s environment \<Rightarrow> schedule \<Rightarrow> MessageItem \<times> time_t \<Rightarrow> bytes \<Rightarrow> 's world \<Rightarrow> 's world res" where
  "AccessToLogic E sh junk request w =
     (if request = [] then Ret w
      else let p = c_str request in
      bindR (head_type p) (\<lambda>t.
      case signal_of t of
        Some Login \<Rightarrow> ProcessLogin E sh p w
      | Some Logout \<Rightarrow> ProcessLogout E sh p w
      | Some MOBILE_MANAGER_REQUEST \<Rightarrow> ProcessMobileRequest E sh p w
      | Some SIMPLE_MESSAGE \<Rightarrow> ProcessSimpleMessage E sh p w
      | Some FORWARD_NOACK_MESSAGE \<Rightarrow> ProcessForwardNoAckMessage p w
      | Some BACKWARD_NOACK_MESSAGE \<Rightarrow> ProcessBackwardNoAckMessage p w
      | Some COMPLETE_MESSAGE \<Rightarrow> ProcessCompleteMessage E sh p w
      | Some INQUIRE_MESSAGE_REQUEST \<Rightarrow> Ret w
      | Some RECEIPTE \<Rightarrow> ProcessReceipt E junk p w
      | None \<Rightarrow> Ret w))"

definition LogicToAccess :: "AccessMessage \<Rightarrow> 's world \<Rightarrow> 's world res" where
  "LogicToAccess response w = Ret w"

section \<open>The calls of a request\<close>

text \<open>The calls a frame can cause, by its type.\<close>

definition request_calls ::
  "'s environment \<Rightarrow> schedule \<Rightarrow> MessageItem \<times> time_t \<Rightarrow> ControlHead \<Rightarrow> 's world \<Rightarrow> event list \<Rightarrow> bool" where
  "request_calls E sh junk h w es =
     (case signal_of (ch_type h) of
        Some Login \<Rightarrow> login_calls E sh h w es
      | Some Logout \<Rightarrow> logout_calls E sh h w es
      | Some MOBILE_MANAGER_REQUEST \<Rightarrow> move_calls E sh h w es
      | Some SIMPLE_MESSAGE \<Rightarrow> simple_calls E sh h w es
      | Some COMPLETE_MESSAGE \<Rightarrow> complete_calls E sh h w es
      | Some RECEIPTE \<Rightarrow> receipt_calls E junk h w es
      | _ \<Rightarrow> es = [])"

lemma head_bytes_not_Nil [simp]: "head_bytes h \<noteq> []"
  by (simp add: head_bytes_def bytes32_def)

lemma AccessToLogic_calls:
  "emits (AccessToLogic E sh junk (head_bytes h) w) w (request_calls E sh junk h w)"
proof (cases "signal_of (ch_type h)")
  case None
  then show ?thesis
    by (simp add: AccessToLogic_def head_fields emits_def request_calls_def)
next
  case (Some t)
  then show ?thesis
    using ProcessLogin_calls [of E sh h w] ProcessLogout_calls [of E sh h w]
      ProcessMobileRequest_calls [of E sh h w] ProcessSimpleMessage_calls [of E sh h w]
      ProcessCompleteMessage_calls [of E sh h w] ProcessReceipt_calls [of E junk h w]
    by (cases t) (auto simp: AccessToLogic_def head_fields request_calls_def [abs_def]
        ProcessForwardNoAckMessage_def ProcessBackwardNoAckMessage_def emits_Ret)
qed

lemma AccessToLogic_events:
  assumes "AccessToLogic E sh junk (head_bytes h) w = Ret w'"
  obtains es where "trace w' = trace w @ es" and "request_calls E sh junk h w es"
  using AccessToLogic_calls [of E sh junk h w] assms by (auto simp: emits_def)

text \<open>Every frame of at least twelve bytes is \<open>head_bytes\<close> of its fields.\<close>

definition head_of :: "bytes \<Rightarrow> ControlHead" where
  "head_of req =
     \<lparr>ch_from_id = le32 (req ! 0) (req ! 1) (req ! 2) (req ! 3),
      ch_to_id = le32 (req ! 4) (req ! 5) (req ! 6) (req ! 7),
      ch_frame_id = le16 (req ! 8) (req ! 9), ch_type = req ! 10, ch_retain = req ! 11,
      ch_content = drop 12 req\<rparr>"

lemma take_12_nth:
  assumes "12 \<le> length xs"
  shows "xs = [xs ! 0, xs ! 1, xs ! 2, xs ! 3, xs ! 4, xs ! 5, xs ! 6, xs ! 7, xs ! 8, xs ! 9,
               xs ! 10, xs ! 11] @ drop 12 xs"
proof -
  have "take 12 xs = map ((!) xs) [0..<12]"
    by (rule nth_equalityI) (use assms in simp_all)
  also have "\<dots> = [xs ! 0, xs ! 1, xs ! 2, xs ! 3, xs ! 4, xs ! 5, xs ! 6, xs ! 7, xs ! 8,
      xs ! 9, xs ! 10, xs ! 11]"
    by (simp add: upt_rec) (simp add: numeral_eq_Suc)
  finally show ?thesis by (metis append_take_drop_id)
qed

lemma head_bytes_head_of:
  "12 \<le> length req \<Longrightarrow> head_bytes (head_of req) = req"
  using take_12_nth [of req] by (simp add: head_bytes_def head_of_def mem_simps)

lemma head_of_head_bytes [simp]: "head_of (head_bytes h) = h"
  by (cases h) (simp add: head_of_def head_bytes_def bytes32_def bytes16_def)

section \<open>The contract of the entry point\<close>

text \<open>What each handler keeps, the dispatch keeps: the laws come from their interpretations.\<close>

lemma request_calls_cases:
  assumes "request_calls E sh junk h w es"
  obtains "es = []" | "login_calls E sh h w es" | "logout_calls E sh h w es" | "move_calls E sh h w es"
  | "simple_calls E sh h w es" | "complete_calls E sh h w es" | "receipt_calls E junk h w es"
  using assms by (auto simp: request_calls_def split: option.splits SignalType.splits)

interpretation access: frame_handler "\<lambda>h. AccessToLogic E sh junk (head_bytes h)"
  "request_calls E sh junk" for E :: "'s environment" and sh junk
proof
  show "emits (AccessToLogic E sh junk (head_bytes h) w) w (request_calls E sh junk h w)" for h w
    by (rule AccessToLogic_calls)
next
  show "disciplined False es" if "request_calls E sh junk h w es" "gives_back es" for h w es
    using that by (cases rule: request_calls_cases) (auto simp: disciplined_def [of _ "[]"]
        intro: login.calls_disciplined logout.calls_disciplined move.calls_disciplined
          simple.calls_disciplined complete.calls_disciplined receipt.calls_disciplined)
next
  show "\<exists>c. held False None es = Some (Some c) \<and> rpcs es = []"
    if "request_calls E sh junk h w es" "\<not> gives_back es" for h w es
    using that by (cases rule: request_calls_cases) (auto simp: gives_back_def [of "[]"]
        dest: login.calls_leak logout.calls_leak move.calls_leak
          simple.calls_leak complete.calls_leak receipt.calls_leak)
next
  show "am_uid m = sint (sender h) \<or> am_uid m = sint (receiver h)"
    if "request_calls E sh junk h w es" "m \<in> set (rpcs es)" for h w es m
    using that by (cases rule: request_calls_cases)
      (auto dest: login.calls_addressed logout.calls_addressed move.calls_addressed
          simple.calls_addressed complete.calls_addressed receipt.calls_addressed)
qed

section \<open>Properties\<close>

lemma acquired_no_sql: "acquired c got \<Longrightarrow> Sql d q b \<notin> set got"
  by (auto simp: acquired_def)

lemma sent_no_sql: "sent sh u str ss l out \<Longrightarrow> \<forall>d q b. Sql d q b \<notin> set out"
  by (induction rule: sent.induct) simp_all

lemma select_not_cache: "select_cover_sql u \<noteq> cache_stmt h t" "cache_stmt h t \<noteq> select_cover_sql u"
  by (simp_all add: select_cover_sql_def cache_stmt_def insert_offline_sql_def)

lemma complete_calls_gives_back:
  assumes "complete_calls E sh h w es"
  shows "gives_back es \<longleftrightarrow> \<not> (\<exists>c t. Sql c (cache_stmt h t) False \<in> set es)"
  using assms by cases
    (auto simp: gives_back_def select_not_cache acquired_no_sql dest: sent_no_sql)

lemma request_calls_gives_back:
  assumes "request_calls E sh junk h w es"
  shows "gives_back es \<longleftrightarrow>
    \<not> (ch_type h = 0x60 \<and> (\<exists>c t. Sql c (cache_stmt h t) False \<in> set es))"
proof (cases "ch_type h = 0x60")
  case True
  then have "signal_of (ch_type h) = Some COMPLETE_MESSAGE"
    using signal_of_code [of COMPLETE_MESSAGE] by simp
  with assms have "complete_calls E sh h w es" by (simp add: request_calls_def)
  with True show ?thesis by (simp add: complete_calls_gives_back)
next
  case False
  then have "signal_of (ch_type h) \<noteq> Some COMPLETE_MESSAGE"
    using signal_of_SomeD by fastforce
  with assms have "gives_back es"
    by (auto simp: request_calls_def gives_back_def split: option.splits SignalType.splits
      elim!: login_calls.cases logout_calls.cases move_calls.cases simple_calls.cases receipt_calls.cases)
  with False show ?thesis by simp
qed

text \<open>
  C1: A request of at least twelve bytes that is processed keeps the discipline of the pool: every
  statement is issued on the one connection it got and has not yet given back, the connection
  is given back, and no remote call is made while it is held. The only exception is a complete
  message whose insert into \<open>message_cache\<close> failed: its connection is never given back.
\<close>

theorem AccessToLogic_connections:
  assumes "12 \<le> length req" and "AccessToLogic E sh junk req w = Ret w'"
  shows "disciplined False (events w w') \<longleftrightarrow>
    \<not> (req ! 10 = 0x60 \<and> (\<exists>c t. Sql c (cache_stmt (head_of req) t) False \<in> set (events w w')))"
proof -
  have run: "AccessToLogic E sh junk (head_bytes (head_of req)) w = Ret w'"
    using assms by (simp add: head_bytes_head_of)
  have "ch_type (head_of req) = req ! 10" by (simp add: head_of_def)
  with access.run_disciplined_iff [OF run] request_calls_gives_back [OF access.events_calls [OF run]]
  show ?thesis by simp
qed

theorem AccessToLogic_connections_witness:
  "\<exists>w'. AccessToLogic demo_env demo_schedule demo_junk (head_bytes (demo_frame 0x40 [72, 105]))
      demo_world = Ret w' \<and> disciplined False (events demo_world w')"
proof -
  have "returns (AccessToLogic demo_env demo_schedule demo_junk
      (head_bytes (demo_frame 0x40 [72, 105])) demo_world)" by code_simp
  then obtain w' where r: "AccessToLogic demo_env demo_schedule demo_junk
      (head_bytes (demo_frame 0x40 [72, 105])) demo_world = Ret w'" by (rule returnsE)
  have "12 \<le> length (head_bytes (demo_frame 0x40 [72, 105]))"
    and "head_bytes (demo_frame 0x40 [72, 105]) ! 10 \<noteq> 0x60" by code_simp+
  with AccessToLogic_connections [OF _ r] r show ?thesis by blast
qed

text \<open>
  C2: Nothing is sent for a simple message before it has been stored in \<open>message_store\<close>, and
  nothing for a complete message before it has been stored in \<open>message_cache\<close>; in particular
  the sender gets no receipt for a message that was not stored.
\<close>

theorem AccessToLogic_stored_first:
  assumes "AccessToLogic E sh junk (head_bytes h) w = Ret w'"
  shows "(ch_type h = 0x40 \<longrightarrow> preceded (is_store h) is_rpc (events w w')) \<and>
    (ch_type h = 0x60 \<longrightarrow> preceded (is_cache h) is_rpc (events w w'))"
  using access.events_calls [OF assms] simple.calls_stored [of E sh h w] complete.calls_stored [of E sh h w]
    signal_of_code [of SIMPLE_MESSAGE] signal_of_code [of COMPLETE_MESSAGE]
  by (auto simp: request_calls_def)

theorem AccessToLogic_stored_first_witness:
  "\<exists>w'. AccessToLogic demo_env demo_schedule demo_junk (head_bytes (demo_frame 0x40 [72, 105]))
      demo_world = Ret w' \<and>
    preceded (is_store (demo_frame 0x40 [72, 105])) is_rpc (events demo_world w')"
proof -
  have "returns (AccessToLogic demo_env demo_schedule demo_junk
      (head_bytes (demo_frame 0x40 [72, 105])) demo_world)" by code_simp
  then obtain w' where r: "AccessToLogic demo_env demo_schedule demo_junk
      (head_bytes (demo_frame 0x40 [72, 105])) demo_world = Ret w'" by (rule returnsE)
  from AccessToLogic_stored_first [OF r] r show ?thesis by (auto simp: demo_frame_def)
qed

text \<open>
  C31: Whatever is sent while a request is processed is addressed to the sender or to the receiver
  that the request names.
\<close>

theorem AccessToLogic_addressed:
  assumes "AccessToLogic E sh junk (head_bytes h) w = Ret w'" and "m \<in> set (rpcs (events w w'))"
  shows "am_uid m = sint (sender h) \<or> am_uid m = sint (receiver h)"
  using access.run_addressed [OF assms] by blast

theorem AccessToLogic_addressed_witness:
  "\<exists>w' m. AccessToLogic demo_env demo_schedule demo_junk (head_bytes (demo_frame 0x40 [72, 105]))
      demo_world = Ret w' \<and> m \<in> set (rpcs (events demo_world w')) \<and> am_uid m \<in> {1, 2}"
proof -
  let ?h = "demo_frame 0x40 [72, 105]"
  let ?r = "AccessToLogic demo_env demo_schedule demo_junk (head_bytes ?h) demo_world"
  have "case ?r of Ret w' \<Rightarrow> rpcs (events demo_world w') \<noteq> [] | Fault e \<Rightarrow> False" by code_simp
  then obtain w' where "?r = Ret w'" "rpcs (events demo_world w') \<noteq> []"
    by (cases ?r) simp_all
  then obtain m where r: "?r = Ret w'" "m \<in> set (rpcs (events demo_world w'))"
    using last_in_set by blast
  moreover have "sint (sender ?h) = 1" "sint (receiver ?h) = 2" by code_simp+
  ultimately show ?thesis using AccessToLogic_addressed [OF r] by auto
qed

text \<open>
  C32: The length of a request is not checked: one of 1 to 10 bytes makes the handler read outside
  the request (one of ten bytes ends where its type should be and is taken for a login).
\<close>

theorem AccessToLogic_too_short:
  assumes "req \<noteq> []" and "length req \<le> 10"
  shows "AccessToLogic E sh junk req w = Fault OutOfBounds"
proof (cases "length req = 10")
  case True
  then have "head_type (c_str req) = Ret 0"
    by (simp add: head_type_def ld8_def c_str_def nth_append)
  moreover have "signal_of 0 = Some Login"
    using signal_of_code [of Login] by simp
  moreover have "ld8 (c_str req) cover_offset = Fault OutOfBounds"
    using True by (simp add: ld8_def cover_offset_def content_offset_def)
  moreover obtain v where "head_from_id (c_str req) = Ret v"
    using head_readable(1) [of req] True by auto
  ultimately show ?thesis using assms(1)
    by (simp add: AccessToLogic_def ProcessLogin_def Let_def)
next
  case False
  with assms show ?thesis by (simp add: AccessToLogic_def head_type_def ld8_def Let_def)
qed

theorem AccessToLogic_too_short_witness:
  "AccessToLogic demo_env demo_schedule demo_junk [1, 2, 3] demo_world = Fault OutOfBounds"
  by (rule AccessToLogic_too_short) simp_all

text \<open>
  A request of type \<open>0x50\<close>, \<open>0x51\<close> or \<open>0x70\<close>, or of a type the protocol does not have, makes
  no call and changes nothing.
\<close>

theorem AccessToLogic_ignored:
  assumes "11 \<le> length req" and "signal_of (req ! 10) \<notin>
    {Some Login, Some Logout, Some MOBILE_MANAGER_REQUEST, Some SIMPLE_MESSAGE,
     Some COMPLETE_MESSAGE, Some RECEIPTE}"
  shows "AccessToLogic E sh junk req w = Ret w"
proof -
  have "head_type (c_str req) = Ret (req ! 10)"
    using assms(1) by (simp add: head_type_def ld8_def c_str_def nth_append)
  with assms show ?thesis
    by (auto simp: AccessToLogic_def ProcessForwardNoAckMessage_def ProcessBackwardNoAckMessage_def
        Let_def split: option.splits SignalType.splits)
qed

theorem AccessToLogic_ignored_witness:
  "AccessToLogic demo_env demo_schedule demo_junk (head_bytes (demo_frame 0x70 [1])) demo_world =
     Ret demo_world"
proof (rule AccessToLogic_ignored)
  show "11 \<le> length (head_bytes (demo_frame 0x70 [1]))" by simp
  show "signal_of (head_bytes (demo_frame 0x70 [1]) ! 10) \<notin>
    {Some Login, Some Logout, Some MOBILE_MANAGER_REQUEST, Some SIMPLE_MESSAGE,
     Some COMPLETE_MESSAGE, Some RECEIPTE}" by code_simp
qed

end
