(* ===== verification/DatabaseFacts.thy ===== *)
theory DatabaseFacts
  imports SqlServer
begin

text \<open>
  What the operations of \<open>Database\<close> that loop or compute return: the attempts of
  \<open>GetConnection\<close>, the ten slots \<open>UpdateSateCover\<close> writes, the beams \<open>GetSateCover\<close> reads.
\<close>

section \<open>Connections\<close>

text \<open>The answer of the pool to the attempt number \<open>n\<close>, from 0.\<close>

fun pool_try :: "'s environment \<Rightarrow> nat \<Rightarrow> 's \<Rightarrow> conn option \<times> 's" where
  "pool_try E 0 s = pool_getConnection E s"
| "pool_try E (Suc n) s = pool_try E n (snd (pool_getConnection E s))"

lemma GetConnection_loop_try:
  assumes "GetConnection_loop E count w = Some (conn, w')" and "0 < count"
  shows "\<exists>n. fst (pool_try E n (ext w)) \<noteq> None"
proof -
  have "0 < count \<longrightarrow> (\<exists>n. fst (pool_try E n (ext w)) \<noteq> None)"
  proof (rule GetConnection_loop.raw_induct [where P = "\<lambda>E count w r. 0 < count \<longrightarrow>
     (\<exists>n. fst (pool_try E n (ext w)) \<noteq> None)", OF _ assms(1)], intro impI)
    fix f :: "'a environment \<Rightarrow> int \<Rightarrow> 'a world \<Rightarrow> (conn option \<times> 'a world) option"
      and E count w r
    assume IH: "\<And>E count w r. f E count w = Some r \<Longrightarrow> 0 < count \<longrightarrow>
       (\<exists>n. fst (pool_try E n (ext w)) \<noteq> None)"
      and eq: "(if 0 < count then case ConnectionPool_getConnection E w of
             (Some c, w') \<Rightarrow> Some (Some c, w') | (None, w') \<Rightarrow> f E count w'
           else Some (None, w)) = Some r" and pos: "0 < count"
    obtain c1 s1 where p: "pool_getConnection E (ext w) = (c1, s1)" by fastforce
    show "\<exists>n. fst (pool_try E n (ext w)) \<noteq> None"
    proof (cases c1)
      case None
      with eq pos p have "f E count (log_event (Got None) s1 w) = Some r"
        by (simp add: ConnectionPool_getConnection_def)
      from IH [OF this] pos obtain n where "fst (pool_try E n s1) \<noteq> None" by auto
      with p show ?thesis by (intro exI [of _ "Suc n"]) simp
    next
      case (Some c)
      with p show ?thesis by (intro exI [of _ 0]) simp
    qed
  qed
  with assms(2) show ?thesis by simp
qed

lemma GetConnection_try:
  "(\<forall>i < n. fst (pool_try E i (ext w)) = None) \<Longrightarrow> pool_try E n (ext w) = (Some c, s) \<Longrightarrow>
   GetConnection E w =
     Ret (Some c, \<lparr>ext = s, trace = trace w @ replicate n (Got None) @ [Got (Some c)]\<rparr>)"
proof (induction n arbitrary: w)
  case 0
  then show ?case
    by (simp add: GetConnection_now ConnectionPool_getConnection_def log_event_def)
next
  case (Suc n)
  obtain s1 where p: "pool_getConnection E (ext w) = (None, s1)"
    using Suc.prems(1) by (metis pool_try.simps(1) prod.collapse zero_less_Suc)
  let ?w = "log_event (Got None) s1 w"
  have "GetConnection E w = GetConnection E ?w"
    by (rule GetConnection_retry) (simp add: ConnectionPool_getConnection_def p)
  also have "\<dots> = Ret (Some c, \<lparr>ext = s, trace = trace ?w @ replicate n (Got None) @ [Got (Some c)]\<rparr>)"
    by (rule Suc.IH) (use Suc.prems p in \<open>auto dest: spec [of _ "Suc _"]\<close>)
  finally show ?case by simp
qed

text \<open>
  C25: \<open>GetConnection\<close> keeps asking the pool: it returns with the first connection the pool hands
  out, having discarded the failures before it, and when the pool never hands one out it does
  not return at all (the counter of its loop is never changed). It never returns without a
  connection.
\<close>

theorem GetConnection_outcome:
  "GetConnection E w =
     (if \<exists>n. fst (pool_try E n (ext w)) \<noteq> None
      then let n = LEAST n. fst (pool_try E n (ext w)) \<noteq> None in
        Ret (fst (pool_try E n (ext w)),
          \<lparr>ext = snd (pool_try E n (ext w)),
           trace = trace w @ replicate n (Got None) @ [Got (fst (pool_try E n (ext w)))]\<rparr>)
      else Fault NeverReturns)"
proof (cases "\<exists>n. fst (pool_try E n (ext w)) \<noteq> None")
  case True
  let ?n = "LEAST n. fst (pool_try E n (ext w)) \<noteq> None"
  obtain c s where c: "pool_try E ?n (ext w) = (Some c, s)"
    using LeastI_ex [OF True] by (metis not_None_eq prod.collapse)
  have "\<forall>i < ?n. fst (pool_try E i (ext w)) = None"
    using not_less_Least by blast
  from GetConnection_try [OF this c] True c show ?thesis by (simp add: Let_def)
next
  case False
  then have "GetConnection_loop E 3 w = None"
    using GetConnection_loop_try [of E 3 w] by (cases "GetConnection_loop E 3 w") auto
  with False show ?thesis by (simp add: GetConnection_def)
qed

section \<open>Satellite cover\<close>

text \<open>The SNR of a beam among those announced: the last one wins, \<open>-1\<close> stands for none.\<close>

definition announced_snr :: "SateParam list \<Rightarrow> f32 \<Rightarrow> nat \<Rightarrow> f32" where
  "announced_snr sates dflt b =
     (case find (\<lambda>s. beam_id s = int b) (rev sates) of Some s \<Rightarrow> snr s | None \<Rightarrow> dflt)"

lemma announced_snr_Nil [simp]: "announced_snr [] d b = d"
  by (simp add: announced_snr_def)

lemma find_append: "find P (xs @ ys) = (case find P xs of Some x \<Rightarrow> Some x | None \<Rightarrow> find P ys)"
  by (induction xs) auto

lemma announced_snr_Cons:
  "announced_snr (s # ss) d b = announced_snr ss (if beam_id s = int b then snr s else d) b"
  by (auto simp: announced_snr_def find_append split: option.splits)

lemma fill_snr_eq:
  "length temp = MAX_BEAM_NUM \<Longrightarrow> k \<le> length sates \<Longrightarrow>
   fill_snr sates [k..<length sates] temp =
     (if \<forall>s \<in> set (drop k sates). 1 \<le> beam_id s \<and> beam_id s \<le> 10
      then Ret (map (\<lambda>b. announced_snr (drop k sates) (temp ! (b - 1)) b) [1..<MAX_BEAM_NUM + 1])
      else Fault AssertFailed)"
proof (induction "length sates - k" arbitrary: k temp)
  case 0
  then have "map (\<lambda>b. temp ! (b - 1)) [1..<MAX_BEAM_NUM + 1] = temp"
    by (intro nth_equalityI) (auto simp del: upt_Suc)
  with 0 show ?case by simp
next
  case (Suc n)
  let ?s = "sates ! k"
  from Suc.hyps(2) have k: "k < length sates" by simp
  then have d: "drop k sates = ?s # drop (Suc k) sates" by (simp add: Cons_nth_drop_Suc)
  show ?case
  proof (cases "1 \<le> beam_id ?s \<and> beam_id ?s \<le> 10")
    case True
    let ?temp = "temp[nat (beam_id ?s - 1) := snr ?s]"
    have slot: "?temp ! (b - 1) = (if beam_id ?s = int b then snr ?s else temp ! (b - 1))"
      if "b \<in> set [1..<MAX_BEAM_NUM + 1]" for b
      using that True Suc.prems(1) by (auto simp: nth_list_update MAX_BEAM_NUM_def)
    have "fill_snr sates [k..<length sates] temp = fill_snr sates [Suc k..<length sates] ?temp"
      using k True by (simp add: upt_conv_Cons Let_def)
    also have "\<dots> = (if \<forall>s \<in> set (drop (Suc k) sates). 1 \<le> beam_id s \<and> beam_id s \<le> 10
      then Ret (map (\<lambda>b. announced_snr (drop (Suc k) sates) (?temp ! (b - 1)) b) [1..<MAX_BEAM_NUM + 1])
      else Fault AssertFailed)"
      by (rule Suc.hyps(1)) (use Suc k in auto)
    also have "map (\<lambda>b. announced_snr (drop (Suc k) sates) (?temp ! (b - 1)) b) [1..<MAX_BEAM_NUM + 1] =
        map (\<lambda>b. announced_snr (drop k sates) (temp ! (b - 1)) b) [1..<MAX_BEAM_NUM + 1]"
      using slot by (intro map_cong refl) (simp add: d announced_snr_Cons)
    finally show ?thesis using True by (simp add: d)
  next
    case False
    with k show ?thesis by (auto simp: upt_conv_Cons Let_def d)
  qed
qed


text \<open>
  C26: \<open>UpdateSateCover\<close>, called with as many beams as it is told, aborts on a beam number
  outside 1 to 10; otherwise it writes the ten columns with the SNR of the last entry for
  that beam and \<open>-1\<close> where there is none, and returns whether the statement succeeded.
\<close>

theorem UpdateSateCover_slots:
  assumes "unat (sat_cover_num sate) = length (sates_param sate)"
  shows "UpdateSateCover E c u sate w =
    (if \<forall>s \<in> set (sates_param sate). 1 \<le> beam_id s \<and> beam_id s \<le> 10
     then case execute E c (update_cover_sql u
              (map (announced_snr (sates_param sate) f32_minus_one) [1..<MAX_BEAM_NUM + 1])) w of
         (SQLException, w') \<Rightarrow> Ret (False, w') | (Rows _, w') \<Rightarrow> Ret (True, w')
     else Fault AssertFailed)"
proof -
  let ?ss = "sates_param sate"
  let ?slots = "map (announced_snr ?ss f32_minus_one) [1..<MAX_BEAM_NUM + 1]"
  have m: "map (\<lambda>b. announced_snr ?ss (replicate MAX_BEAM_NUM f32_minus_one ! (b - 1)) b)
      [1..<MAX_BEAM_NUM + 1] = ?slots"
    by (intro map_cong refl) (auto simp del: upt_Suc)
  have "fill_snr ?ss [0..<unat (sat_cover_num sate)] (replicate MAX_BEAM_NUM f32_minus_one) =
      (if \<forall>s \<in> set ?ss. 1 \<le> beam_id s \<and> beam_id s \<le> 10 then Ret ?slots else Fault AssertFailed)"
    using fill_snr_eq [of "replicate MAX_BEAM_NUM f32_minus_one" 0 ?ss]
    unfolding assms drop_0 m by simp
  then show ?thesis
    by (simp add: UpdateSateCover_def del: upt_Suc)
qed

lemma cover_loop_eq:
  assumes "\<forall>i \<in> set is. rs_double r i = Some (d i)"
    and "\<forall>i \<in> set is. f64_positive (d i) \<longrightarrow> f32_to_i32 (f64_to_f32 (d i)) = Ret (n i)"
  shows "cover_loop r is acc = Ret (acc @
    map (\<lambda>i. \<lparr>sate_id = (int i + 1) div 2, beam_id = int i, snr = i32_to_f32 (n i)\<rparr>)
      (filter (\<lambda>i. f64_positive (d i)) is))"
  using assms by (induction "is" arbitrary: acc) (auto simp: SateParam3_def)

text \<open>
  C27: \<open>GetSateCover\<close> on a row whose ten columns can be read returns the beams with a positive SNR,
  in order, two beams to a satellite. The SNR it returns is an integer: it went through the
  \<open>int32_t\<close> parameter of the constructor of \<open>SateParam\<close>.
\<close>

theorem GetSateCover_cover:
  assumes "execute E c (select_cover_sql u) w = (Rows (r # rs), w')"
    and "\<forall>i \<in> {1..10}. rs_double r i = Some (d i)"
    and "\<forall>i \<in> {1..10}. f64_positive (d i) \<longrightarrow> f32_to_i32 (f64_to_f32 (d i)) = Ret (n i)"
  shows "GetSateCover E c u w = Ret
    (map (\<lambda>i. \<lparr>sate_id = (int i + 1) div 2, beam_id = int i, snr = i32_to_f32 (n i)\<rparr>)
      (filter (\<lambda>i. f64_positive (d i)) [1..<11]), w')"
  using assms cover_loop_eq [of "[1..<11]" r d n "[]"]
  by (simp add: GetSateCover_def MAX_BEAM_NUM_def)


theorem UpdateSateCover_slots_witness:
  "UpdateSateCover demo_env 7 1 \<lparr>grand_cover = 0, sat_cover_num = 2, sates_param =
     [\<lparr>sate_id = 2, beam_id = 3, snr = 0\<rparr>, \<lparr>sate_id = 6, beam_id = 11, snr = 0\<rparr>]\<rparr> demo_world =
   Fault AssertFailed"
  by (subst UpdateSateCover_slots) simp_all

theorem GetSateCover_cover_witness:
  "\<exists>w'. GetSateCover demo_env 7 1 demo_world =
     Ret ([\<lparr>sate_id = 1, beam_id = 1, snr = 0x41400000\<rparr>], w')"
proof -
  let ?r = "row_of demo_lit (map (column_of (demo_cover 1 ''12.000000'')) (map SNR [1..<11]))"
  let ?d = "\<lambda>i::nat. if i = 1 then 0x4028000000000000 else 0xBFF0000000000000 :: f64"
  have e: "execute demo_env 7 (select_cover_sql 1) demo_world =
      (Rows [?r], snd (execute demo_env 7 (select_cover_sql 1) demo_world))"
    by (simp add: execute_def demo_env_def memory_env_def demo_world_def demo_memory_def
        select_cover_sql_def demo_cover_def matches_def MAX_BEAM_NUM_def)
  have d: "\<forall>i \<in> {1..10}. rs_double ?r i = Some (?d i)" by code_simp
  have n: "\<forall>i \<in> {1..10}. f64_positive (?d i) \<longrightarrow> f32_to_i32 (f64_to_f32 (?d i)) = Ret 12"
  proof -
    have "f32_to_i32 (f64_to_f32 0x4028000000000000) = Ret 12"
      and "\<not> f64_positive 0xBFF0000000000000" by code_simp+
    then show ?thesis by auto
  qed
  have f: "map (\<lambda>i. \<lparr>sate_id = (int i + 1) div 2, beam_id = int i, snr = i32_to_f32 12\<rparr>)
      (filter (\<lambda>i. f64_positive (?d i)) [1..<11]) = [\<lparr>sate_id = 1, beam_id = 1, snr = 0x41400000\<rparr>]"
    by code_simp
  show ?thesis using GetSateCover_cover [OF e d n] unfolding f by blast
qed

end
