(* ===== verification/Liveness.thy ===== *)
theory Liveness
  imports Handler DatabaseFacts
begin

text \<open>
  That requests are processed to their end: one lemma per handler, put together for the
  entry point, and the requests that are not.
\<close>

section \<open>When the environment answers\<close>

text \<open>
  The look-ups of the environment end without undefined behaviour: no SNR is too large for an
  \<open>int32_t\<close>, and no text column holds an SQL NULL.
\<close>

definition answers :: "'s environment \<Rightarrow> bool" where
  "answers E \<longleftrightarrow>
     (\<forall>c u w. returns (GetSateCover E c u w)) \<and>
     (\<forall>c src dst f out w. returns (GetOfflineMessage E c src dst f out w))"

text \<open>What each type of frame has to contain.\<close>

definition beams_in_range :: "SateParam list \<Rightarrow> bool" where
  "beams_in_range ss \<longleftrightarrow> (\<forall>s \<in> set ss. 1 \<le> beam_id s \<and> beam_id s \<le> 10)"

definition covers_in_range :: "ControlHead \<Rightarrow> bool" where
  "covers_in_range h =
     (case read_cover (c_str (head_bytes h)) of
        Ret sate \<Rightarrow> beams_in_range (sates_param sate) | Fault e \<Rightarrow> False)"

lemma covers_in_range_iff:
  "covers_in_range h \<longleftrightarrow> (\<exists>sate. cover_of h sate \<and> beams_in_range (sates_param sate))"
  by (auto simp: covers_in_range_def cover_of_def split: res.splits)

definition well_formed :: "ControlHead \<Rightarrow> bool" where
  "well_formed h =
     (case signal_of (ch_type h) of
        Some Login \<Rightarrow> covers_in_range h
      | Some MOBILE_MANAGER_REQUEST \<Rightarrow> covers_in_range h
      | Some SIMPLE_MESSAGE \<Rightarrow> length (cut_nul (ch_content h)) \<le> 1011
      | Some COMPLETE_MESSAGE \<Rightarrow> length (cut_nul (ch_content h)) \<le> 1011
      | Some RECEIPTE \<Rightarrow> 2 \<le> length (ch_content h)
      | _ \<Rightarrow> True)"

section \<open>Every handler returns\<close>

lemma read_beams_length: "read_beams p pos k acc = Ret ss \<Longrightarrow> length ss = length acc + k"
  by (induction p pos k acc rule: read_beams.induct) (auto simp: bindR_eq_Ret_iff)

lemma UpdateSateCover_returns:
  assumes "cover_of h sate" and "beams_in_range (sates_param sate)"
  shows "\<exists>ok w'. UpdateSateCover E c u sate w = Ret (ok, w')"
proof -
  have "length (sates_param sate) = unat (sat_cover_num sate)"
    using assms(1) by (auto simp: cover_of_iff dest: read_beams_length)
  from fill_snr_eq [of "replicate MAX_BEAM_NUM f32_minus_one" 0 "sates_param sate"] this
  obtain temp where "fill_snr (sates_param sate) [0..<unat (sat_cover_num sate)]
      (replicate MAX_BEAM_NUM f32_minus_one) = Ret temp"
    using assms(2) by (auto simp: beams_in_range_def simp del: upt_Suc)
  then show ?thesis
    by (auto simp: UpdateSateCover_def split: prod.split answer.split)
qed

lemma ProcessLogin_returns:
  assumes "cover_of h sate" and "beams_in_range (sates_param sate)" and "returns (GetConnection E w)"
  shows "returns (ProcessLogin E sh (c_str (head_bytes h)) w)"
proof -
  obtain c w0 where "GetConnection E w = Ret (Some c, w0)"
    using assms(3) by (metis GetConnection_trace returns_iff surj_pair)
  moreover obtain ex w1 where "IsExistUser E c (sender h) w0 = (ex, w1)" by fastforce
  moreover obtain ok w2 where "UpdateSateCover E c (sender h) sate w1 = Ret (ok, w2)"
    using UpdateSateCover_returns [OF assms(1,2)] by blast
  ultimately show ?thesis using assms(1)
    by (cases sate) (auto simp: ProcessLogin_def head_fields cover_of_iff sender_def ResponseEncode_eq
        Let_def split: prod.split)
qed

lemma ProcessMobileRequest_returns:
  assumes "cover_of h sate" and "beams_in_range (sates_param sate)" and "returns (GetConnection E w)"
  shows "returns (ProcessMobileRequest E sh (c_str (head_bytes h)) w)"
proof -
  obtain c w0 where "GetConnection E w = Ret (Some c, w0)"
    using assms(3) by (metis GetConnection_trace returns_iff surj_pair)
  moreover obtain ok w2 where "UpdateSateCover E c (sender h) sate w0 = Ret (ok, w2)"
    using UpdateSateCover_returns [OF assms(1,2)] by blast
  ultimately show ?thesis using assms(1)
    by (cases sate) (auto simp: ProcessMobileRequest_def head_fields cover_of_iff sender_def ResponseEncode_eq Let_def)
qed

lemma ProcessLogout_returns:
  assumes "answers E" and "returns (GetConnection E w)"
  shows "returns (ProcessLogout E sh (c_str (head_bytes h)) w)"
proof -
  obtain c w0 where "GetConnection E w = Ret (Some c, w0)"
    using assms(2) by (metis GetConnection_trace returns_iff surj_pair)
  moreover obtain ss w1 where "GetSateCover E c (sint (sender h)) w0 = Ret (ss, w1)"
    using assms(1) by (metis answers_def returns_iff surj_pair)
  ultimately show ?thesis
    by (auto simp: ProcessLogout_def head_fields sender_def ResponseEncode_eq Let_def UpdateSateCover_def
        no_cover_def split: prod.split answer.split)
qed

lemma InsertStoreMessage_returns:
  "\<exists>ok w'. InsertStoreMessage E c (Some (c_str (head_bytes h))) w = Ret (ok, w')"
  by (auto simp: InsertStoreMessage_def head_fields head_content_cut split: prod.split answer.split)

lemma InsertOfflineMessage_returns:
  "\<exists>ok w'. InsertOfflineMessage E c (Some (c_str (head_bytes h))) w = Ret (ok, w')"
  by (auto simp: InsertOfflineMessage_def head_fields head_content_cut split: prod.split answer.split)

lemma ProcessSimpleMessage_returns:
  assumes "answers E" and "returns (GetConnection E w)" and "length (cut_nul (ch_content h)) \<le> 1011"
  shows "returns (ProcessSimpleMessage E sh (c_str (head_bytes h)) w)"
proof -
  obtain c w0 where "GetConnection E w = Ret (Some c, w0)"
    using assms(2) by (metis GetConnection_trace returns_iff surj_pair)
  moreover obtain ok w1 where "InsertStoreMessage E c (Some (c_str (head_bytes h))) w0 = Ret (ok, w1)"
    using InsertStoreMessage_returns by blast
  moreover obtain ss w2 where "GetSateCover E c (sint (receiver h)) w1 = Ret (ss, w2)"
    using assms(1) by (metis answers_def returns_iff surj_pair)
  ultimately show ?thesis using assms(3)
    by (auto simp: ProcessSimpleMessage_def head_fields receiver_def MessageEncode_head_request Let_def)
qed

lemma ProcessCompleteMessage_returns:
  assumes "answers E" and "returns (GetConnection E w)" and "length (cut_nul (ch_content h)) \<le> 1011"
  shows "returns (ProcessCompleteMessage E sh (c_str (head_bytes h)) w)"
proof -
  obtain c w0 where "GetConnection E w = Ret (Some c, w0)"
    using assms(2) by (metis GetConnection_trace returns_iff surj_pair)
  moreover obtain ok w1 where "InsertOfflineMessage E c (Some (c_str (head_bytes h))) w0 = Ret (ok, w1)"
    using InsertOfflineMessage_returns by blast
  moreover obtain ss w2 where "GetSateCover E c (sint (receiver h)) w1 = Ret (ss, w2)"
    using assms(1) by (metis answers_def returns_iff surj_pair)
  moreover obtain ts w3 where "GetSateCover E c (sint (sender h)) w2 = Ret (ts, w3)"
    using assms(1) by (metis answers_def returns_iff surj_pair)
  ultimately show ?thesis using assms(3)
    by (auto simp: ProcessCompleteMessage_def head_fields receiver_def sender_def
        MessageEncode_head_request ResponseEncode_eq Let_def)
qed

lemma ProcessReceipt_returns:
  assumes "answers E" and "returns (GetConnection E w)" and "2 \<le> length (ch_content h)"
  shows "returns (ProcessReceipt E junk (c_str (head_bytes h)) w)"
proof -
  obtain c w0 where "GetConnection E w = Ret (Some c, w0)"
    using assms(2) by (metis GetConnection_trace returns_iff surj_pair)
  moreover obtain rt f where rt: "ack_receipt_type (c_str (head_bytes h)) = Ret rt"
      and f: "ack_frame_id (c_str (head_bytes h)) = Ret f"
    using assms(3) by (simp add: ack_receipt_type_def ack_frame_id_def ld_defs content_offset_def)
  moreover obtain found out w1 where
    "GetOfflineMessage E c (receiver h) (sender h) (ntohs f) junk w0 = Ret (found, out, w1)"
    using assms(1) by (metis answers_def returns_iff surj_pair)
  ultimately show ?thesis
    by (cases out) (auto simp: ProcessReceipt_def head_fields receiver_def sender_def Let_def
        split: prod.split)
qed

text \<open>
  C7: A request of at least twelve bytes is processed to its end (no access outside a buffer,
  no failed assertion, no null pointer, no endless loop) whenever the pool hands out a
  connection, the look-ups of the environment answer, and the frame contains what its type
  asks for: all the beams it announces, numbered 1 to 10, for a login or a move; a text of at
  most 1011 bytes for a message; the two fields of the acknowledgement for a receipt.
\<close>

theorem AccessToLogic_returns:
  assumes "returns (GetConnection E w)" and "answers E" and "well_formed h"
  shows "returns (AccessToLogic E sh junk (head_bytes h) w)"
proof (cases "signal_of (ch_type h)")
  case None
  then show ?thesis by (simp add: AccessToLogic_def head_fields)
next
  case (Some t)
  then show ?thesis
    using assms ProcessLogin_returns ProcessMobileRequest_returns ProcessLogout_returns
      ProcessSimpleMessage_returns ProcessCompleteMessage_returns ProcessReceipt_returns [of E w h junk]
    by (cases t) (auto simp: AccessToLogic_def head_fields well_formed_def covers_in_range_iff
        ProcessForwardNoAckMessage_def ProcessBackwardNoAckMessage_def)
qed

text \<open>The small server answers.\<close>

lemma cover_loop_returns:
  assumes "\<forall>i d. rs_double r i = Some d \<longrightarrow> f64_positive d \<longrightarrow> returns (f32_to_i32 (f64_to_f32 d))"
  shows "returns (cover_loop r is acc)"
proof (induction "is" arbitrary: acc)
  case Nil
  then show ?case by simp
next
  case (Cons i "is")
  then show ?case using assms [rule_format, of i]
    by (auto simp: SateParam3_def returns_bindR returns_iff bindR_eq_Ret_iff split: option.splits)
qed

lemma row_of_double: "rs_double (row_of lit vs) i = Some d \<Longrightarrow> \<exists>s. d = lit s"
  by (auto simp: row_of_def split: if_splits sql_val.splits)

lemma row_of_string: "rs_string (row_of lit vs) i \<noteq> Some None"
  by (auto simp: row_of_def split: if_splits sql_val.splits)

lemma result_of_row_of: "r \<in> set (result_of lit q db) \<Longrightarrow> \<exists>vs. r = row_of lit vs"
  by (cases q) auto

lemma memory_GetSateCover_returns:
  assumes "\<forall>s. f64_positive (lit s) \<longrightarrow> returns (f32_to_i32 (f64_to_f32 (lit s)))"
  shows "returns (GetSateCover (memory_env lit reachable) c u w)"
proof -
  let ?rs = "result_of lit (select_cover_sql u) (mem_tables (ext w))"
  obtain w1 where e: "execute (memory_env lit reachable) c (select_cover_sql u) w = (Rows ?rs, w1)"
    by (simp add: execute_def memory_env_def)
  show ?thesis
  proof (cases ?rs)
    case Nil
    then show ?thesis by (simp add: GetSateCover_def e)
  next
    case (Cons r rs)
    then obtain vs where r: "r = row_of lit vs" using result_of_row_of [of r] by (metis list.set_intros(1))
    have "returns (cover_loop r [1..<MAX_BEAM_NUM + 1] [])"
      by (rule cover_loop_returns) (use assms r row_of_double in metis)
    with Cons show ?thesis by (auto simp: GetSateCover_def e returns_bindR returns_iff simp del: upt_Suc)
  qed
qed

lemma memory_GetOfflineMessage_returns:
  "returns (GetOfflineMessage (memory_env lit reachable) c src dst f out w)"
proof -
  let ?rs = "result_of lit (select_offline_sql src dst f) (mem_tables (ext w))"
  obtain w1 where e: "execute (memory_env lit reachable) c (select_offline_sql src dst f) w = (Rows ?rs, w1)"
    by (simp add: execute_def memory_env_def)
  show ?thesis
  proof (cases ?rs)
    case Nil
    then show ?thesis by (simp add: GetOfflineMessage_def e)
  next
    case (Cons r rs)
    then obtain vs where "r = row_of lit vs" using result_of_row_of [of r] by (metis list.set_intros(1))
    then have "rs_string r 5 \<noteq> Some None" by (simp add: row_of_string)
    then have "returns (row_item r)" by (auto simp: row_item_def split: option.split)
    then obtain item where "row_item r = Ret item" by (rule returnsE)
    with Cons show ?thesis
      by (auto simp: GetOfflineMessage_def e split: option.splits)
  qed
qed

lemma memory_answers:
  assumes "\<forall>s. f64_positive (lit s) \<longrightarrow> returns (f32_to_i32 (f64_to_f32 (lit s)))"
  shows "answers (memory_env lit reachable)"
  using memory_GetSateCover_returns [OF assms] memory_GetOfflineMessage_returns
  by (auto simp: answers_def)

lemma demo_answers: "answers demo_env"
proof -
  have "returns (f32_to_i32 (f64_to_f32 0x4028000000000000))"
    and "\<not> f64_positive 0xBFF0000000000000" by code_simp+
  then show ?thesis unfolding demo_env_def by (intro memory_answers) (auto simp: demo_lit_def)
qed

theorem AccessToLogic_returns_witness:
  "returns (AccessToLogic demo_env demo_schedule demo_junk
     (head_bytes (demo_frame 0x60 [72, 105])) demo_world)"
proof (rule AccessToLogic_returns)
  show "returns (GetConnection demo_env demo_world)" by code_simp
  show "answers demo_env" by (rule demo_answers)
  show "well_formed (demo_frame 0x60 [72, 105])" by code_simp
qed

text \<open>
  C30: A beam number outside 1 to 10 in a request aborts the server: for a move whoever sends it,
  for a login when the user exists.
\<close>

theorem beams_out_of_range_abort:
  assumes "cover_of h sate" and "sat_cover_num sate \<noteq> 0" and "\<not> beams_in_range (sates_param sate)"
    and "GetConnection E w = Ret (Some c, w0)"
  shows "ProcessMobileRequest E sh (c_str (head_bytes h)) w = Fault AssertFailed \<and>
    (fst (IsExistUser E c (sender h) w0) \<longrightarrow>
       ProcessLogin E sh (c_str (head_bytes h)) w = Fault AssertFailed)"
proof -
  have "unat (sat_cover_num sate) = length (sates_param sate)"
    using assms(1) by (auto simp: cover_of_iff dest: read_beams_length)
  then have "slots (sat_cover_num sate) (sates_param sate) = Fault AssertFailed"
    using fill_snr_eq [of "replicate MAX_BEAM_NUM f32_minus_one" 0 "sates_param sate"] assms(3)
    by (auto simp: slots_def beams_in_range_def simp del: upt_Suc)
  then have u: "UpdateSateCover E c u sate w1 = Fault AssertFailed" for u w1
    by (simp add: UpdateSateCover_def slots_def)
  obtain ex w1 where "IsExistUser E c (sender h) w0 = (ex, w1)" by fastforce
  with u assms(1,2,4) show ?thesis
    by (cases sate) (auto simp: ProcessMobileRequest_def ProcessLogin_def head_fields cover_of_iff
        sender_def Let_def)
qed

theorem beams_out_of_range_abort_witness:
  "ProcessMobileRequest demo_env demo_schedule
     (c_str (head_bytes (demo_frame 3 (demo_cover_text 11)))) demo_world = Fault AssertFailed"
proof -
  let ?h = "demo_frame 3 (demo_cover_text 11)"
  let ?sate = "\<lparr>grand_cover = 0, sat_cover_num = 1,
      sates_param = [\<lparr>sate_id = 1, beam_id = 11, snr = 0x41400000\<rparr>]\<rparr>"
  have "cover_of ?h ?sate" and "sat_cover_num ?sate \<noteq> 0" and "\<not> beams_in_range (sates_param ?sate)"
    by code_simp+
  from beams_out_of_range_abort [OF this demo_connection] show ?thesis by blast
qed

end
