(* ===== verification/QosDaemon.thy ===== *)
theory QosDaemon
  imports Sessions
begin

text \<open>
  \<open>src/tools/qos_send_daemon.cpp\<close>: the thread that sends the messages of \<open>message_cache\<close>
  again until their receipt comes or their retries are used up.
\<close>

record QosSendDaemon =
  qos_stop :: bool
  qos_max_retry_count :: i32
  qos_check_interval :: i32
  qos_msg_interval :: i32
  qos_database :: bool  \<comment> \<open>the pointer is set\<close>

definition QosSendDaemon_new :: QosSendDaemon where
  "QosSendDaemon_new =
     \<lparr>qos_stop = False, qos_max_retry_count = 0, qos_check_interval = 0, qos_msg_interval = 0, qos_database = False\<rparr>"

definition QosSendDaemon_Stop :: "QosSendDaemon \<Rightarrow> QosSendDaemon" where
  "QosSendDaemon_Stop q = q\<lparr>qos_stop := True\<rparr>"

record qos_setting =
  set_max_retry_count :: "i32 option"
  set_check_interval :: "i32 option"
  set_msg_interval :: "i32 option"

text \<open>\<open>lookupValue\<close> writes its argument only when it finds the key.\<close>

definition QosSendDaemon_Init :: "qos_setting \<Rightarrow> QosSendDaemon \<Rightarrow> bool \<times> QosSendDaemon" where
  "QosSendDaemon_Init s q =
     (case set_max_retry_count s of None \<Rightarrow> (False, q) | Some n \<Rightarrow>
      let q = q\<lparr>qos_max_retry_count := n\<rparr> in
      case set_check_interval s of None \<Rightarrow> (False, q) | Some n \<Rightarrow>
      let q = q\<lparr>qos_check_interval := n\<rparr> in
      case set_msg_interval s of None \<Rightarrow> (False, q) | Some n \<Rightarrow>
      (True, q\<lparr>qos_msg_interval := n, qos_stop := False, qos_database := True\<rparr>))"

section \<open>One round\<close>

fun resend :: "'s environment \<Rightarrow> schedule \<Rightarrow> conn \<Rightarrow> MessageItem list \<Rightarrow> 's world \<Rightarrow> 's world res" where
  "resend E sh conn [] w = Ret w"
| "resend E sh conn (message # rest) w =
     (let user_id = msg_to_id message in
      bindR (GetSateCover E conn (sint user_id) w) (\<lambda>(sates, w).
      if sates = [] then resend E sh conn rest w
      else bindR (MessageEncode_item message) (\<lambda>str.
           resend E sh conn rest (snd (SendMessage E sh (msg_to_id message) str sates 5 w)))))"

definition qos_round :: "'s environment \<Rightarrow> schedule \<Rightarrow> QosSendDaemon \<Rightarrow> 's world \<Rightarrow> 's world res" where
  "qos_round E sh q w =
     (if \<not> qos_database q then Fault NullPointer
      else bindR (GetConnection E w) (\<lambda>(conn, w).
      case conn of None \<Rightarrow> Fault NullPointer
      | Some conn \<Rightarrow>
      bindR (GetAllOfflineMessage E conn (qos_max_retry_count q) (qos_msg_interval q) [] w)
        (\<lambda>(messages, w).
      bindR (resend E sh conn messages w) (\<lambda>w.
      let w = Connection_close E conn w in
      Ret (sleep E (qos_check_interval q) w)))))"

text \<open>
  \<open>Start\<close> tests \<open>stop_\<close>, which \<open>Stop\<close> sets from another thread: \<open>n\<close> is the number of tests
  that still find it false.
\<close>

fun QosSendDaemon_Start ::
  "'s environment \<Rightarrow> schedule \<Rightarrow> QosSendDaemon \<Rightarrow> nat \<Rightarrow> 's world \<Rightarrow> 's world res" where
  "QosSendDaemon_Start E sh q 0 w = Ret w"
| "QosSendDaemon_Start E sh q (Suc n) w =
     (if qos_stop q then Ret w
      else bindR (qos_round E sh q w) (QosSendDaemon_Start E sh q n))"

section \<open>The calls of a round\<close>

text \<open>The frame a cached message is sent in.\<close>

definition resent_frame :: "MessageItem \<Rightarrow> bytes" where
  "resent_frame m =
     message_wire (htonl (msg_to_id m)) (htonl (msg_from_id m)) (htons (msg_frame_id m))
       (msg_type m) (msg_retain m) @ msg_content m @ [0]"

inductive resend_calls ::
  "'s environment \<Rightarrow> schedule \<Rightarrow> conn \<Rightarrow> MessageItem list \<Rightarrow> event list \<Rightarrow> bool"
  for E sh c where
  resend_Nil: "resend_calls E sh c [] []"
| resend_Cons: "GetSateCover E c (sint (msg_to_id m)) w1 = Ret (sates, w2) \<Longrightarrow>
     sent sh (msg_to_id m) (resent_frame m) sates 5 out \<Longrightarrow>
     resend_calls E sh c ms es \<Longrightarrow>
     resend_calls E sh c (m # ms) ([Sql c (select_cover_sql (sint (msg_to_id m))) b] @ out @ es)"

inductive_cases resend_NilE: "resend_calls E sh c [] es"
inductive_cases resend_ConsE: "resend_calls E sh c (m # ms) es"

lemma resend_steps:
  "(\<forall>m \<in> set ms. 0 \<notin> set (msg_content m)) \<Longrightarrow>
   emits (resend E sh c ms w) w (resend_calls E sh c ms)"
proof (induction ms arbitrary: w)
  case Nil
  then show ?case by (auto intro: emits_Ret resend_Nil)
next
  case (Cons m ms)
  have "emits (resend E sh c (m # ms) w) w (resend_calls E sh c (m # ms))"
    unfolding resend.simps Let_def
  proof (rule emits_rules, rule emits_rules)
    fix sates b w1 assume g: "GetSateCover E c (sint (msg_to_id m)) w = Ret (sates, w1)"
    note step = resend_Cons [OF g _ _, where b = b]
    show "emits (if sates = [] then resend E sh c ms w1
        else bindR (MessageEncode_item m) (\<lambda>str.
          resend E sh c ms (snd (SendMessage E sh (msg_to_id m) str sates 5 w1)))) w1
        (\<lambda>es. resend_calls E sh c (m # ms) ([Sql c (select_cover_sql (sint (msg_to_id m))) b] @ es))"
    proof (cases "sates = []")
      case True
      have "emits (resend E sh c ms w1) w1 (resend_calls E sh c ms)"
        by (rule Cons.IH) (use Cons.prems in simp)
      then show ?thesis using True step [where out = "[]" and ms = ms and sh = sh] by (auto elim: emits_mono)
    next
      case False
      obtain out where out: "sent sh (msg_to_id m) (resent_frame m) sates 5 out"
        "trace (snd (SendMessage E sh (msg_to_id m) (resent_frame m) sates 5 w1)) = trace w1 @ out"
        by (rule SendMessage_sent [OF GetSateCover_real [OF g]])
      have "emits (resend E sh c ms (snd (SendMessage E sh (msg_to_id m) (resent_frame m) sates 5 w1)))
          (snd (SendMessage E sh (msg_to_id m) (resent_frame m) sates 5 w1)) (resend_calls E sh c ms)"
        by (rule Cons.IH) (use Cons.prems in simp)
      then show ?thesis using False Cons.prems step [OF out(1)] out(2)
        by (auto simp: MessageEncode_item_eq resent_frame_def emits_Fault
            intro: emits_step elim!: emits_mono)
    qed
  qed
  then show ?case .
qed

text \<open>Messages come out of a row without a zero byte and with \<open>retain\<close> zero.\<close>

lemma row_item_fields: "row_item r = Ret (Some m) \<Longrightarrow> 0 \<notin> set (msg_content m) \<and> msg_retain m = 0"
  by (auto simp: row_item_def split: option.splits)

text \<open>
  A round: the connection, the selection, the update of the counter of each selected message,
  and only then the messages, one look-up of beams and at most one call each.
\<close>

inductive round_calls :: "'s environment \<Rightarrow> schedule \<Rightarrow> QosSendDaemon \<Rightarrow> event list \<Rightarrow> bool"
  for E sh q where
  round_done: "acquired c got \<Longrightarrow> length oks = length mns \<Longrightarrow> (\<forall>i. Suc i < length oks \<longrightarrow> oks ! i) \<Longrightarrow>
     (b \<or> mns = []) \<Longrightarrow> resend_calls E sh c (map fst mns) out \<Longrightarrow>
     round_calls E sh q
       (got @ [Clock t, Sql c (select_retry_sql (qos_max_retry_count q) t) b] @
        map2 (retry_event c t (qos_msg_interval q)) mns oks @ out @ [Closed c, Slept (qos_check_interval q)])"

lemma GetAllOfflineMessage_trace:
  assumes "GetAllOfflineMessage E c mx iv [] w = Ret (ms, w')"
  obtains t b mns oks where "ms = map fst mns" and "length oks = length mns"
    and "\<forall>i. Suc i < length oks \<longrightarrow> oks ! i" and "b \<or> mns = []"
    and "\<forall>m \<in> set ms. 0 \<notin> set (msg_content m)"
    and "trace w' = trace w @ [Clock t, Sql c (select_retry_sql mx t) b] @
           map2 (retry_event c t iv) mns oks"
proof -
  obtain t w1 where t: "time_NULL E w = (t, w1)" by fastforce
  note tr = trace_calls(6) [OF t]
  show thesis
  proof (cases rule: execute_cases [of E c "select_retry_sql mx t" w1])
    case (exception w2)
    with assms t have "ms = []" "w' = w2" by (auto simp: GetAllOfflineMessage_def)
    with exception tr show thesis by (intro that [of "[]" "[]" False]) auto
  next
    case (rows rs w2)
    with assms t have "retry_loop E c t iv rs [] w2 = Ret (ms, w')"
      by (simp add: GetAllOfflineMessage_def)
    from retry_loop_trace [OF this] obtain mns oks where l: "ms = map fst mns"
      "length oks = length mns" "\<forall>i < length mns. row_item (rs ! i) = Ret (Some (fst (mns ! i)))"
      "\<forall>i. Suc i < length oks \<longrightarrow> oks ! i" "trace w' = trace w2 @ map2 (retry_event c t iv) mns oks"
      by auto
    have "\<forall>m \<in> set ms. 0 \<notin> set (msg_content m)"
      using l(1,3) by (fastforce simp: in_set_conv_nth dest: row_item_fields)
    with l rows tr show thesis by (intro that [of mns oks True]) auto
  qed
qed

lemma emits_GetAllOfflineMessage [emits_rules]:
  assumes "\<And>t b mns oks w1. length oks = length mns \<Longrightarrow> (\<forall>i. Suc i < length oks \<longrightarrow> oks ! i) \<Longrightarrow>
      (b \<or> mns = []) \<Longrightarrow> \<forall>m \<in> set (map fst mns). 0 \<notin> set (msg_content m) \<Longrightarrow>
      emits (f (map fst mns, w1)) w1
        (\<lambda>es. Q (([Clock t, Sql c (select_retry_sql mx t) b] @ map2 (retry_event c t iv) mns oks) @ es))"
  shows "emits (bindR (GetAllOfflineMessage E c mx iv [] w) f) w Q"
proof (rule emits_bind, clarify)
  fix ms w1 assume "GetAllOfflineMessage E c mx iv [] w = Ret (ms, w1)"
  then show "emits (f (ms, w1)) w Q"
  proof (rule GetAllOfflineMessage_trace)
    fix t b mns oks
    assume "ms = map fst mns" "length oks = length mns" "\<forall>i. Suc i < length oks \<longrightarrow> oks ! i"
      "b \<or> mns = []" "\<forall>m \<in> set ms. 0 \<notin> set (msg_content m)"
      and tr: "trace w1 = trace w @ [Clock t, Sql c (select_retry_sql mx t) b] @
         map2 (retry_event c t iv) mns oks"
    with assms [of oks mns b w1 t] show "emits (f (ms, w1)) w Q"
      by (intro emits_step [OF tr]) simp
  qed
qed

lemma emits_resend [emits_rules]:
  assumes "\<forall>m \<in> set ms. 0 \<notin> set (msg_content m)"
    and "\<And>es w1. resend_calls E sh c ms es \<Longrightarrow> emits (f w1) w1 (\<lambda>es'. Q (es @ es'))"
  shows "emits (bindR (resend E sh c ms w) f) w Q"
proof (rule emits_bind)
  fix w1 assume "resend E sh c ms w = Ret w1"
  with resend_steps [OF assms(1), of E sh c w] obtain es where
    "trace w1 = trace w @ es" "resend_calls E sh c ms es" by (auto simp: emits_def)
  with assms(2) show "emits (f w1) w Q" by (blast intro: emits_step)
qed

lemma emits_sleep_Ret [emits_rules]: "Q [Slept n] \<Longrightarrow> emits (Ret (sleep E n w)) w Q"
  by (auto simp: emits_def trace_calls)

lemma qos_round_calls: "emits (qos_round E sh q w) w (round_calls E sh q)"
  unfolding qos_round_def
  by ((rule emits_rules | assumption |
       (drule round_done, assumption+, simp only: append_assoc append_Cons append_Nil; fail))+)
text \<open>A run of \<open>Start\<close> is a sequence of such rounds, one per test of \<open>stop_\<close>.\<close>

lemma QosDaemon_Start_calls:
  "emits (QosSendDaemon_Start E sh q n w) w
     (\<lambda>es. \<exists>ess. es = concat ess \<and> (\<forall>r \<in> set ess. round_calls E sh q r) \<and>
        length ess = (if qos_stop q then 0 else n))"
proof (induction n arbitrary: w)
  case 0
  then show ?case by (auto intro!: emits_Ret exI [of _ "[]"])
next
  case (Suc n)
  show ?case
  proof (cases "qos_stop q")
    case True
    then show ?thesis by (auto intro!: emits_Ret exI [of _ "[]"])
  next
    case False
    have "emits (bindR (qos_round E sh q w) (QosSendDaemon_Start E sh q n)) w
        (\<lambda>es. \<exists>ess. es = concat ess \<and> (\<forall>r \<in> set ess. round_calls E sh q r) \<and> length ess = Suc n)"
    proof (rule emits_bind)
      fix w1 assume "qos_round E sh q w = Ret w1"
      with qos_round_calls [of E sh q w] obtain r where
        r: "trace w1 = trace w @ r" "round_calls E sh q r" by (auto simp: emits_def)
      have "emits (QosSendDaemon_Start E sh q n w1) w1
          (\<lambda>es. \<exists>ess. r @ es = concat ess \<and> (\<forall>r \<in> set ess. round_calls E sh q r) \<and> length ess = Suc n)"
        by (rule emits_mono [OF Suc.IH]) (use False r(2) in \<open>force intro: exI [of _ "r # _"]\<close>)
      then show "emits (QosSendDaemon_Start E sh q n w1) w
          (\<lambda>es. \<exists>ess. es = concat ess \<and> (\<forall>r \<in> set ess. round_calls E sh q r) \<and> length ess = Suc n)"
        by (rule emits_step [OF r(1)])
    qed
    with False show ?thesis by simp
  qed
qed

section \<open>Properties\<close>

text \<open>The statements that raise a retry counter.\<close>

fun is_recount :: "event \<Rightarrow> bool" where
  "is_recount (Sql c (Update Message_cache cvs cs) b) = True"
| "is_recount _ = False"

lemma held_recounts [held_simps]:
  "length oks = length mns \<Longrightarrow> held busy (Some c) (map2 (retry_event c t iv) mns oks) = Some (Some c)"
  by (induction oks mns rule: list_induct2) (simp_all add: retry_event_def)

lemma rpcs_recounts [simp]: "rpcs (map2 (retry_event c t iv) mns oks) = []"
  by (induction mns oks rule: list_induct2') (simp_all add: retry_event_def)

lemma recounts_counted:
  "length oks = length mns \<Longrightarrow> filter is_recount (map2 (retry_event c t iv) mns oks) = map2 (retry_event c t iv) mns oks"
  by (induction oks mns rule: list_induct2) (simp_all add: retry_event_def update_retry_sql_def)

lemma held_resend [held_simps]:
  "resend_calls E sh c ms out \<Longrightarrow> held True (Some c) out = Some (Some c)"
  by (induction rule: resend_calls.induct) (auto simp: held_simps)

lemma rpcs_resend: "resend_calls E sh c ms out \<Longrightarrow> length (rpcs out) \<le> length ms"
  by (induction rule: resend_calls.induct) (auto dest: rpcs_sent)

lemma acquired_no_recount: "acquired c got \<Longrightarrow> filter is_recount got = []"
  by (auto simp: acquired_def)

lemma round_disciplined: "round_calls E sh q es \<Longrightarrow> disciplined True es"
  by (induction rule: round_calls.induct) (auto simp: disciplined_def held_simps)

lemma round_counted:
  "round_calls E sh q es \<Longrightarrow> length (rpcs es) \<le> length (filter is_recount es)"
  by (induction rule: round_calls.induct)
    (auto simp: recounts_counted acquired_no_recount dest!: rpcs_resend intro: le_trans)

lemma rounds_counted:
  "\<forall>r \<in> set ess. round_calls E sh q r \<Longrightarrow>
   length (rpcs (concat ess)) \<le> length (filter is_recount (concat ess))"
  by (induction ess) (auto simp: add_mono dest: round_counted)

text \<open>A daemon, and a server with one message waiting.\<close>

definition demo_qos :: QosSendDaemon where
  "demo_qos = \<lparr>qos_stop = False, qos_max_retry_count = 3, qos_check_interval = 2, qos_msg_interval = 10,
     qos_database = True\<rparr>"

definition demo_waiting :: "memory world" where
  "demo_waiting =
     \<lparr>ext = demo_memory\<lparr>mem_tables := (mem_tables demo_memory)(Message_cache :=
        [[(Retry_num, VInt 0), (From_user, VInt 1), (To_user, VInt 2), (Type, VInt 0x60),
          (Text, VStr [72, 105]), (Recv_time, VTime 80), (Frame_id, VInt 9),
          (Retry_time, VTime 90)]])\<rparr>,
      trace = []\<rparr>"





end
