(* ===== verification/Tables.thy ===== *)
theory Tables
  imports Handler QosDaemon DatabaseFacts
begin

text \<open>
  What the calls of the server do to the tables of a database server that keeps the laws of
  \<open>sql_server\<close>. The tables after any run are the tables before it with the successful statements
  of the trace applied in order (\<open>replay\<close>): with the theorems about the calls of the handlers this
  gives the effect of each request on the tables.
\<close>

section \<open>Replaying a trace\<close>

fun event_effect :: "(table \<Rightarrow> record_row) \<Rightarrow> event \<Rightarrow> tables \<Rightarrow> tables" where
  "event_effect dflt (Sql c q True) db = effect dflt q db"
| "event_effect dflt e db = db"

definition replay :: "(table \<Rightarrow> record_row) \<Rightarrow> event list \<Rightarrow> tables \<Rightarrow> tables" where
  "replay dflt es db = fold (event_effect dflt) es db"

named_theorems replay_simps "what groups of calls do to the tables"

lemma replay_Nil [simp]: "replay dflt [] db = db"
  by (simp add: replay_def)

lemma replay_Cons [replay_simps]: "replay dflt (e # es) db = replay dflt es (event_effect dflt e db)"
  by (simp add: replay_def)

lemma replay_append [replay_simps]: "replay dflt (es @ fs) db = replay dflt fs (replay dflt es db)"
  by (simp add: replay_def)

lemma event_effect_False [replay_simps]: "event_effect dflt (Sql c q False) db = db"
  by simp

lemma event_effect_Sql:
  "event_effect dflt (Sql c q b) db = (if b then effect dflt q db else db)"
  by (cases b) simp_all

lemma event_effect_reads [replay_simps]:
  "event_effect dflt (Sql c (Select cols t cs) b) db = db"
  "event_effect dflt (Sql c (SelectAll t cs) b) db = db"
  "event_effect dflt (Sql c (SelectCount t cs) b) db = db"
  by (cases b; simp)+

lemma replay_no_sql [replay_simps]:
  "\<forall>c q b. Sql c q b \<notin> set es \<Longrightarrow> replay dflt es db = db"
proof (induction es)
  case Nil
  then show ?case by simp
next
  case (Cons e es)
  then show ?case by (cases e) (auto simp: replay_Cons)
qed

lemma replay_acquired [replay_simps]: "acquired c got \<Longrightarrow> replay dflt got db = db"
  by (rule replay_no_sql) (simp add: acquired_no_sql)

lemma replay_sent [replay_simps]: "sent sh u str ss l out \<Longrightarrow> replay dflt out db = db"
  by (rule replay_no_sql) (rule sent_no_sql)

section \<open>Runs whose tables are replayed\<close>

text \<open>
  \<open>follows db dflt w w'\<close>: the tables of \<open>w'\<close> are those of \<open>w\<close> with the events in between replayed;
  \<open>tracks db dflt r w\<close>: so they are when the run \<open>r\<close>, started in \<open>w\<close>, returns.
\<close>

definition follows :: "('s \<Rightarrow> tables) \<Rightarrow> (table \<Rightarrow> record_row) \<Rightarrow> 's world \<Rightarrow> 's world \<Rightarrow> bool" where
  "follows db dflt w w' \<longleftrightarrow>
     (\<exists>es. trace w' = trace w @ es \<and> db (ext w') = replay dflt es (db (ext w)))"

definition tracks :: "('s \<Rightarrow> tables) \<Rightarrow> (table \<Rightarrow> record_row) \<Rightarrow> 's world res \<Rightarrow> 's world \<Rightarrow> bool" where
  "tracks db dflt r w \<longleftrightarrow> (\<forall>w'. r = Ret w' \<longrightarrow> follows db dflt w w')"

lemma follows_refl [simp]: "follows db dflt w w"
  by (simp add: follows_def)

lemma follows_trans: "follows db dflt u v \<Longrightarrow> follows db dflt v w \<Longrightarrow> follows db dflt u w"
  by (auto simp: follows_def replay_append)

lemma follows_event:
  assumes "trace w' = trace w @ [e]" and "db (ext w') = event_effect dflt e (db (ext w))"
  shows "follows db dflt w w'"
  using assms by (auto simp: follows_def replay_def)

lemma follows_replay: "follows db dflt w w' \<Longrightarrow> db (ext w') = replay dflt (events w w') (db (ext w))"
  by (auto simp: follows_def events_def)

lemma tracks_extends: "tracks db dflt r w \<Longrightarrow> r = Ret w' \<Longrightarrow> extends w w'"
  by (auto simp: tracks_def follows_def extends_def)

named_theorems tracks_rules "how to work through a handler, for the tables"

lemma tracks_Ret [tracks_rules]: "tracks db dflt (Ret w) w"
  by (simp add: tracks_def)

lemma tracks_Fault [tracks_rules]: "tracks db dflt (Fault e) w"
  by (simp add: tracks_def)

lemma tracks_step: "follows db dflt w w1 \<Longrightarrow> tracks db dflt r w1 \<Longrightarrow> tracks db dflt r w"
  by (auto simp: tracks_def intro: follows_trans)

lemma tracks_RetI: "follows db dflt w w' \<Longrightarrow> tracks db dflt (Ret w') w"
  by (simp add: tracks_def)

lemma tracks_bind:
  "(\<And>x. m = Ret x \<Longrightarrow> tracks db dflt (f x) w) \<Longrightarrow> tracks db dflt (bindR m f) w"
  by (auto simp: tracks_def bindR_eq_Ret_iff)

lemma tracks_bind_Ret: "tracks db dflt (f x) w \<Longrightarrow> tracks db dflt (bindR (Ret x) f) w"
  by simp

lemma tracks_bind_run:
  "tracks db dflt m w \<Longrightarrow> (\<And>w1. tracks db dflt (f w1) w1) \<Longrightarrow> tracks db dflt (bindR m f) w"
  by (auto simp: tracks_def bindR_eq_Ret_iff intro: follows_trans)

lemma tracks_bind_world:
  assumes "\<And>x w1. m = Ret (x, w1) \<Longrightarrow> follows db dflt w w1"
    and "\<And>x w1. tracks db dflt (f (x, w1)) w1"
  shows "tracks db dflt (bindR m f) w"
  using assms by (auto simp: tracks_def bindR_eq_Ret_iff intro: follows_trans)

lemma tracks_bind_world3:
  assumes "\<And>x y w1. m = Ret (x, y, w1) \<Longrightarrow> follows db dflt w w1"
    and "\<And>x y w1. tracks db dflt (f (x, y, w1)) w1"
  shows "tracks db dflt (bindR m f) w"
  using assms by (auto simp: tracks_def bindR_eq_Ret_iff intro: follows_trans)

lemma tracks_case_world:
  assumes "\<And>x w1. m = (x, w1) \<Longrightarrow> follows db dflt w w1" and "\<And>x w1. tracks db dflt (f x w1) w1"
  shows "tracks db dflt (case m of (x, w1) \<Rightarrow> f x w1) w"
  using assms by (cases m) (auto intro: tracks_step)

lemma tracks_let: "tracks db dflt (f v) w \<Longrightarrow> tracks db dflt (let x = v in f x) w"
  by simp

lemma tracks_if [tracks_rules]:
  "(b \<Longrightarrow> tracks db dflt r1 w) \<Longrightarrow> (\<not> b \<Longrightarrow> tracks db dflt r2 w) \<Longrightarrow>
   tracks db dflt (if b then r1 else r2) w"
  by simp

lemma tracks_option [tracks_rules]:
  "tracks db dflt n w \<Longrightarrow> (\<And>x. tracks db dflt (f x) w) \<Longrightarrow>
   tracks db dflt (case c of None \<Rightarrow> n | Some x \<Rightarrow> f x) w"
  by (cases c) simp_all

lemma tracks_nested_pair [tracks_rules]:
  "(\<And>a b. tracks db dflt (f a b w) w) \<Longrightarrow> tracks db dflt ((case p of (a, b) \<Rightarrow> \<lambda>w. f a b w) w) w"
  by (cases p) simp

lemma tracks_pair [tracks_rules]:
  "tracks db dflt (f a b) w \<Longrightarrow> tracks db dflt (case (a, b) of (x, y) \<Rightarrow> f x y) w"
  by simp

section \<open>The operations of the database\<close>

context sql_server
begin

lemma follows_execute:
  assumes "execute E c q w = (a, w')"
  shows "follows db dflt w w'"
proof (rule follows_event)
  show "trace w' = trace w @ [Sql c q (succeeded a)]" using assms by (rule trace_calls)
  show "db (ext w') = event_effect dflt (Sql c q (succeeded a)) (db (ext w))"
    using assms by (cases rule: execute_db) simp_all
qed

text \<open>A function that runs one statement and looks at the answer.\<close>

lemma follows_answer:
  assumes "(case execute E c q w of (a, w1) \<Rightarrow> f a w1) = r"
    and "\<And>a w1. f a w1 = r \<Longrightarrow> w' = w1"
  shows "follows db dflt w w'"
  using assms follows_execute by (cases "execute E c q w") auto

lemma follows_calls:
  "ConnectionPool_getConnection E w = (c', w') \<Longrightarrow> follows db dflt w w'"
  "follows db dflt w (Connection_close E c w)"
  "follows db dflt w (Connection_clear E c w)"
  "time_NULL E w = (t, w') \<Longrightarrow> follows db dflt w w'"
  "call_rpc E ad m w = (ok, w') \<Longrightarrow> follows db dflt w w'"
  "follows db dflt w (sleep E n w)"
  by (auto intro!: follows_event simp: trace_calls calls_db)

lemma db_pool_try: "db (snd (pool_try E n s)) = db s"
  using pool_db by (induction n arbitrary: s) simp_all

lemma follows_GetConnection:
  assumes "GetConnection E w = Ret (conn, w')"
  shows "follows db dflt w w'"
proof -
  obtain n where "w' = \<lparr>ext = snd (pool_try E n (ext w)),
      trace = trace w @ replicate n (Got None) @ [Got (fst (pool_try E n (ext w)))]\<rparr>"
    using assms GetConnection_outcome [of E w] by (auto simp: Let_def split: if_splits)
  moreover have "replay dflt (replicate n (Got None) @ [Got x]) d = d" for x d
    by (rule replay_no_sql) simp
  ultimately show ?thesis by (auto simp: follows_def db_pool_try)
qed

text \<open>The operations that are one statement, with the clock read before some of them.\<close>

lemma follows_statements:
  "UpdateSateCover E c u sate w = Ret (ok, w') \<Longrightarrow> follows db dflt w w'"
  "GetSateCover E c v w = Ret (sates, w') \<Longrightarrow> follows db dflt w w'"
  "GetOfflineMessageNum E c u w = (n, w') \<Longrightarrow> follows db dflt w w'"
  "IsExistUser E c u w = (ex, w') \<Longrightarrow> follows db dflt w w'"
  "DeleteOfflineMessage E c x y z w = (del, w') \<Longrightarrow> follows db dflt w w'"
  "GetOfflineMessage E c x y z out w = Ret (found, out', w') \<Longrightarrow> follows db dflt w w'"
  unfolding UpdateSateCover_def GetSateCover_def GetOfflineMessageNum_def IsExistUser_def
    DeleteOfflineMessage_def GetOfflineMessage_def
  by ((erule bindR_RetE)?; erule follows_answer;
      auto simp: bindR_eq_Ret_iff split: answer.splits list.splits option.splits)+

text \<open>The insertions also read the clock.\<close>

lemma follows_timed:
  assumes "(case time_NULL E w of (t, w1) \<Rightarrow> f t w1) = r"
    and "\<And>t w1. f t w1 = r \<Longrightarrow> follows db dflt w1 w'"
  shows "follows db dflt w w'"
proof (cases "time_NULL E w")
  case (Pair t w1)
  with assms follows_calls(4) [OF Pair] show ?thesis by (auto intro: follows_trans)
qed

lemma follows_timed_statements:
  "InsertStoreMessage E c p w = Ret (ok, w') \<Longrightarrow> follows db dflt w w'"
  "InsertOfflineMessage E c p w = Ret (ok', w') \<Longrightarrow> follows db dflt w w'"
  "InsertStoreMessage_item E c msg rt w = (ok'', w') \<Longrightarrow> follows db dflt w w'"
  unfolding InsertStoreMessage_def InsertOfflineMessage_def InsertStoreMessage_item_def Let_def
  by ((cases p; simp; elim exE conjE bindR_RetE)?; (elim bindR_RetE)?; erule follows_timed;
      (elim bindR_RetE)?; erule follows_answer; auto split: answer.splits)+

lemma follows_SendMessage: "follows db dflt w (snd (SendMessage E m u str sates l w))"
proof (cases "SendMessage E m u str sates l w")
  case (Pair ok w')
  then show ?thesis
    by (auto simp: SendMessage_def split: prod.splits if_splits dest: follows_calls(5))
qed

lemma follows_retry_loop:
  "retry_loop E c now iv rs ms w = Ret (ms', w') \<Longrightarrow> follows db dflt w w'"
proof (induction rs arbitrary: ms w)
  case Nil
  then show ?case by simp
next
  case (Cons r rs)
  then obtain item where i: "row_item r = Ret item" by (auto simp: bindR_eq_Ret_iff)
  show ?case
  proof (cases "item = None \<or> rs_int r 6 = None")
    case True
    with Cons.prems i show ?thesis by (auto split: option.splits)
  next
    case False
    then obtain m n where m: "item = Some m" "rs_int r 6 = Some n" by auto
    with Cons.prems i obtain k where k: "incr_i32 n = Ret k" by (auto simp: bindR_eq_Ret_iff)
    obtain a w1 where e: "execute E c (update_retry_sql k (now + k * iv) m) w = (a, w1)" by fastforce
    then have "follows db dflt w1 w'"
      using Cons i m k by (cases a) (auto simp: Let_def)
    with follows_execute [OF e] show ?thesis by (rule follows_trans)
  qed
qed

lemma follows_GetAllOfflineMessage:
  assumes "GetAllOfflineMessage E c mx iv ms w = Ret (ms', w')"
  shows "follows db dflt w w'"
proof (cases "time_NULL E w")
  case (Pair t w1)
  obtain a w2 where e: "execute E c (select_retry_sql mx t) w1 = (a, w2)" by fastforce
  have "follows db dflt w2 w'"
    using assms Pair e by (cases a) (auto simp: GetAllOfflineMessage_def dest: follows_retry_loop)
  with follows_calls(4) [OF Pair] follows_execute [OF e] show ?thesis by (blast intro: follows_trans)
qed

lemma tracks_reads_and_writes:
  "(\<And>x w1. tracks db dflt (f1 (x, w1)) w1) \<Longrightarrow> tracks db dflt (bindR (GetConnection E w) f1) w"
  "(\<And>x w1. tracks db dflt (f2 (x, w1)) w1) \<Longrightarrow> tracks db dflt (bindR (UpdateSateCover E c u sate w) f2) w"
  "(\<And>x w1. tracks db dflt (f3 (x, w1)) w1) \<Longrightarrow> tracks db dflt (bindR (GetSateCover E c v w) f3) w"
  "(\<And>x w1. tracks db dflt (f4 (x, w1)) w1) \<Longrightarrow> tracks db dflt (bindR (InsertStoreMessage E c p w) f4) w"
  "(\<And>x w1. tracks db dflt (f5 (x, w1)) w1) \<Longrightarrow> tracks db dflt (bindR (InsertOfflineMessage E c p w) f5) w"
  "(\<And>x w1. tracks db dflt (f6 (x, w1)) w1) \<Longrightarrow> tracks db dflt (bindR (GetAllOfflineMessage E c mx iv ms w) f6) w"
  by (erule tracks_bind_world [rotated], erule follows_GetConnection follows_statements
      follows_timed_statements follows_GetAllOfflineMessage)+

lemma tracks_GetOfflineMessage:
  "(\<And>found out w1. tracks db dflt (f (found, out, w1)) w1) \<Longrightarrow>
   tracks db dflt (bindR (GetOfflineMessage E c x y z junk w) f) w"
  by (erule tracks_bind_world3 [rotated], erule follows_statements)

lemma tracks_total_operations:
  "(\<And>r w1. tracks db dflt (g7 r w1) w1) \<Longrightarrow>
     tracks db dflt (case GetOfflineMessageNum E c u w of (r, w1) \<Rightarrow> g7 r w1) w"
  "(\<And>r w1. tracks db dflt (g8 r w1) w1) \<Longrightarrow>
     tracks db dflt (case IsExistUser E c u w of (r, w1) \<Rightarrow> g8 r w1) w"
  "(\<And>r w1. tracks db dflt (g9 r w1) w1) \<Longrightarrow>
     tracks db dflt (case DeleteOfflineMessage E c x y z w of (r, w1) \<Rightarrow> g9 r w1) w"
  "(\<And>r w1. tracks db dflt (g10 r w1) w1) \<Longrightarrow>
     tracks db dflt (case InsertStoreMessage_item E c msg rt w of (r, w1) \<Rightarrow> g10 r w1) w"
  by (erule tracks_case_world [rotated], erule follows_statements follows_timed_statements)+

lemmas tracks_operations = tracks_reads_and_writes tracks_GetOfflineMessage tracks_total_operations
  tracks_RetI [OF follows_calls(2)] tracks_RetI [OF follows_calls(3)] tracks_RetI [OF follows_calls(6)]
  tracks_RetI [OF follows_SendMessage]

lemma tracks_let_close:
  "(\<And>w1. tracks db dflt (f w1) w1) \<Longrightarrow> tracks db dflt (let w1 = Connection_close E c w in f w1) w"
  by (auto intro: tracks_step [OF follows_calls(2)])

lemma tracks_bind_Ret_send:
  "(\<And>w1. tracks db dflt (f w1) w1) \<Longrightarrow>
   tracks db dflt (bindR (Ret (snd (SendMessage E m u str sates l w))) f) w"
  by (auto intro: tracks_step [OF follows_SendMessage])

section \<open>Requests and rounds\<close>

lemma tracks_handlers:
  "tracks db dflt (ProcessLogin E sh p w) w"
  "tracks db dflt (ProcessLogout E sh p w) w"
  "tracks db dflt (ProcessMobileRequest E sh p w) w"
  "tracks db dflt (ProcessSimpleMessage E sh p w) w"
  "tracks db dflt (ProcessCompleteMessage E sh p w) w"
  "tracks db dflt (ProcessReceipt E junk p w) w"
  unfolding ProcessLogin_def ProcessLogout_def ProcessMobileRequest_def ProcessSimpleMessage_def
    ProcessCompleteMessage_def ProcessReceipt_def bindR_push
  by ((rule tracks_rules tracks_operations tracks_let_close tracks_bind_Ret_send tracks_bind_Ret
        tracks_let tracks_bind |
       simp only: prod.case bindR.simps)+)

lemma tracks_AccessToLogic: "tracks db dflt (AccessToLogic E sh junk req w) w"
  unfolding AccessToLogic_def Let_def
proof (intro tracks_if tracks_Ret tracks_bind)
  fix t
  show "tracks db dflt (case signal_of t of
        Some Login \<Rightarrow> ProcessLogin E sh (c_str req) w
      | Some Logout \<Rightarrow> ProcessLogout E sh (c_str req) w
      | Some MOBILE_MANAGER_REQUEST \<Rightarrow> ProcessMobileRequest E sh (c_str req) w
      | Some SIMPLE_MESSAGE \<Rightarrow> ProcessSimpleMessage E sh (c_str req) w
      | Some FORWARD_NOACK_MESSAGE \<Rightarrow> ProcessForwardNoAckMessage (c_str req) w
      | Some BACKWARD_NOACK_MESSAGE \<Rightarrow> ProcessBackwardNoAckMessage (c_str req) w
      | Some COMPLETE_MESSAGE \<Rightarrow> ProcessCompleteMessage E sh (c_str req) w
      | Some INQUIRE_MESSAGE_REQUEST \<Rightarrow> Ret w
      | Some RECEIPTE \<Rightarrow> ProcessReceipt E junk (c_str req) w
      | None \<Rightarrow> Ret w) w"
    by (simp add: tracks_handlers tracks_Ret ProcessForwardNoAckMessage_def
        ProcessBackwardNoAckMessage_def split: option.split SignalType.split)
qed

lemma tracks_resend: "tracks db dflt (resend E sh c ms w) w"
proof (induction ms arbitrary: w)
  case Nil
  then show ?case by (simp add: tracks_Ret)
next
  case (Cons m ms)
  show ?case unfolding resend.simps
    by (rule tracks_let tracks_operations tracks_rules tracks_bind Cons.IH
        tracks_step [OF follows_SendMessage] | simp only: prod.case)+
qed

lemma tracks_close_sleep: "tracks db dflt (Ret (sleep E n (Connection_close E c w))) w"
  by (rule tracks_RetI [OF follows_trans [OF follows_calls(2) follows_calls(6)]])

lemma tracks_qos_round: "tracks db dflt (qos_round E sh q w) w"
  unfolding qos_round_def Let_def
  by (rule tracks_close_sleep tracks_operations tracks_rules tracks_bind_run tracks_resend |
      simp only: prod.case)+

lemma tracks_QosSendDaemon_Start: "tracks db dflt (QosSendDaemon_Start E sh q n w) w"
  by (induction n arbitrary: w) (auto intro: tracks_Ret tracks_bind_run tracks_qos_round)

text \<open>The tables after a request or a run of the daemon, from the trace.\<close>

lemma AccessToLogic_replay:
  assumes "AccessToLogic E sh junk (head_bytes h) w = Ret w'"
  shows "db (ext w') = replay dflt (events w w') (db (ext w))"
    and "request_calls E sh junk h w (events w w')"
  using tracks_AccessToLogic [of sh junk "head_bytes h" w] access.events_calls [OF assms] assms
  by (auto simp: tracks_def intro: follows_replay)

end

end
