(* ===== verification/Meter.thy ===== *)
theory Meter
  imports Environment
begin

text \<open>
  Sequences of operations on the world, and a potential argument over them: the interface \<open>metered\<close>,
  which the retransmission daemon and the whole server interpret for each message.
\<close>

section \<open>Failed statements\<close>

fun is_failure :: "event \<Rightarrow> bool" where
  "is_failure (Sql c q b) = (\<not> b)"
| "is_failure _ = False"

definition failures :: "event list \<Rightarrow> nat" where
  "failures es = length (filter is_failure es)"

lemma failures_simps [simp]:
  "failures [] = 0" "failures (es @ fs) = failures es + failures fs"
  "failures (e # es) = (if is_failure e then Suc (failures es) else failures es)"
  by (simp_all add: failures_def)

section \<open>Sequences of operations\<close>

fun run_all :: "('op \<Rightarrow> 'x \<Rightarrow> 'x res) \<Rightarrow> 'op list \<Rightarrow> 'x \<Rightarrow> 'x res" where
  "run_all step [] x = Ret x"
| "run_all step (op # ops) x = bindR (step op x) (run_all step ops)"

lemma run_all_append:
  "run_all step (ops @ ops') = (\<lambda>x. bindR (run_all step ops x) (run_all step ops'))"
  by (induction ops) (rule ext, simp add: bindR_assoc)+

lemma events_trans:
  "extends u v \<Longrightarrow> extends v w \<Longrightarrow> events u w = events u v @ events v w"
  by (auto simp: extends_def events_def)

lemma events_self [simp]: "events w w = []"
  by (simp add: events_def)

section \<open>The potential\<close>

text \<open>
  The states have a world in them. \<open>load\<close> counts the rows of a message, \<open>adds\<close> how many an operation can
  add, \<open>left\<close> the retries the rows have left, and \<open>queued\<close> what is about to be sent already. What an operation
  costs is paid by what is left or queued, by a fixed price for each row it adds, and by its failed statements;
  without a row only by what is queued.
\<close>

locale metered =
  fixes step :: "'op \<Rightarrow> 'x \<Rightarrow> 'x res" and world_of :: "'x \<Rightarrow> 's world" and inv :: "'x \<Rightarrow> bool"
    and load left queued :: "'x \<Rightarrow> nat" and adds :: "'op \<Rightarrow> nat" and price :: nat
    and cost :: "event list \<Rightarrow> nat"
  assumes cost_append: "cost (es @ fs) = cost es + cost fs"
    and step_extends: "step op x = Ret x' \<Longrightarrow> extends (world_of x) (world_of x')"
    and step_inv: "inv x \<Longrightarrow> step op x = Ret x' \<Longrightarrow> inv x'"
    and step_load: "inv x \<Longrightarrow> step op x = Ret x' \<Longrightarrow> load x' \<le> load x + adds op"
    and step_cost: "inv x \<Longrightarrow> load x + adds op \<le> 1 \<Longrightarrow> step op x = Ret x' \<Longrightarrow>
          cost (events (world_of x) (world_of x')) + left x' + queued x'
            \<le> left x + queued x + price * adds op + failures (events (world_of x) (world_of x'))"
    and step_idle: "inv x \<Longrightarrow> load x = 0 \<Longrightarrow> adds op = 0 \<Longrightarrow> step op x = Ret x' \<Longrightarrow>
          cost (events (world_of x) (world_of x')) + queued x' \<le> queued x"
begin

lemma cost_Nil [simp]: "cost [] = 0"
  using cost_append [of "[]" "[]"] by simp

lemma run_keeps:
  "inv x \<Longrightarrow> run_all step ops x = Ret x' \<Longrightarrow>
     extends (world_of x) (world_of x') \<and> inv x' \<and> load x' \<le> load x + sum_list (map adds ops)"
proof (induction ops arbitrary: x)
  case Nil
  then show ?case by simp
next
  case (Cons op ops)
  then obtain y where y: "step op x = Ret y" "run_all step ops y = Ret x'"
    by (auto simp: bindR_eq_Ret_iff)
  with Cons have "extends (world_of y) (world_of x') \<and> inv x' \<and> load x' \<le> load y + sum_list (map adds ops)"
    using step_inv by blast
  with y(1) step_extends step_load Cons.prems(1) show ?case
    by (fastforce intro: extends_trans)
qed

lemma run_split:
  assumes "inv x" and "step op x = Ret y" and "run_all step ops y = Ret x'"
  shows "inv y" and "load y \<le> load x + adds op"
    and "events (world_of x) (world_of x') = events (world_of x) (world_of y) @ events (world_of y) (world_of x')"
  using step_inv step_load step_extends events_trans run_keeps assms by blast+

lemma run_cost:
  "inv x \<Longrightarrow> load x + sum_list (map adds ops) \<le> 1 \<Longrightarrow> run_all step ops x = Ret x' \<Longrightarrow>
     cost (events (world_of x) (world_of x')) + left x' + queued x'
       \<le> left x + queued x + price * sum_list (map adds ops) + failures (events (world_of x) (world_of x'))"
proof (induction ops arbitrary: x)
  case Nil
  then show ?case by simp
next
  case (Cons op ops)
  then obtain y where y: "step op x = Ret y" "run_all step ops y = Ret x'"
    by (auto simp: bindR_eq_Ret_iff)
  note split = run_split [OF Cons.prems(1) y]
  have "cost (events (world_of x) (world_of y)) + left y + queued y
      \<le> left x + queued x + price * adds op + failures (events (world_of x) (world_of y))"
    using step_cost [OF Cons.prems(1) _ y(1)] Cons.prems(2) by simp
  moreover have "cost (events (world_of y) (world_of x')) + left x' + queued x'
      \<le> left y + queued y + price * sum_list (map adds ops) + failures (events (world_of y) (world_of x'))"
    using Cons.IH [OF split(1) _ y(2)] Cons.prems(2) split(2) by simp
  ultimately show ?case by (simp add: split(3) cost_append algebra_simps)
qed

lemma run_idle:
  "inv x \<Longrightarrow> load x = 0 \<Longrightarrow> sum_list (map adds ops) = 0 \<Longrightarrow> run_all step ops x = Ret x' \<Longrightarrow>
     cost (events (world_of x) (world_of x')) + queued x' \<le> queued x"
proof (induction ops arbitrary: x)
  case Nil
  then show ?case by simp
next
  case (Cons op ops)
  then obtain y where y: "step op x = Ret y" "run_all step ops y = Ret x'"
    by (auto simp: bindR_eq_Ret_iff)
  note split = run_split [OF Cons.prems(1) y]
  have "cost (events (world_of x) (world_of y)) + queued y \<le> queued x"
    using step_idle [OF Cons.prems(1,2) _ y(1)] Cons.prems(3) by simp
  moreover have "cost (events (world_of y) (world_of x')) + queued x' \<le> queued y"
    using Cons.IH [OF split(1) _ _ y(2)] split(2) Cons.prems(2,3) by simp
  ultimately show ?case by (simp add: split(3) cost_append)
qed

end

end
