(* ===== verification/Cache.thy ===== *)
theory Cache
  imports Tables Meter
begin

text \<open>
  The rows of \<open>message_cache\<close>: the types of their columns, the key that names a message, and what
  the retransmission daemon does to them. On a server that keeps the laws of \<open>sql_server\<close> the
  loop over the selected rows is a fold of updates by key (\<open>recount\<close>).
\<close>

section \<open>Typed rows\<close>

fun int_in :: "(int \<Rightarrow> bool) \<Rightarrow> sql_val option \<Rightarrow> bool" where
  "int_in P (Some (VInt n)) = P n"
| "int_in P _ = False"

fun is_text :: "sql_val option \<Rightarrow> bool" where
  "is_text (Some (VStr s)) = True"
| "is_text _ = False"

fun is_time :: "sql_val option \<Rightarrow> bool" where
  "is_time (Some (VTime t)) = True"
| "is_time _ = False"

definition byte_range :: "int \<Rightarrow> bool" where "byte_range n \<longleftrightarrow> 0 \<le> n \<and> n < 0x100"
definition short_range :: "int \<Rightarrow> bool" where "short_range n \<longleftrightarrow> 0 \<le> n \<and> n < 0x10000"

text \<open>What the program writes into a row, and expects when it reads one.\<close>

definition cache_row :: "record_row \<Rightarrow> bool" where
  "cache_row r \<longleftrightarrow>
     int_in in32 (map_of r From_user) \<and> int_in in32 (map_of r To_user) \<and>
     int_in byte_range (map_of r Type) \<and> is_text (map_of r Text) \<and> is_time (map_of r Recv_time) \<and>
     int_in short_range (map_of r Frame_id) \<and> int_in (\<lambda>n. True) (map_of r Retry_num) \<and>
     is_time (map_of r Retry_time)"

definition cache_ok :: "tables \<Rightarrow> bool" where
  "cache_ok db \<longleftrightarrow> list_all cache_row (db Message_cache)"

lemma int_in_iff: "int_in P v \<longleftrightarrow> (\<exists>n. v = Some (VInt n) \<and> P n)"
  by (cases "(P, v)" rule: int_in.cases) auto

lemma is_text_iff: "is_text v \<longleftrightarrow> (\<exists>s. v = Some (VStr s))"
  by (cases v rule: is_text.cases) auto

lemma is_time_iff: "is_time v \<longleftrightarrow> (\<exists>t. v = Some (VTime t))"
  by (cases v rule: is_time.cases) auto

lemmas typed_iffs = int_in_iff is_text_iff is_time_iff

section \<open>Keys\<close>

text \<open>A message is named by its sender, its receiver and its frame number.\<close>

type_synonym key = "u32 \<times> u32 \<times> u16"

definition int_column :: "record_row \<Rightarrow> column \<Rightarrow> int" where
  "int_column r c = (case map_of r c of Some (VInt n) \<Rightarrow> n | _ \<Rightarrow> 0)"

definition row_key :: "record_row \<Rightarrow> key" where
  "row_key r = (word_of_int (int_column r From_user), word_of_int (int_column r To_user),
     word_of_int (int_column r Frame_id))"

fun key_conds :: "key \<Rightarrow> cond list" where
  "key_conds (src, dst, f) = cache_key src dst f"

definition msg_key :: "MessageItem \<Rightarrow> key" where
  "msg_key m = (msg_from_id m, msg_to_id m, msg_frame_id m)"

definition retries :: "record_row \<Rightarrow> int" where
  "retries r = int_column r Retry_num"

lemma sint_eq_iff_word_of_int: "in32 n \<Longrightarrow> n = sint (u :: u32) \<longleftrightarrow> word_of_int n = u"
  by (auto simp: in32_def signed_of_int signed_take_bit_int_eq_self)

lemma uint_eq_iff_word_of_int: "short_range n \<Longrightarrow> n = uint (u :: u16) \<longleftrightarrow> word_of_int n = u"
  by (auto simp: short_range_def unsigned_of_int take_bit_int_eq_self)

lemma matches_key: "cache_row r \<Longrightarrow> matches (key_conds k) r \<longleftrightarrow> row_key r = k"
  by (cases k) (auto simp: cache_row_def typed_iffs matches_def cache_key_def row_key_def int_column_def
      sint_eq_iff_word_of_int uint_eq_iff_word_of_int)

lemma matches_retry_key:
  assumes "cache_row r"
  shows "(case update_retry_sql n t m of Update _ _ cs \<Rightarrow> matches cs r | _ \<Rightarrow> False) \<longleftrightarrow>
    row_key r = msg_key m"
  using matches_key [OF assms, of "msg_key m"]
  by (auto simp: msg_key_def update_retry_sql_def cache_key_def matches_def)

text \<open>The message a row holds.\<close>

definition row_message :: "record_row \<Rightarrow> MessageItem" where
  "row_message r =
     \<lparr>msg_to_id = word_of_int (int_column r To_user), msg_from_id = word_of_int (int_column r From_user),
      msg_frame_id = word_of_int (int_column r Frame_id), msg_type = word_of_int (int_column r Type),
      msg_retain = 0,
      msg_content = (case map_of r Text of Some (VStr s) \<Rightarrow> cut_nul s | _ \<Rightarrow> [])\<rparr>"

lemma msg_key_row_message [simp]: "msg_key (row_message r) = row_key r"
  by (simp add: msg_key_def row_message_def row_key_def)

definition retry_row :: "(string \<Rightarrow> f64) \<Rightarrow> record_row \<Rightarrow> row" where
  "retry_row lit r = row_of lit (map (column_of r) [To_user, From_user, Frame_id, Type, Text, Retry_num])"

lemma retry_row_item:
  assumes "cache_row r"
  shows "row_item (retry_row lit r) = Ret (Some (row_message r))"
    and "rs_int (retry_row lit r) 6 = Some (retries r)"
  using assms by (auto simp: cache_row_def typed_iffs retry_row_def row_of_def row_item_def column_of_def
      row_message_def int_column_def retries_def)

section \<open>Raising the counters\<close>

text \<open>The update of a selected row, on all rows with its key.\<close>

definition bump :: "time_t \<Rightarrow> time_t \<Rightarrow> int \<Rightarrow> record_row \<Rightarrow> record_row" where
  "bump now interval n r =
     assign [(Retry_num, VInt (n + 1)), (Retry_time, VTime (now + (n + 1) * interval))] r"

definition recount :: "time_t \<Rightarrow> time_t \<Rightarrow> record_row \<Rightarrow> record_row list \<Rightarrow> record_row list" where
  "recount now interval s rows =
     map (\<lambda>r. if row_key r = row_key s then bump now interval (retries s) r else r) rows"

lemma map_of_assign:
  "map_of (assign cvs r) c =
     map_option (\<lambda>v. case map_of cvs c of Some v' \<Rightarrow> v' | None \<Rightarrow> v) (map_of r c)"
  by (induction r) (auto simp: assign_def split: option.split)

lemma bump_columns:
  "c \<noteq> Retry_num \<Longrightarrow> c \<noteq> Retry_time \<Longrightarrow> map_of (bump now iv n r) c = map_of r c"
  by (cases "map_of r c") (simp_all add: bump_def map_of_assign)

lemma row_key_bump [simp]: "row_key (bump now iv n r) = row_key r"
  by (simp add: row_key_def int_column_def bump_columns)

lemma cache_row_bump: "cache_row r \<Longrightarrow> cache_row (bump now iv n r)"
  by (auto simp: cache_row_def bump_columns typed_iffs) (auto simp: bump_def map_of_assign)

lemma retries_bump: "cache_row r \<Longrightarrow> retries (bump now iv n r) = n + 1"
  by (auto simp: cache_row_def typed_iffs retries_def int_column_def bump_def map_of_assign)

lemma recount_effect:
  assumes "cache_ok db" and "cache_row s"
  shows "effect dflt (update_retry_sql (retries s + 1) (now + (retries s + 1) * iv) (row_message s)) db =
    db(Message_cache := recount now iv s (db Message_cache))"
  using assms matches_retry_key [where m = "row_message s"]
  by (auto simp: update_retry_sql_def recount_def bump_def cache_ok_def list_all_iff intro!: map_cong)

lemma recount_ok: "list_all cache_row rows \<Longrightarrow> list_all cache_row (recount now iv s rows)"
  by (auto simp: recount_def list_all_iff cache_row_bump)

section \<open>What the daemon does to the rows\<close>

definition recounted :: "time_t \<Rightarrow> time_t \<Rightarrow> record_row list \<Rightarrow> record_row list \<Rightarrow> record_row list" where
  "recounted now interval sel rows = fold (recount now interval) sel rows"

lemma recounted_simps [simp]:
  "recounted now iv [] rows = rows"
  "recounted now iv (s # sel) rows = recounted now iv sel (recount now iv s rows)"
  by (simp_all add: recounted_def)

lemma recounted_ok: "list_all cache_row rows \<Longrightarrow> list_all cache_row (recounted now iv sel rows)"
  by (induction sel arbitrary: rows) (auto simp: recount_ok)

text \<open>
  How far the loop got: it put the messages of the rows \<open>att\<close> in the output and raised the counters of
  \<open>up\<close>. These are all the selected rows, or the statement for the last of \<open>att\<close> failed.
\<close>

inductive loop_end :: "record_row list \<Rightarrow> record_row list \<Rightarrow> record_row list \<Rightarrow> nat \<Rightarrow> bool" where
  loop_all: "loop_end sel sel sel 0"
| loop_failed: "loop_end (up @ s # rest) (up @ [s]) up 1"

lemma loop_end_Cons: "loop_end sel att up k \<Longrightarrow> loop_end (s # sel) (s # att) (s # up) k"
  by (induction rule: loop_end.induct) (auto intro: loop_all loop_failed [of "_ # _", simplified])

definition due :: "i32 \<Rightarrow> time_t \<Rightarrow> record_row \<Rightarrow> bool" where
  "due mx now r \<longleftrightarrow> matches [(Retry_num, Lt, VInt mx), (Retry_time, Le, VTime now)] r"

lemma due_retries: "cache_row r \<Longrightarrow> due mx now r \<Longrightarrow> retries r < mx"
  by (auto simp: due_def matches_def cache_row_def typed_iffs retries_def int_column_def)

section \<open>How many retries a message has left\<close>

definition with_key :: "key \<Rightarrow> record_row list \<Rightarrow> record_row list" where
  "with_key k rows = filter (\<lambda>r. row_key r = k) rows"

definition remaining :: "i32 \<Rightarrow> key \<Rightarrow> record_row list \<Rightarrow> nat" where
  "remaining mx k rows = (\<Sum>r\<leftarrow>with_key k rows. nat (mx - retries r))"

lemma with_key_simps [simp]:
  "with_key k [] = []"
  "with_key k (xs @ ys) = with_key k xs @ with_key k ys"
  "with_key k (x # xs) = (if row_key x = k then x # with_key k xs else with_key k xs)"
  by (simp_all add: with_key_def)

lemma with_key_recount:
  "with_key k (recount now iv s rows) =
     (if row_key s = k then map (bump now iv (retries s)) (with_key k rows) else with_key k rows)"
  by (induction rows) (auto simp: recount_def)

lemma with_key_recounted:
  "with_key k (recounted now iv sel rows) =
     fold (\<lambda>s. map (bump now iv (retries s))) (with_key k sel) (with_key k rows)"
  by (induction sel arbitrary: rows) (simp_all add: with_key_recount)

lemma length_with_key_recounted [simp]:
  "length (with_key k (recounted now iv sel rows)) = length (with_key k rows)"
proof -
  have "length (fold (\<lambda>s. map (bump now iv (retries s))) ss xs) = length xs" for ss xs
    by (induction ss arbitrary: xs) simp_all
  then show ?thesis by (simp add: with_key_recounted)
qed

lemma loop_end_prefix: "loop_end sel att up f \<Longrightarrow> \<exists>rest. sel = att @ rest"
  by (induction rule: loop_end.induct) auto

text \<open>
  A row is put in the output once: either its counter was raised, which costs the message one of its
  retries, or the statement failed.
\<close>

lemma loop_end_budget:
  assumes "loop_end (filter (due mx now) rows) att up f"
    and "list_all cache_row rows" and "length (with_key k rows) \<le> 1"
  shows "length (with_key k att) + remaining mx k (recounted now iv up rows) \<le> remaining mx k rows + f"
    and "length (with_key k att) \<le> length (with_key k rows)"
proof -
  obtain rest where rest: "filter (due mx now) rows = att @ rest"
    using loop_end_prefix [OF assms(1)] by blast
  have "filter (due mx now) (with_key k rows) = with_key k (filter (due mx now) rows)"
    by (simp add: with_key_def conj_commute)
  then have pre: "filter (due mx now) (with_key k rows) = with_key k att @ with_key k rest"
    by (simp add: rest)
  then have "length (with_key k att) \<le> length (filter (due mx now) (with_key k rows))" by simp
  then show le: "length (with_key k att) \<le> length (with_key k rows)"
    using length_filter_le le_trans by blast
  show "length (with_key k att) + remaining mx k (recounted now iv up rows) \<le> remaining mx k rows + f"
  proof (cases "with_key k att")
    case Nil
    then have "with_key k up = []" using assms(1) by (auto elim: loop_end.cases split: if_splits)
    then show ?thesis by (simp add: Nil remaining_def with_key_recounted)
  next
    case (Cons s ss)
    then have "length (with_key k att) = Suc (length ss)" by simp
    with le assms(3) have "length (with_key k rows) = Suc 0" and "length ss = 0" by linarith+
    then have "length (with_key k rows) = Suc 0" "ss = []" by simp_all
    with pre Cons have one: "with_key k rows = [s]" and due: "due mx now s" and att: "with_key k att = [s]"
      by (auto simp: length_Suc_conv split: if_splits)
    then have s: "cache_row s" "row_key s = k"
      using assms(2) by (auto simp: with_key_def list_all_iff filter_eq_Cons_iff)
    have up: "with_key k up = [s] \<or> with_key k up = [] \<and> f = 1"
      using assms(1) att by cases (auto split: if_splits)
    then show ?thesis using due_retries [OF s(1) due] s retries_bump [OF s(1)]
      by (auto simp: remaining_def with_key_recounted one att)
  qed
qed

context sql_server
begin

lemma retry_loop_tables:
  assumes "retry_loop E c now iv (map (retry_row lit) sel) ms w = Ret (ms', w')"
    and "cache_ok (db (ext w))" and "list_all cache_row sel"
  shows "\<exists>att up es. loop_end sel att up (failures es) \<and> ms' = ms @ map row_message att \<and>
    trace w' = trace w @ es \<and> rpcs es = [] \<and>
    db (ext w') = (db (ext w))(Message_cache := recounted now iv up (db (ext w) Message_cache))"
  using assms
proof (induction sel arbitrary: ms w)
  case Nil
  then show ?case by (intro exI [of _ "[]"]) (auto intro: loop_all)
next
  case (Cons s sel)
  let ?q = "update_retry_sql (retries s + 1) (now + (retries s + 1) * iv) (row_message s)"
  have s: "cache_row s" using Cons.prems(3) by simp
  have inc: "incr_i32 (retries s) = Ret (retries s + 1)"
    using Cons.prems(1) s by (auto simp: retry_row_item bindR_eq_Ret_iff incr_i32_def split: if_splits)
  obtain a w1 where e: "execute E c ?q w = (a, w1)" by fastforce
  note tr = trace_calls(5) [OF e]
  show ?case
  proof (cases rule: execute_db [OF e])
    case 1
    then show ?thesis using Cons.prems(1) s inc e tr loop_failed [of "[]" s sel]
      by (intro exI [of _ "[s]"] exI [of _ "[]"] exI [of _ "[Sql c ?q False]"])
        (auto simp: retry_row_item)
  next
    case 2
    then have d: "db (ext w1) = (db (ext w))(Message_cache := recount now iv s (db (ext w) Message_cache))"
      using recount_effect [OF Cons.prems(2) s] by simp
    have "cache_ok (db (ext w1))"
      using Cons.prems(2) by (simp add: d cache_ok_def recount_ok)
    moreover have "retry_loop E c now iv (map (retry_row lit) sel) (ms @ [row_message s]) w1 = Ret (ms', w')"
      using Cons.prems(1) s inc e 2 by (simp add: retry_row_item)
    moreover have "list_all cache_row sel" using Cons.prems(3) by simp
    ultimately obtain att up es where ih: "loop_end sel att up (failures es)"
      "ms' = (ms @ [row_message s]) @ map row_message att" "trace w' = trace w1 @ es" "rpcs es = []"
      "db (ext w') = (db (ext w1))(Message_cache := recounted now iv up (db (ext w1) Message_cache))"
      using Cons.IH by blast
    then show ?thesis using loop_end_Cons [OF ih(1), of s] d tr 2
      by (intro exI [of _ "s # att"] exI [of _ "s # up"] exI [of _ "Sql c ?q True # es"]) auto
  qed
qed

text \<open>The messages \<open>GetAllOfflineMessage\<close> returns, and the rows it leaves.\<close>

lemma GetAllOfflineMessage_tables:
  assumes "GetAllOfflineMessage E c mx iv [] w = Ret (ms, w')" and "cache_ok (db (ext w))"
  obtains now att up es where
    "loop_end (filter (due mx now) (db (ext w) Message_cache)) att up (failures es) \<or>
       att = [] \<and> up = [] \<and> failures es = 1"
    and "ms = map row_message att" and "trace w' = trace w @ es" and "rpcs es = []"
    and "db (ext w') = (db (ext w))(Message_cache := recounted now iv up (db (ext w) Message_cache))"
proof (cases "time_NULL E w")
  case (Pair t w1)
  let ?q = "select_retry_sql mx t" and ?sel = "filter (due mx t) (db (ext w) Message_cache)"
  note t = trace_calls(6) [OF Pair] calls_db(4) [OF Pair]
  obtain a w2 where e: "execute E c ?q w1 = (a, w2)" by fastforce
  note tr = trace_calls(5) [OF e]
  show thesis
  proof (cases rule: execute_db [OF e])
    case 1
    with assms(1) Pair e have "ms = []" "w' = w2" by (auto simp: GetAllOfflineMessage_def)
    with 1 t tr show thesis by (intro that [of t "[]" "[]" "[Clock t, Sql c ?q False]"]) auto
  next
    case 2
    have rows: "result_of lit ?q d = map (retry_row lit) (filter (due mx t) (d Message_cache))" for d
      by (simp add: select_retry_sql_def retry_row_def due_def [abs_def])
    have d: "db (ext w2) = db (ext w)" using 2 t by (simp add: select_retry_sql_def)
    have "retry_loop E c t iv (map (retry_row lit) ?sel) [] w2 = Ret (ms, w')"
      using assms(1) Pair e 2 rows t by (simp add: GetAllOfflineMessage_def)
    moreover have "list_all cache_row ?sel" using assms(2) by (auto simp: cache_ok_def list_all_iff)
    ultimately obtain att up es where l: "loop_end ?sel att up (failures es)"
      "ms = map row_message att" "trace w' = trace w2 @ es" "rpcs es = []"
      "db (ext w') = (db (ext w))(Message_cache := recounted t iv up (db (ext w) Message_cache))"
      using retry_loop_tables [of c t iv ?sel "[]" w2 ms w'] assms(2) d by auto
    with t tr 2 show thesis
      by (intro that [of t att up "Clock t # Sql c ?q True # es"]) auto
  qed
qed

end

end
