(* ===== verification/Lifecycle.thy ===== *)
theory Lifecycle
  imports Cache
begin

text \<open>
  The life of a complete message, over any sequence of requests and rounds of the daemon served one
  after the other by a server whose database keeps its laws: how often a message is sent, what
  its receipt does, and the types of the rows it leaves.
\<close>

section \<open>Copies of a message\<close>

text \<open>
  A frame is a copy of a complete message when it starts with the receiver, the sender, the frame
  number and the type of that message.
\<close>

fun frame_start :: "key \<Rightarrow> bytes" where
  "frame_start (src, dst, f) = bytes32 (htonl dst) @ bytes32 (htonl src) @ bytes16 (htons f) @ [0x60]"

definition is_copy :: "key \<Rightarrow> AccessMessage \<Rightarrow> bool" where
  "is_copy k m \<longleftrightarrow> take 11 (am_content m) = frame_start k"

definition copies :: "key \<Rightarrow> event list \<Rightarrow> nat" where
  "copies k es = length (filter (is_copy k) (rpcs es))"

lemma copies_append [simp]: "copies k (es @ fs) = copies k es + copies k fs"
  by (simp add: copies_def)

lemma copies_no_rpcs [simp]: "rpcs es = [] \<Longrightarrow> copies k es = 0"
  by (simp add: copies_def)

lemma copies_Cons [simp]:
  "copies k (Rpc a m b # es) = of_bool (is_copy k m) + copies k es"
  "copies k (Sql c q b # es) = copies k es" "copies k (Clock t # es) = copies k es"
  "copies k (Closed c # es) = copies k es" "copies k (Cleared c # es) = copies k es"
  "copies k (Slept n # es) = copies k es" "copies k (Got c' # es) = copies k es"
  by (simp_all add: copies_def)

lemma bytes32_inj [simp]: "bytes32 a = bytes32 b \<longleftrightarrow> a = b"
proof -
  have "le32 (bytes32 w ! 0) (bytes32 w ! 1) (bytes32 w ! 2) (bytes32 w ! 3) = w" for w
    by (simp add: bytes32_def)
  then show ?thesis by metis
qed

lemma bytes16_inj [simp]: "bytes16 a = bytes16 b \<longleftrightarrow> a = b"
proof -
  have "le16 (bytes16 w ! 0) (bytes16 w ! 1) = w" for w by (simp add: bytes16_def)
  then show ?thesis by metis
qed

lemma message_frame_start:
  "take 11 (message_wire dst src f t r) = frame_start k \<longleftrightarrow>
     (ntohl src, ntohl dst, ntohs f) = k \<and> t = 0x60"
  by (cases k) (auto simp: message_wire_def)

lemma response_not_copy: "res_type r = 0x80 \<Longrightarrow> take 11 (response_wire r) \<noteq> frame_start k"
  by (cases k) (auto simp: response_wire_def)

text \<open>The key of the message a request carries.\<close>

definition head_key :: "ControlHead \<Rightarrow> key" where
  "head_key h = (sender h, receiver h, ntohs (ch_frame_id h))"

definition submits :: "key \<Rightarrow> ControlHead \<Rightarrow> bool" where
  "submits k h \<longleftrightarrow> ch_type h = 0x60 \<and> head_key h = k"

lemma copies_sent:
  assumes "sent sh u str ss l out"
  shows "copies k out \<le> (if take 11 str = frame_start k then 1 else 0)"
  using assms by (cases rule: sent.cases) (auto simp: copies_def is_copy_def access_message_def)

lemma copies_forward:
  "sent sh u (forward_of h) ss l out \<Longrightarrow> copies k out \<le> of_bool (submits k h)"
  by (drule copies_sent [of _ _ _ _ _ _ k])
    (auto simp: forward_of_def message_frame_start submits_def head_key_def sender_def receiver_def)

lemma copies_receipt: "sent sh u (receipt_for h) ss l out \<Longrightarrow> copies k out = 0"
  by (drule copies_sent [of _ _ _ _ _ _ k]) (simp add: receipt_for_def response_not_copy)

lemma copies_answer: "sent sh u (answer_to h rt ri) ss l out \<Longrightarrow> copies k out = 0"
  by (drule copies_sent [of _ _ _ _ _ _ k]) (simp add: answer_to_def response_not_copy)

lemmas copies_answers = copies_receipt copies_answer

text \<open>A request sends a copy of a message at most once, and only when it is that message.\<close>

lemma request_copies:
  assumes "request_calls E sh junk h w es"
  shows "copies k es \<le> of_bool (submits k h)"
  using assms
proof (cases rule: request_calls_cases)
  case 5
  then show ?thesis by cases (auto dest: copies_forward [of _ _ _ _ _ _ k])
next
  case 6
  then show ?thesis
  proof cases
    case complete_failed
    then show ?thesis by simp
  next
    case (complete_cached c w0 got w1 to_sates w2 from_sates w3 ack out t b1 b2)
    then show ?thesis
      using copies_forward [of sh "receiver h" h to_sates 5 out k]
        copies_receipt [of sh "sender h" h from_sates 10 ack k] by simp
  qed
qed (auto elim!: login_calls.cases logout_calls.cases move_calls.cases receipt_calls.cases
      simp: copies_answers)

section \<open>What a request does to the cached messages\<close>

text \<open>The row a complete message is stored in.\<close>

definition cached_row :: "record_row \<Rightarrow> ControlHead \<Rightarrow> time_t \<Rightarrow> record_row" where
  "cached_row defaults h t = complete_row defaults
     [(From_user, VInt (sint (sender h))), (To_user, VInt (sint (receiver h))),
      (Type, VInt (uint (ch_type h))), (Text, VStr (cut_nul (ch_content h))), (Recv_time, VTime t),
      (Frame_id, VInt (uint (ntohs (ch_frame_id h)))), (Retry_time, VTime (t + 10))]"

lemma cache_stmt_effect:
  "effect dflt (cache_stmt h t) db = db(Message_cache := db Message_cache @ [cached_row (dflt Message_cache) h t])"
  by (simp add: cache_stmt_def insert_offline_sql_def cached_row_def)

lemma event_effect_selects [replay_simps]:
  "event_effect dflt (Sql c (select_cover_sql v) b) db = db"
  "event_effect dflt (Sql c (select_offline_sql x y z) b) db = db"
  "event_effect dflt (Sql c (user_stmt h) b) db = db"
  "event_effect dflt (Sql c (count_stmt h) b) db = db"
  by (simp_all add: select_cover_sql_def select_offline_sql_def user_stmt_def count_stmt_def replay_simps)

lemma event_effect_delete [replay_simps]:
  "event_effect dflt (Sql c (Delete t cs) True) db = db(t := filter (\<lambda>r. \<not> matches cs r) (db t))"
  by simp

lemma event_effect_elsewhere [replay_simps]:
  "event_effect dflt (Sql c (store_stmt h t) b) db Message_cache = db Message_cache"
  "event_effect dflt (Sql c (insert_store_item_sql m rt t) b) db Message_cache = db Message_cache"
  "event_effect dflt (Sql c (update_cover_sql u temp) b) db Message_cache = db Message_cache"
  by (cases b; simp add: store_stmt_def insert_store_sql_def insert_store_item_sql_def update_cover_sql_def)+

text \<open>The three things a request can do to the table.\<close>

inductive cache_change ::
  "(table \<Rightarrow> record_row) \<Rightarrow> ControlHead \<Rightarrow> record_row list \<Rightarrow> record_row list \<Rightarrow> bool" for dflt h where
  cache_same: "cache_change dflt h rows rows"
| cache_added: "ch_type h = 0x60 \<Longrightarrow> cache_change dflt h rows (rows @ [cached_row (dflt Message_cache) h t])"
| cache_settled: "ch_type h = 0x80 \<Longrightarrow> cache_change dflt h rows (filter (\<lambda>r. \<not> matches (key_conds k) r) rows)"

lemma signal_types:
  "signal_of t = Some COMPLETE_MESSAGE \<longleftrightarrow> t = 0x60" "signal_of t = Some RECEIPTE \<longleftrightarrow> t = 0x80"
  using signal_of_code [of COMPLETE_MESSAGE] signal_of_code [of RECEIPTE] signal_of_SomeD [of t]
  by auto

lemma other_calls_cache:
  "login_calls E sh h w es \<Longrightarrow> replay dflt es db Message_cache = db Message_cache"
  "logout_calls E sh h w es \<Longrightarrow> replay dflt es db Message_cache = db Message_cache"
  "move_calls E sh h w es \<Longrightarrow> replay dflt es db Message_cache = db Message_cache"
  "simple_calls E sh h w es \<Longrightarrow> replay dflt es db Message_cache = db Message_cache"
  by (auto simp del: event_effect.simps(1) simp: replay_simps
      elim!: login_calls.cases logout_calls.cases move_calls.cases simple_calls.cases)

lemma complete_calls_cache:
  assumes "complete_calls E sh h w es" and "ch_type h = 0x60"
  shows "cache_change dflt h (db Message_cache) (replay dflt es db Message_cache)"
  using assms(1)
proof cases
  case complete_failed
  then show ?thesis by (simp add: replay_simps cache_same)
next
  case complete_cached
  then show ?thesis using cache_added [OF assms(2)] by (simp add: replay_simps cache_stmt_effect)
qed

lemma receipt_calls_cache:
  assumes "receipt_calls E junk h w es" and "ch_type h = 0x80"
  shows "cache_change dflt h (db Message_cache) (replay dflt es db Message_cache)"
  using assms(1)
proof cases
  case receipt_ignored
  then show ?thesis by (simp add: cache_same)
next
  case receipt_unmatched
  then show ?thesis by (simp add: replay_simps cache_same del: event_effect.simps(1))
next
  case (receipt_moved f c w0 got msg rtime w1 d t s)
  then show ?thesis
    using cache_same cache_settled [OF assms(2), of dflt _ "(receiver h, sender h, ntohs f)"]
    by (cases d) (simp_all add: replay_simps del: event_effect.simps(1))
qed

lemma request_cache_change:
  assumes "request_calls E sh junk h w es"
  shows "cache_change dflt h (db Message_cache) (replay dflt es db Message_cache)"
  using assms other_calls_cache [of E sh h w es dflt db] complete_calls_cache [of E sh h w es dflt db]
    receipt_calls_cache [of E junk h w es dflt db] signal_types [of "ch_type h"] cache_same [of dflt h]
  by (auto simp: request_calls_def split: option.splits SignalType.splits)

section \<open>The server\<close>

text \<open>
  The laws of the database and, in addition, that a new row of \<open>message_cache\<close> starts with the
  counter zero: \<open>InsertOfflineMessage\<close> leaves that column out.
\<close>

locale message_server = sql_server E db dflt lit
  for E :: "'s environment" and db :: "'s \<Rightarrow> tables" and dflt :: "table \<Rightarrow> record_row"
    and lit :: "string \<Rightarrow> f64" +
  assumes fresh: "map_of (dflt Message_cache) Retry_num = Some (VInt 0)"

interpretation memory_server: message_server "memory_env lit reachable" mem_tables default_row lit
  for lit reachable
  by unfold_locales (simp add: default_row_def)

text \<open>
  An operation is a request, with what the uninitialised variables of the receipt handler happen to
  hold, or a number of rounds of the daemon. They are served one after the other.
\<close>

datatype operation = Request "MessageItem \<times> time_t" ControlHead | Rounds nat

fun perform :: "'s environment \<Rightarrow> schedule \<Rightarrow> QosSendDaemon \<Rightarrow> operation \<Rightarrow> 's world \<Rightarrow> 's world res" where
  "perform E sh q (Request junk h) w = AccessToLogic E sh junk (head_bytes h) w"
| "perform E sh q (Rounds n) w = QosSendDaemon_Start E sh q n w"

definition serve ::
  "'s environment \<Rightarrow> schedule \<Rightarrow> QosSendDaemon \<Rightarrow> operation list \<Rightarrow> 's world \<Rightarrow> 's world res" where
  "serve E sh q ops w = run_all (perform E sh q) ops w"

fun submissions :: "key \<Rightarrow> operation \<Rightarrow> nat" where
  "submissions k (Request junk h) = of_bool (submits k h)"
| "submissions k (Rounds n) = 0"

subsection \<open>Requests\<close>

lemma in32_sint: "in32 (sint (u :: u32))"
  using sint_ge [of u] sint_lt [of u] by (simp add: in32_def)

lemma uint_ranges: "byte_range (uint (b :: u8))" "short_range (uint (f :: u16))"
  using uint_bounded [of b] uint_bounded [of f] by (simp_all add: byte_range_def short_range_def)

lemma map_of_complete_row:
  "map_of (complete_row ds cvs) c = (case map_of cvs c of None \<Rightarrow> map_of ds c | Some v \<Rightarrow> Some v)"
proof -
  have "map_of (filter (\<lambda>(c, v). c \<notin> S) ds) c = (if c \<in> S then None else map_of ds c)" for S
    by (induction ds) auto
  moreover have "c \<in> fst ` set cvs \<longleftrightarrow> map_of cvs c \<noteq> None"
    by (simp add: map_of_eq_None_iff)
  ultimately show ?thesis
    by (auto simp: complete_row_def map_add_def split: option.split)
qed

lemma map_of_cached_row:
  "map_of (cached_row defaults h t) c =
     (case c of From_user \<Rightarrow> Some (VInt (sint (sender h))) | To_user \<Rightarrow> Some (VInt (sint (receiver h)))
      | Type \<Rightarrow> Some (VInt (uint (ch_type h))) | Text \<Rightarrow> Some (VStr (cut_nul (ch_content h)))
      | Recv_time \<Rightarrow> Some (VTime t) | Frame_id \<Rightarrow> Some (VInt (uint (ntohs (ch_frame_id h))))
      | Retry_time \<Rightarrow> Some (VTime (t + 10)) | _ \<Rightarrow> map_of defaults c)"
  by (cases c) (simp_all add: cached_row_def map_of_complete_row)

lemma cache_change_ok:
  assumes "cache_change dflt h rows rows'" and "map_of (dflt Message_cache) Retry_num = Some (VInt 0)"
    and "list_all cache_row rows"
  shows "list_all cache_row rows'"
  using assms
  by cases (auto simp: cache_row_def map_of_cached_row in32_sint uint_ranges byte_range_def list_all_iff)

lemma remaining_append [simp]: "remaining mx k (xs @ ys) = remaining mx k xs + remaining mx k ys"
  by (simp add: remaining_def)

lemma row_key_cached_row [simp]: "row_key (cached_row defaults h t) = head_key h"
  by (simp add: row_key_def int_column_def map_of_cached_row head_key_def)

lemma cache_change_budget:
  assumes "cache_change dflt h rows rows'" and "map_of (dflt Message_cache) Retry_num = Some (VInt 0)"
  shows "length (with_key k rows') \<le> length (with_key k rows) + of_bool (submits k h)"
    and "remaining mx k rows' \<le> remaining mx k rows + nat mx * of_bool (submits k h)"
proof -
  have f: "with_key k (filter P rows) = filter P (with_key k rows)" for P
    by (simp add: with_key_def conj_commute)
  show "length (with_key k rows') \<le> length (with_key k rows) + of_bool (submits k h)"
    using assms(1) by cases (auto simp: f submits_def intro: le_trans [OF length_filter_le])
  have sums: "sum_list (map g (filter P xs)) \<le> sum_list (map g xs)" for g :: "record_row \<Rightarrow> nat" and P xs
    by (induction xs) auto
  have zero: "retries (cached_row (dflt Message_cache) h t) = 0" for t
    using assms(2) by (simp add: retries_def int_column_def map_of_cached_row)
  show "remaining mx k rows' \<le> remaining mx k rows + nat mx * of_bool (submits k h)"
    using assms(1) by cases (auto simp: remaining_def f submits_def zero intro: le_trans [OF sums])
qed

context message_server
begin

lemma request_effect:
  assumes "AccessToLogic E sh junk (head_bytes h) w = Ret w'"
  shows "cache_change dflt h (db (ext w) Message_cache) (db (ext w') Message_cache)"
  using request_cache_change [OF AccessToLogic_replay(2) [OF assms], of dflt "db (ext w)"]
  by (simp add: AccessToLogic_replay(1) [OF assms])

lemma request_keeps_ok:
  "AccessToLogic E sh junk (head_bytes h) w = Ret w' \<Longrightarrow> cache_ok (db (ext w)) \<Longrightarrow> cache_ok (db (ext w'))"
  using request_effect cache_change_ok fresh unfolding cache_ok_def by blast

end

subsection \<open>Rounds of the daemon\<close>

lemma resent_frame_start:
  "take 11 (resent_frame m) = frame_start k \<longleftrightarrow> msg_key m = k \<and> msg_type m = 0x60"
  by (simp add: resent_frame_def message_frame_start msg_key_def)

lemma resend_copies:
  "resend_calls E sh c ms es \<Longrightarrow> copies k es \<le> length (filter (\<lambda>m. msg_key m = k) ms)"
proof (induction rule: resend_calls.induct)
  case (resend_Cons m w1 sates w2 out ms es b)
  then show ?case using copies_sent [OF resend_Cons.hyps(2), of k]
    by (auto simp: resent_frame_start split: if_splits)
qed simp

lemma resend_replay: "resend_calls E sh c ms es \<Longrightarrow> replay dflt es db = db"
  by (induction rule: resend_calls.induct) (auto simp: replay_simps)

lemma no_zero_row_message: "0 \<notin> set (msg_content (row_message r))"
  by (auto simp: row_message_def split: option.splits sql_val.splits)

context sql_server
begin

lemma collect_tables:
  assumes "GetConnection E w = Ret (Some c, w0)" and "GetAllOfflineMessage E c mx iv [] w0 = Ret (ms, w1)"
    and "cache_ok (db (ext w))"
  obtains now att up es where
    "loop_end (filter (due mx now) (db (ext w) Message_cache)) att up (failures es) \<or>
       att = [] \<and> up = [] \<and> failures es = 1"
    and "ms = map row_message att" and "trace w1 = trace w @ es" and "rpcs es = []"
    and "db (ext w1) = (db (ext w))(Message_cache := recounted now iv up (db (ext w) Message_cache))"
proof -
  obtain n where got: "trace w0 = trace w @ replicate n (Got None) @ [Got (Some c)]"
    using assms(1) by (rule GetConnection_trace) blast
  have "replay dflt (replicate n (Got None) @ [Got (Some c)]) d = d" for d
    by (rule replay_no_sql) simp
  then have db0: "db (ext w0) = db (ext w)"
    using follows_replay [OF follows_GetConnection [OF assms(1)]] got by (simp add: events_def)
  obtain now att up es where sel: "loop_end (filter (due mx now) (db (ext w) Message_cache)) att up (failures es) \<or>
       att = [] \<and> up = [] \<and> failures es = 1"
    and ms: "ms = map row_message att" and es: "trace w1 = trace w0 @ es" "rpcs es = []"
    and db1: "db (ext w1) = (db (ext w))(Message_cache := recounted now iv up (db (ext w) Message_cache))"
    by (rule GetAllOfflineMessage_tables [OF assms(2)]) (use assms(3) db0 in auto)
  have "failures (replicate n (Got None)) = 0" by (induction n) simp_all
  then show thesis
    by (intro that [of now att up "replicate n (Got None) @ [Got (Some c)] @ es"])
      (use sel ms es db1 got in auto)
qed

lemma resend_tables:
  assumes "resend E sh c ms w = Ret w'" and "\<forall>m \<in> set ms. 0 \<notin> set (msg_content m)"
  obtains out where "trace w' = trace w @ out" and "resend_calls E sh c ms out" and "db (ext w') = db (ext w)"
proof -
  from resend_steps [OF assms(2), of E sh c w] assms(1) obtain out where
    out: "trace w' = trace w @ out" "resend_calls E sh c ms out" by (auto simp: emits_def)
  have "follows db dflt w w'" using tracks_resend assms(1) by (auto simp: tracks_def)
  then have "db (ext w') = db (ext w)"
    using follows_replay resend_replay [OF out(2)] out(1) by (fastforce simp: events_def)
  with out show thesis by (rule that)
qed

lemma qos_round_tables:
  assumes "qos_round E sh q w = Ret w'" and "cache_ok (db (ext w))"
  obtains now att up f where
    "loop_end (filter (due (qos_max_retry_count q) now) (db (ext w) Message_cache)) att up f \<or>
       att = [] \<and> up = [] \<and> f = 1"
    and "f \<le> failures (events w w')" and "extends w w'"
    and "\<And>k. copies k (events w w') \<le> length (with_key k att)"
    and "db (ext w') = (db (ext w))(Message_cache :=
      recounted now (qos_msg_interval q) up (db (ext w) Message_cache))"
proof -
  from assms(1) obtain c w0 ms w1 w2 where g: "GetConnection E w = Ret (Some c, w0)"
    and s: "GetAllOfflineMessage E c (qos_max_retry_count q) (qos_msg_interval q) [] w0 = Ret (ms, w1)"
    and r: "resend E sh c ms w1 = Ret w2"
    and w': "w' = sleep E (qos_check_interval q) (Connection_close E c w2)"
    by (auto simp: qos_round_def bindR_eq_Ret_iff Let_def split: if_splits option.splits)
  obtain now att up es where sel: "loop_end (filter (due (qos_max_retry_count q) now) (db (ext w) Message_cache)) att up (failures es) \<or>
       att = [] \<and> up = [] \<and> failures es = 1"
    and ms: "ms = map row_message att" and es: "trace w1 = trace w @ es" "rpcs es = []"
    and db1: "db (ext w1) = (db (ext w))(Message_cache :=
      recounted now (qos_msg_interval q) up (db (ext w) Message_cache))"
    by (rule collect_tables [OF g s assms(2)])
  have "\<forall>m \<in> set ms. 0 \<notin> set (msg_content m)" using no_zero_row_message by (auto simp: ms)
  from resend_tables [OF r this] obtain out where
    out: "trace w2 = trace w1 @ out" "resend_calls E sh c ms out" and db2: "db (ext w2) = db (ext w1)" .
  let ?all = "es @ out @ [Closed c, Slept (qos_check_interval q)]"
  have tr: "trace w' = trace w @ ?all" using es out by (simp add: w' trace_calls)
  have ev: "events w w' = ?all" using tr by (rule events_append)
  have "copies k (events w w') \<le> length (with_key k att)" for k
    using resend_copies [OF out(2), of k] es(2)
    by (simp add: ev ms with_key_def filter_map comp_def)
  moreover have "extends w w'" using tr by (auto simp: extends_def)
  moreover have "failures es \<le> failures (events w w')" by (simp add: ev)
  moreover have "db (ext w') = (db (ext w))(Message_cache :=
      recounted now (qos_msg_interval q) up (db (ext w) Message_cache))"
    by (simp add: w' calls_db db2 db1)
  ultimately show thesis using sel that by blast
qed

text \<open>A round pays for every message it sends with a retry, or with a failed statement.\<close>

sublocale daemon: metered "\<lambda>_ :: unit. qos_round E sh q" "\<lambda>w. w" "\<lambda>w. cache_ok (db (ext w))"
  "\<lambda>w. length (with_key k (db (ext w) Message_cache))"
  "\<lambda>w. remaining (qos_max_retry_count q) k (db (ext w) Message_cache)" "\<lambda>_. 0" "\<lambda>_. 0" 0 "copies k"
  for sh q k
proof
  fix w w' :: "'s world" assume ok: "cache_ok (db (ext w))" and run: "qos_round E sh q w = Ret w'"
  let ?rows = "db (ext w) Message_cache"
  show "cache_ok (db (ext w'))"
    by (rule qos_round_tables [OF run ok]) (use ok in \<open>simp add: cache_ok_def recounted_ok\<close>)
  show "length (with_key k (db (ext w') Message_cache)) \<le> length (with_key k ?rows) + 0"
    by (rule qos_round_tables [OF run ok]) simp
  obtain now att up f where sel: "loop_end (filter (due (qos_max_retry_count q) now) ?rows) att up f \<or>
       att = [] \<and> up = [] \<and> f = 1"
    and f: "f \<le> failures (events w w')" and c: "copies k (events w w') \<le> length (with_key k att)"
    and d: "db (ext w') = (db (ext w))(Message_cache := recounted now (qos_msg_interval q) up ?rows)"
    by (rule qos_round_tables [OF run ok]) blast
  have rows: "list_all cache_row ?rows" using ok by (simp add: cache_ok_def)
  {
    assume "length (with_key k ?rows) + 0 \<le> 1"
    with loop_end_budget(1) [OF _ rows, of "qos_max_retry_count q" now att up f k "qos_msg_interval q"] sel f c
    show "copies k (events w w') + remaining (qos_max_retry_count q) k (db (ext w') Message_cache) + 0
      \<le> remaining (qos_max_retry_count q) k ?rows + 0 + 0 * 0 + failures (events w w')"
      by (auto simp: d)
  next
    assume "length (with_key k ?rows) = 0"
    with loop_end_budget(2) [OF _ rows, of "qos_max_retry_count q" now att up f k] sel c
    show "copies k (events w w') + 0 \<le> 0" by auto
  }
next
  show "extends w w'" if "qos_round E sh q w = Ret w'" for w w' :: "'s world"
    using tracks_qos_round [of sh q w] that by (auto simp: tracks_def follows_def extends_def)
qed simp_all

end

lemma QosSendDaemon_Start_run_all:
  "QosSendDaemon_Start E sh q n w =
     (if qos_stop q then Ret w else run_all (\<lambda>_. qos_round E sh q) (replicate n ()) w)"
proof (induction n arbitrary: w)
  case 0
  then show ?case by simp
next
  case (Suc n)
  then show ?case by (cases "qos_round E sh q w") simp_all
qed

subsection \<open>Requests and rounds together\<close>

context message_server
begin

lemma Start_metered:
  assumes "QosSendDaemon_Start E sh q n w = Ret w'" and "cache_ok (db (ext w))"
  shows "extends w w' \<and> cache_ok (db (ext w')) \<and>
      length (with_key k (db (ext w') Message_cache)) \<le> length (with_key k (db (ext w) Message_cache))"
    and "length (with_key k (db (ext w) Message_cache)) \<le> 1 \<Longrightarrow>
      copies k (events w w') + remaining (qos_max_retry_count q) k (db (ext w') Message_cache)
        \<le> remaining (qos_max_retry_count q) k (db (ext w) Message_cache) + failures (events w w')"
    and "length (with_key k (db (ext w) Message_cache)) = 0 \<Longrightarrow> copies k (events w w') = 0"
proof -
  have run: "w' = w \<or> run_all (\<lambda>_. qos_round E sh q) (replicate n ()) w = Ret w'"
    using assms(1) by (auto simp: QosSendDaemon_Start_run_all split: if_splits)
  note keeps = daemon.run_keeps [where sh = sh and q = q and k = k and ops = "replicate n ()", OF assms(2)]
    and cost = daemon.run_cost [where sh = sh and q = q and k = k and ops = "replicate n ()", OF assms(2)]
    and idle = daemon.run_idle [where sh = sh and q = q and k = k and ops = "replicate n ()", OF assms(2)]
  show "extends w w' \<and> cache_ok (db (ext w')) \<and>
      length (with_key k (db (ext w') Message_cache)) \<le> length (with_key k (db (ext w) Message_cache))"
    using run keeps assms(2) by (auto simp: sum_list_replicate)
  show "copies k (events w w') + remaining (qos_max_retry_count q) k (db (ext w') Message_cache)
        \<le> remaining (qos_max_retry_count q) k (db (ext w) Message_cache) + failures (events w w')"
    if "length (with_key k (db (ext w) Message_cache)) \<le> 1"
    using run cost that by (auto simp: sum_list_replicate)
  show "copies k (events w w') = 0" if "length (with_key k (db (ext w) Message_cache)) = 0"
    using run idle that by (auto simp: sum_list_replicate)
qed

sublocale server: metered "perform E sh q" "\<lambda>w. w" "\<lambda>w. cache_ok (db (ext w))"
  "\<lambda>w. length (with_key k (db (ext w) Message_cache))"
  "\<lambda>w. remaining (qos_max_retry_count q) k (db (ext w) Message_cache)" "\<lambda>_. 0" "submissions k"
  "1 + nat (qos_max_retry_count q)" "copies k"
  for sh q k
proof
  fix op and w w' :: "'s world"
  assume ok: "cache_ok (db (ext w))" and run: "perform E sh q op w = Ret w'"
  show "cache_ok (db (ext w'))"
    using run Start_metered(1) ok request_keeps_ok by (cases op) auto
  show "length (with_key k (db (ext w') Message_cache))
      \<le> length (with_key k (db (ext w) Message_cache)) + submissions k op"
    using run Start_metered(1) ok cache_change_budget(1) [OF request_effect fresh] by (cases op) auto
  show "copies k (events w w') + remaining (qos_max_retry_count q) k (db (ext w') Message_cache) + 0
      \<le> remaining (qos_max_retry_count q) k (db (ext w) Message_cache) + 0
        + (1 + nat (qos_max_retry_count q)) * submissions k op + failures (events w w')"
    if "length (with_key k (db (ext w) Message_cache)) + submissions k op \<le> 1"
  proof (cases op)
    case (Request junk h)
    with run have r: "AccessToLogic E sh junk (head_bytes h) w = Ret w'" by simp
    show ?thesis
      using request_copies [OF AccessToLogic_replay(2) [OF r], of k] Request
        cache_change_budget(2) [OF request_effect [OF r] fresh, of "qos_max_retry_count q" k]
      by (simp add: algebra_simps)
  next
    case (Rounds n)
    with run that Start_metered(2) ok show ?thesis by simp
  qed
  show "copies k (events w w') + 0 \<le> 0"
    if "length (with_key k (db (ext w) Message_cache)) = 0" and "submissions k op = 0"
  proof (cases op)
    case (Request junk h)
    with run have r: "AccessToLogic E sh junk (head_bytes h) w = Ret w'" by simp
    show ?thesis
      using request_copies [OF AccessToLogic_replay(2) [OF r], of k] Request that(2) by simp
  next
    case (Rounds n)
    with run that Start_metered(3) ok show ?thesis by simp
  qed
next
  show "extends w w'" if "perform E sh q op w = Ret w'" for op and w w' :: "'s world"
    using that tracks_extends [OF tracks_AccessToLogic] tracks_extends [OF tracks_QosSendDaemon_Start]
    by (cases op) auto
qed simp

end

section \<open>What a receipt does\<close>

context sql_server
begin

lemma GetOfflineMessage_tables:
  assumes "GetOfflineMessage E c src dst f out w = Ret (found, out', w')" and "cache_ok (db (ext w))"
    and "with_key (src, dst, f) (db (ext w) Message_cache) = r # rs"
  shows "db (ext w') = db (ext w)"
    and "found \<and> fst out' = row_message r \<or>
      \<not> found \<and> trace w' = trace w @ [Sql c (select_offline_sql src dst f) False]"
proof -
  let ?q = "select_offline_sql src dst f"
  obtain a w1 where e: "execute E c ?q w = (a, w1)" by fastforce
  have "w1 = w'" using assms(1) e
    by (auto simp: GetOfflineMessage_def bindR_eq_Ret_iff split: answer.splits list.splits option.splits)
  then show "db (ext w') = db (ext w)"
    using execute_db [OF e] by (auto simp: select_offline_sql_def)
  let ?cols = "[To_user, From_user, Frame_id, Type, Text, Recv_time]"
  have rows: "result_of lit ?q (db (ext w)) =
      map (\<lambda>r. row_of lit (map (column_of r) ?cols)) (with_key (src, dst, f) (db (ext w) Message_cache))"
    using assms(2) matches_key [where k = "(src, dst, f)"]
    by (auto simp: select_offline_sql_def with_key_def cache_ok_def list_all_iff intro!: arg_cong [where f = "map _"] filter_cong)
  have r: "cache_row r" using assms(2,3) by (auto simp: cache_ok_def list_all_iff with_key_def filter_eq_Cons_iff)
  have item: "row_item (row_of lit (map (column_of r) ?cols)) = Ret (Some (row_message r))"
    "\<exists>t. rs_timestamp (row_of lit (map (column_of r) ?cols)) 6 = Some t"
    using r by (auto simp: cache_row_def typed_iffs row_of_def row_item_def column_of_def
        row_message_def int_column_def)
  show "found \<and> fst out' = row_message r \<or> \<not> found \<and> trace w' = trace w @ [Sql c ?q False]"
    using execute_db [OF e]
  proof cases
    case 1
    with assms(1) e trace_calls(5) [OF e] show ?thesis by (auto simp: GetOfflineMessage_def)
  next
    case 2
    with assms(1) e item show ?thesis by (auto simp: GetOfflineMessage_def rows assms(3))
  qed
qed

lemma DeleteOfflineMessage_tables:
  assumes "DeleteOfflineMessage E c src dst f w = (d, w')" and "cache_ok (db (ext w))"
  shows "db (ext w') = (if d then (db (ext w))(Message_cache :=
      filter (\<lambda>r. row_key r \<noteq> (src, dst, f)) (db (ext w) Message_cache)) else db (ext w))"
proof -
  have m: "filter (\<lambda>r. \<not> matches (cache_key src dst f) r) (db (ext w) Message_cache) =
      filter (\<lambda>r. row_key r \<noteq> (src, dst, f)) (db (ext w) Message_cache)"
    using assms(2) matches_key [where k = "(src, dst, f)"]
    by (auto simp: cache_ok_def list_all_iff intro!: filter_cong)
  obtain a w1 where e: "execute E c (Delete Message_cache (cache_key src dst f)) w = (a, w1)" by fastforce
  with assms(1) show ?thesis
    by (cases rule: execute_db [OF e]) (auto simp: DeleteOfflineMessage_def m)
qed

text \<open>The row \<open>message_store\<close> gets.\<close>

lemma InsertStoreMessage_item_tables:
  assumes "InsertStoreMessage_item E c m rt w = (s, w')"
  obtains t where "trace w' = trace w @ [Clock t, Sql c (insert_store_item_sql m rt t) s]"
    and "db (ext w') = (if s then effect dflt (insert_store_item_sql m rt t) (db (ext w)) else db (ext w))"
proof (cases "time_NULL E w")
  case (Pair t w1)
  obtain a w2 where e: "execute E c (insert_store_item_sql m rt t) w1 = (a, w2)" by fastforce
  have "db (ext w1) = db (ext w)" using Pair by (rule calls_db)
  moreover have "w' = w2" "s = succeeded a"
    using assms Pair e by (auto simp: InsertStoreMessage_item_def split: answer.splits)
  ultimately have "db (ext w') = (if s then effect dflt (insert_store_item_sql m rt t) (db (ext w)) else db (ext w))"
    by (cases rule: execute_db [OF e]) simp_all
  moreover have "trace w' = trace w @ [Clock t, Sql c (insert_store_item_sql m rt t) s]"
    using \<open>w' = w2\<close> \<open>s = succeeded a\<close> trace_calls(6) [OF Pair] trace_calls(5) [OF e] by simp
  ultimately show thesis using that by blast
qed

text \<open>
  A receipt for a cached message of type \<open>0x60\<close>, when the look-up answers: the row is deleted and the
  message stored, by two statements, of which each can fail.
\<close>

lemma ProcessReceipt_tables:
  assumes "ProcessReceipt E junk (c_str (head_bytes h)) w = Ret w'" and "cache_ok (db (ext w))"
    and "ack_receipt_type (c_str (head_bytes h)) = Ret 0x60"
    and "ack_frame_id (c_str (head_bytes h)) = Ret f"
    and "with_key (receiver h, sender h, ntohs f) (db (ext w) Message_cache) = r # rs"
    and "msg_type (row_message r) = 0x60"
    and "\<forall>c. Sql c (select_offline_sql (receiver h) (sender h) (ntohs f)) False \<notin> set (events w w')"
  shows "\<exists>c d s rt t.
    Sql c (Delete Message_cache (cache_key (receiver h) (sender h) (ntohs f))) d \<in> set (events w w') \<and>
    Sql c (insert_store_item_sql (row_message r) rt t) s \<in> set (events w w') \<and>
    db (ext w') = (let db1 = if d then (db (ext w))(Message_cache :=
        filter (\<lambda>x. row_key x \<noteq> (receiver h, sender h, ntohs f)) (db (ext w) Message_cache)) else db (ext w)
      in if s then effect dflt (insert_store_item_sql (row_message r) rt t) db1 else db1)"
proof -
  let ?src = "receiver h" and ?dst = "sender h" and ?f = "ntohs f"
  note run = assms(1) [unfolded ProcessReceipt_def head_fields bindR.simps Let_def assms(3,4),
      folded sender_def receiver_def]
  obtain c w0 found msg rt w1 w2 where g: "GetConnection E w = Ret (Some c, w0)"
    and o: "GetOfflineMessage E c ?src ?dst ?f junk w0 = Ret (found, (msg, rt), w1)"
    and i: "(if found \<and> msg_type msg = 0x60
        then case DeleteOfflineMessage E c ?src ?dst ?f w1 of (_, w) \<Rightarrow>
             case InsertStoreMessage_item E c msg rt w of (_, w) \<Rightarrow> Ret w
        else Ret w1) = Ret w2" and w': "w' = Connection_close E c w2"
    using run by (auto simp: bindR_eq_Ret_iff split: option.splits)
  obtain n where got: "trace w0 = trace w @ replicate n (Got None) @ [Got (Some c)]"
    using g by (rule GetConnection_trace) blast
  have "replay dflt (replicate n (Got None) @ [Got (Some c)]) d = d" for d
    by (rule replay_no_sql) simp
  then have db0: "db (ext w0) = db (ext w)"
    using follows_replay [OF follows_GetConnection [OF g]] got by (simp add: events_def)
  obtain ok where ok: "trace w1 = trace w0 @ [Sql c (select_offline_sql ?src ?dst ?f) ok]"
    using GetOfflineMessage_trace [OF o] by blast
  obtain d w3 where d: "DeleteOfflineMessage E c ?src ?dst ?f w1 = (d, w3)" by fastforce
  obtain s w4 where s: "InsertStoreMessage_item E c msg rt w3 = (s, w4)" by fastforce
  obtain t where t: "trace w4 = trace w3 @ [Clock t, Sql c (insert_store_item_sql msg rt t) s]"
    and db4: "db (ext w4) = (if s then effect dflt (insert_store_item_sql msg rt t) (db (ext w3)) else db (ext w3))"
    using InsertStoreMessage_item_tables [OF s] by blast
  have w2: "w2 = (if found \<and> msg_type msg = 0x60 then w4 else w1)" using i d s by (auto split: if_splits)
  have "trace w1 = trace w0 @ [Sql c (select_offline_sql ?src ?dst ?f) False] \<longrightarrow>
      Sql c (select_offline_sql ?src ?dst ?f) False \<in> set (events w w')"
    using got t DeleteOfflineMessage_trace [OF d] by (auto simp: w' w2 trace_calls events_def)
  with GetOfflineMessage_tables [OF o] assms(2,5,7) db0
  have found: "found" and msg: "msg = row_message r" and db1: "db (ext w1) = db (ext w)" by auto
  have w4: "w2 = w4" using found msg assms(6) w2 by simp
  have ev: "events w w' = (replicate n (Got None) @ [Got (Some c)]) @
      [Sql c (select_offline_sql ?src ?dst ?f) ok, Sql c (Delete Message_cache (cache_key ?src ?dst ?f)) d,
       Clock t, Sql c (insert_store_item_sql msg rt t) s, Closed c]"
    by (rule events_append) (simp add: w' w4 trace_calls t DeleteOfflineMessage_trace [OF d] ok got)
  have "db (ext w') = db (ext w4)" by (simp add: w' w4 calls_db)
  then show ?thesis
    using DeleteOfflineMessage_tables [OF d] assms(2) db1 db4
    by (intro exI [of _ c] exI [of _ d] exI [of _ s] exI [of _ rt] exI [of _ t]) (auto simp: ev msg Let_def)
qed

end

section \<open>Properties\<close>

context message_server
begin

lemma serve_keeps_typed:
  "cache_ok (db (ext w)) \<Longrightarrow> serve E sh q ops w = Ret w' \<Longrightarrow> cache_ok (db (ext w'))"
  using server.run_keeps by (simp add: serve_def)

lemma serve_cost:
  "cache_ok (db (ext w)) \<Longrightarrow>
   length (with_key k (db (ext w) Message_cache)) + sum_list (map (submissions k) ops) \<le> 1 \<Longrightarrow>
   serve E sh q ops w = Ret w' \<Longrightarrow>
   copies k (events w w') + remaining (qos_max_retry_count q) k (db (ext w') Message_cache)
    \<le> remaining (qos_max_retry_count q) k (db (ext w) Message_cache) +
      (1 + nat (qos_max_retry_count q)) * sum_list (map (submissions k) ops) + failures (events w w')"
  using server.run_cost [where sh = sh and q = q and k = k and x = w] unfolding serve_def by simp

lemma serve_idle:
  "cache_ok (db (ext w)) \<Longrightarrow> with_key k (db (ext w) Message_cache) = [] \<Longrightarrow>
   sum_list (map (submissions k) ops) = 0 \<Longrightarrow> serve E sh q ops w = Ret w' \<Longrightarrow> copies k (events w w') = 0"
  using server.run_idle [where sh = sh and q = q and k = k and x = w] unfolding serve_def by simp

lemma receipt_tables:
  assumes "cache_ok (db (ext w))" and "ch_type h = 0x80"
    and "ack_receipt_type (c_str (head_bytes h)) = Ret 0x60"
    and "ack_frame_id (c_str (head_bytes h)) = Ret f"
    and "with_key (receiver h, sender h, ntohs f) (db (ext w) Message_cache) = r # rs"
    and "msg_type (row_message r) = 0x60"
    and "AccessToLogic E sh junk (head_bytes h) w = Ret w'" and "failures (events w w') = 0"
  shows "\<exists>rt t. db (ext w') = effect dflt (insert_store_item_sql (row_message r) rt t)
    ((db (ext w))(Message_cache :=
        filter (\<lambda>x. row_key x \<noteq> (receiver h, sender h, ntohs f)) (db (ext w) Message_cache)))"
proof -
  have "signal_of (ch_type h) = Some RECEIPTE" using assms(2) signal_types(2) by blast
  then have run: "ProcessReceipt E junk (c_str (head_bytes h)) w = Ret w'"
    using assms(7) by (simp add: AccessToLogic_def head_fields)
  have ok: "Sql c s b \<in> set (events w w') \<Longrightarrow> b" for c s b
    using assms(8) by (cases b) (auto simp: failures_def filter_empty_conv)
  then have "\<forall>c. Sql c (select_offline_sql (receiver h) (sender h) (ntohs f)) False \<notin> set (events w w')"
    by blast
  from ProcessReceipt_tables [OF run assms(1,3-6) this] ok show ?thesis
    by (fastforce simp: Let_def)
qed

end

text \<open>
  C20: Whatever is served, in whatever order, the rows of \<open>message_cache\<close> keep the types of their
  columns: users are numbers of 32 bits, frame numbers of 16, types of 8, text and times are there.
\<close>

theorem cache_stays_typed:
  assumes "message_server E db dflt lit" and "cache_ok (db (ext w))" and "serve E sh q ops w = Ret w'"
  shows "cache_ok (db (ext w'))"
  using message_server.serve_keeps_typed [OF assms] .

text \<open>
  A complete message is sent at most once for the request that brings it and once for each retry:
  over any sequence of requests and rounds of the daemon, served one after the other, that brings the
  message at most once and finds at most one row of it, counting a row already there, the number of
  frames sent with its ends, number and type is at most the retries its rows had left, plus one and
  \<open>max_retry_count\<close> if it is brought, plus the number of statements that failed. What its rows have
  left at the end is not even used up.
\<close>

theorem message_copies_bounded:
  assumes "message_server E db dflt lit" and "cache_ok (db (ext w))"
    and "length (with_key k (db (ext w) Message_cache)) + sum_list (map (submissions k) ops) \<le> 1"
    and "serve E sh q ops w = Ret w'"
  shows "copies k (events w w') + remaining (qos_max_retry_count q) k (db (ext w') Message_cache)
    \<le> remaining (qos_max_retry_count q) k (db (ext w) Message_cache) +
      (1 + nat (qos_max_retry_count q)) * sum_list (map (submissions k) ops) + failures (events w w')"
  using message_server.serve_cost [OF assms] .


text \<open>The small server, with the message of the first frame waiting or coming in.\<close>

lemma demo_server: "message_server demo_env mem_tables default_row demo_lit"
  unfolding demo_env_def by (rule memory_server.message_server_axioms)

definition demo_ops :: "operation list" where
  "demo_ops = [Request demo_junk (demo_frame 0x60 [72, 105]), Rounds 6]"

theorem cache_stays_typed_witness:
  "\<exists>w'. serve demo_env demo_schedule demo_qos demo_ops demo_world = Ret w' \<and> cache_ok (mem_tables (ext w'))"
proof -
  have "returns (serve demo_env demo_schedule demo_qos demo_ops demo_world)" by code_simp
  then obtain w' where r: "serve demo_env demo_schedule demo_qos demo_ops demo_world = Ret w'"
    by (rule returnsE)
  have "cache_ok (mem_tables (ext demo_world))" by code_simp
  from cache_stays_typed [OF demo_server this r] r show ?thesis by blast
qed

theorem message_copies_bounded_witness:
  "\<exists>w'. serve demo_env demo_schedule demo_qos demo_ops demo_world = Ret w' \<and>
     copies (1, 2, 9) (events demo_world w') \<noteq> 0 \<and> copies (1, 2, 9) (events demo_world w') \<le> 4"
proof -
  let ?r = "serve demo_env demo_schedule demo_qos demo_ops demo_world"
  have "case ?r of Ret w' \<Rightarrow> copies (1, 2, 9) (events demo_world w') \<noteq> 0 \<and>
      failures (events demo_world w') = 0 | Fault e \<Rightarrow> False" by code_simp
  then obtain w' where r: "?r = Ret w'" "copies (1, 2, 9) (events demo_world w') \<noteq> 0"
    "failures (events demo_world w') = 0" by (cases ?r) simp_all
  have "cache_ok (mem_tables (ext demo_world))"
    and "length (with_key (1, 2, 9) (mem_tables (ext demo_world) Message_cache)) +
      sum_list (map (submissions (1, 2, 9)) demo_ops) \<le> 1"
    and "remaining (qos_max_retry_count demo_qos) (1, 2, 9) (mem_tables (ext demo_world) Message_cache) +
      (1 + nat (qos_max_retry_count demo_qos)) * sum_list (map (submissions (1, 2, 9)) demo_ops) = 4"
    by code_simp+
  with message_copies_bounded [OF demo_server _ _ r(1), of "(1, 2, 9)"] r show ?thesis by auto
qed

definition demo_receipt :: ControlHead where
  "demo_receipt = (demo_frame 0x80 [0, 9, 0x60])\<lparr>ch_from_id := htonl 2, ch_to_id := htonl 1\<rparr>"


end
