(* ===== verification/Interleaved.thy ===== *)
theory Interleaved
  imports Lifecycle
begin

text \<open>
  The retransmission thread and the threads that serve requests, interleaved. A round of the daemon is no
  longer one operation: it collects the messages that are due, then sends them one by one, and a
  request can come between any two of these steps. A request is one step: its statements and calls are not
  interleaved with those of another thread, and neither are the statements that collect.
\<close>

section \<open>The turns of the daemon\<close>

text \<open>Where \<open>Start\<close> of \<open>tools/qos_send_daemon.cpp\<close> is: at the test of \<open>stop_\<close>, or in the \<open>for\<close> with
  its connection and the messages still to be sent.\<close>

datatype daemon_at = AtTest | Sending conn "MessageItem list"

fun daemon_turn ::
  "'s environment \<Rightarrow> schedule \<Rightarrow> QosSendDaemon \<Rightarrow> daemon_at \<Rightarrow> 's world \<Rightarrow> (daemon_at \<times> 's world) res" where
  "daemon_turn E sh q AtTest w =
     (if qos_stop q then Ret (AtTest, w)
      else if \<not> qos_database q then Fault NullPointer
      else bindR (GetConnection E w) (\<lambda>(conn, w).
      case conn of None \<Rightarrow> Fault NullPointer
      | Some conn \<Rightarrow>
      bindR (GetAllOfflineMessage E conn (qos_max_retry_count q) (qos_msg_interval q) [] w)
        (\<lambda>(messages, w). Ret (Sending conn messages, w))))"
| "daemon_turn E sh q (Sending conn (message # rest)) w =
     bindR (resend E sh conn [message] w) (\<lambda>w. Ret (Sending conn rest, w))"
| "daemon_turn E sh q (Sending conn []) w =
     (let w = Connection_close E conn w in Ret (AtTest, sleep E (qos_check_interval q) w))"

datatype turn = Worker "MessageItem \<times> time_t" ControlHead | DaemonTurn

fun take_turn ::
  "'s environment \<Rightarrow> schedule \<Rightarrow> QosSendDaemon \<Rightarrow> turn \<Rightarrow> daemon_at \<times> 's world \<Rightarrow> (daemon_at \<times> 's world) res" where
  "take_turn E sh q (Worker junk h) (d, w) =
     bindR (AccessToLogic E sh junk (head_bytes h) w) (\<lambda>w. Ret (d, w))"
| "take_turn E sh q DaemonTurn (d, w) = daemon_turn E sh q d w"

definition interleave ::
  "'s environment \<Rightarrow> schedule \<Rightarrow> QosSendDaemon \<Rightarrow> turn list \<Rightarrow> daemon_at \<times> 's world \<Rightarrow> (daemon_at \<times> 's world) res" where
  "interleave E sh q turns x = run_all (take_turn E sh q) turns x"

fun brings :: "key \<Rightarrow> turn \<Rightarrow> nat" where
  "brings k (Worker junk h) = of_bool (submits k h)"
| "brings k DaemonTurn = 0"

section \<open>Rounds as turns\<close>

lemma resend_Cons_single:
  "resend E sh c (m # ms) w = bindR (resend E sh c [m] w) (resend E sh c ms)"
  by (cases "GetSateCover E c (sint (msg_to_id m)) w"; cases "MessageEncode_item m") auto

lemma sending_turns:
  "resend E sh c ms w = Ret w' \<Longrightarrow>
   run_all (take_turn E sh q) (replicate (length ms) DaemonTurn) (Sending c ms, w) = Ret (Sending c [], w')"
proof (induction ms arbitrary: w)
  case Nil
  then show ?case by simp
next
  case (Cons m ms)
  then obtain v where "resend E sh c [m] w = Ret v" "resend E sh c ms v = Ret w'"
    unfolding resend_Cons_single [of E sh c m ms] by (auto simp: bindR_eq_Ret_iff)
  with Cons.IH show ?case by (simp del: resend.simps)
qed

lemma round_turns:
  assumes "qos_round E sh q w = Ret w'" and "\<not> qos_stop q"
  shows "\<exists>n. run_all (take_turn E sh q) (replicate n DaemonTurn) (AtTest, w) = Ret (AtTest, w')"
proof -
  from assms(1) obtain c w0 ms w1 w2 where g: "GetConnection E w = Ret (Some c, w0)"
    and s: "GetAllOfflineMessage E c (qos_max_retry_count q) (qos_msg_interval q) [] w0 = Ret (ms, w1)"
    and r: "resend E sh c ms w1 = Ret w2" and db: "qos_database q"
    and w': "w' = sleep E (qos_check_interval q) (Connection_close E c w2)"
    by (auto simp: qos_round_def bindR_eq_Ret_iff Let_def split: if_splits option.splits)
  have "run_all (take_turn E sh q) (DaemonTurn # replicate (length ms) DaemonTurn @ [DaemonTurn]) (AtTest, w) =
      Ret (AtTest, w')"
    using assms(2) g s db sending_turns [OF r, of q] by (simp add: run_all_append w')
  moreover have "DaemonTurn # replicate (length ms) DaemonTurn @ [DaemonTurn] = replicate (length ms + 2) DaemonTurn"
    by (simp add: replicate_append_same)
  ultimately show ?thesis by metis
qed

text \<open>The requests of a sequence of operations, and of turns.\<close>

fun operation_requests :: "operation \<Rightarrow> ((MessageItem \<times> time_t) \<times> ControlHead) list" where
  "operation_requests (Request junk h) = [(junk, h)]"
| "operation_requests (Rounds n) = []"

fun turn_requests :: "turn \<Rightarrow> ((MessageItem \<times> time_t) \<times> ControlHead) list" where
  "turn_requests (Worker junk h) = [(junk, h)]"
| "turn_requests DaemonTurn = []"

lemma rounds_turns:
  "QosSendDaemon_Start E sh q n w = Ret w' \<Longrightarrow>
   \<exists>m. run_all (take_turn E sh q) (replicate m DaemonTurn) (AtTest, w) = Ret (AtTest, w')"
proof (induction n arbitrary: w)
  case 0
  then show ?case by (intro exI [of _ 0]) simp
next
  case (Suc n)
  show ?case
  proof (cases "qos_stop q")
    case True
    with Suc.prems show ?thesis by (intro exI [of _ 0]) simp
  next
    case False
    with Suc.prems obtain v where v: "qos_round E sh q w = Ret v" "QosSendDaemon_Start E sh q n v = Ret w'"
      by (auto simp: bindR_eq_Ret_iff)
    from round_turns [OF v(1) False] Suc.IH [OF v(2)] obtain i j where
      "run_all (take_turn E sh q) (replicate i DaemonTurn) (AtTest, w) = Ret (AtTest, v)"
      "run_all (take_turn E sh q) (replicate j DaemonTurn) (AtTest, v) = Ret (AtTest, w')" by blast
    then show ?thesis by (intro exI [of _ "i + j"]) (simp add: replicate_add run_all_append)
  qed
qed

lemma operation_turns:
  assumes "perform E sh q op w = Ret w'"
  shows "\<exists>turns. run_all (take_turn E sh q) turns (AtTest, w) = Ret (AtTest, w') \<and>
    concat (map turn_requests turns) = operation_requests op"
proof (cases op)
  case (Request junk h)
  with assms show ?thesis by (intro exI [of _ "[Worker junk h]"]) simp
next
  case (Rounds n)
  with assms rounds_turns obtain m where
    "run_all (take_turn E sh q) (replicate m DaemonTurn) (AtTest, w) = Ret (AtTest, w')" by fastforce
  with Rounds show ?thesis by (intro exI [of _ "replicate m DaemonTurn"]) (simp add: concat_replicate_trivial)
qed

lemma serve_turns:
  "serve E sh q ops w = Ret w' \<Longrightarrow>
   \<exists>turns. interleave E sh q turns (AtTest, w) = Ret (AtTest, w') \<and>
     concat (map turn_requests turns) = concat (map operation_requests ops)"
proof (induction ops arbitrary: w)
  case Nil
  then show ?case by (intro exI [of _ "[]"]) (simp add: serve_def interleave_def)
next
  case (Cons op ops)
  then obtain v where v: "perform E sh q op w = Ret v" "serve E sh q ops v = Ret w'"
    by (auto simp: serve_def bindR_eq_Ret_iff)
  from operation_turns [OF v(1)] Cons.IH [OF v(2)] obtain ts us where
    "run_all (take_turn E sh q) ts (AtTest, w) = Ret (AtTest, v)" "concat (map turn_requests ts) = operation_requests op"
    "interleave E sh q us (AtTest, v) = Ret (AtTest, w')"
    "concat (map turn_requests us) = concat (map operation_requests ops)" by blast
  then show ?case by (intro exI [of _ "ts @ us"]) (simp add: interleave_def run_all_append)
qed

section \<open>The potential of the interleaved server\<close>

text \<open>The copies of a message the daemon holds; what it holds came out of rows.\<close>

fun queued :: "key \<Rightarrow> daemon_at \<Rightarrow> nat" where
  "queued k AtTest = 0"
| "queued k (Sending c ms) = length (filter (\<lambda>m. msg_key m = k) ms)"

fun from_rows :: "daemon_at \<Rightarrow> bool" where
  "from_rows AtTest = True"
| "from_rows (Sending c ms) = list_all (\<lambda>m. 0 \<notin> set (msg_content m)) ms"

context sql_server
begin

lemma collect_turn:
  assumes "daemon_turn E sh q AtTest w = Ret (d', w')" and "cache_ok (db (ext w))"
  shows "from_rows d' \<and> cache_ok (db (ext w')) \<and> extends w w' \<and> rpcs (events w w') = [] \<and>
      length (with_key k (db (ext w') Message_cache)) = length (with_key k (db (ext w) Message_cache))"
    and "length (with_key k (db (ext w) Message_cache)) \<le> 1 \<Longrightarrow>
      queued k d' + remaining (qos_max_retry_count q) k (db (ext w') Message_cache)
        \<le> remaining (qos_max_retry_count q) k (db (ext w) Message_cache) + failures (events w w')"
    and "length (with_key k (db (ext w) Message_cache)) \<le> 1 \<Longrightarrow>
      queued k d' \<le> length (with_key k (db (ext w) Message_cache))"
proof -
  let ?rows = "db (ext w) Message_cache" and ?mx = "qos_max_retry_count q"
  have rows: "list_all cache_row ?rows" using assms(2) by (simp add: cache_ok_def)
  consider (stopped) "d' = AtTest" "w' = w"
    | (collected) c w0 ms where "GetConnection E w = Ret (Some c, w0)"
      "GetAllOfflineMessage E c ?mx (qos_msg_interval q) [] w0 = Ret (ms, w')" "d' = Sending c ms"
    using assms(1) by (auto simp: bindR_eq_Ret_iff split: if_splits option.splits)
  then have "(from_rows d' \<and> cache_ok (db (ext w')) \<and> extends w w' \<and> rpcs (events w w') = [] \<and>
      length (with_key k (db (ext w') Message_cache)) = length (with_key k ?rows)) \<and>
    (length (with_key k ?rows) \<le> 1 \<longrightarrow>
      queued k d' + remaining ?mx k (db (ext w') Message_cache) \<le> remaining ?mx k ?rows + failures (events w w')) \<and>
    (length (with_key k ?rows) \<le> 1 \<longrightarrow> queued k d' \<le> length (with_key k ?rows))"
  proof cases
    case stopped
    then show ?thesis using assms(2) by simp
  next
    case collected
    obtain now att up es where sel: "loop_end (filter (due ?mx now) ?rows) att up (failures es) \<or>
         att = [] \<and> up = [] \<and> failures es = 1"
      and ms: "ms = map row_message att" and es: "trace w' = trace w @ es" "rpcs es = []"
      and d: "db (ext w') = (db (ext w))(Message_cache := recounted now (qos_msg_interval q) up ?rows)"
      by (rule collect_tables [OF collected(1,2) assms(2)])
    have q: "queued k d' = length (with_key k att)"
      by (simp add: collected(3) ms with_key_def filter_map comp_def)
    have "from_rows d'" using no_zero_row_message by (auto simp: collected(3) ms list_all_iff)
    moreover have "cache_ok (db (ext w'))" using assms(2) by (simp add: d cache_ok_def recounted_ok)
    moreover have "events w w' = es" by (rule events_append [OF es(1)])
    moreover have "extends w w'" using es(1) by (auto simp: extends_def)
    ultimately show ?thesis
      using sel loop_end_budget(1) [OF _ rows, of ?mx now att up "failures es" k "qos_msg_interval q"]
        loop_end_budget(2) [OF _ rows, of ?mx now att up "failures es" k] es(2)
      by (auto simp: d q)
  qed
  then show "from_rows d' \<and> cache_ok (db (ext w')) \<and> extends w w' \<and> rpcs (events w w') = [] \<and>
      length (with_key k (db (ext w') Message_cache)) = length (with_key k ?rows)"
    and "length (with_key k ?rows) \<le> 1 \<Longrightarrow> queued k d' + remaining ?mx k (db (ext w') Message_cache)
        \<le> remaining ?mx k ?rows + failures (events w w')"
    and "length (with_key k ?rows) \<le> 1 \<Longrightarrow> queued k d' \<le> length (with_key k ?rows)"
    by blast+
qed

lemma daemon_turn_extends:
  assumes "daemon_turn E sh q d w = Ret (d', w')"
  shows "extends w w'"
proof (cases d)
  case AtTest
  then consider "w' = w" | c w0 ms where "GetConnection E w = Ret (Some c, w0)"
      "GetAllOfflineMessage E c (qos_max_retry_count q) (qos_msg_interval q) [] w0 = Ret (ms, w')"
    using assms by (auto simp: bindR_eq_Ret_iff split: if_splits option.splits)
  then show ?thesis
  proof cases
    case 2
    have "extends w w0" using follows_GetConnection [OF 2(1)] by (auto simp: follows_def extends_def)
    moreover have "extends w0 w'" by (rule GetAllOfflineMessage_trace [OF 2(2)]) (auto simp: extends_def)
    ultimately show ?thesis by (rule extends_trans)
  qed simp
next
  case (Sending c ms)
  show ?thesis
  proof (cases ms)
    case Nil
    with assms Sending have "w' = sleep E (qos_check_interval q) (Connection_close E c w)" by simp
    then show ?thesis by (auto simp: extends_def trace_calls)
  next
    case (Cons m rest)
    with assms Sending have "resend E sh c [m] w = Ret w'" by (auto simp: bindR_eq_Ret_iff simp del: resend.simps)
    then show ?thesis by (rule tracks_extends [OF tracks_resend])
  qed
qed

lemma take_turn_extends:
  assumes "take_turn E sh q op x = Ret x'"
  shows "extends (snd x) (snd x')"
proof (cases op)
  case (Worker junk h)
  with assms show ?thesis using tracks_extends [OF tracks_AccessToLogic]
    by (cases x; cases junk) (auto simp: bindR_eq_Ret_iff)
next
  case DaemonTurn
  with assms show ?thesis using daemon_turn_extends by (cases x; cases x') auto
qed

lemma send_turn:
  assumes "daemon_turn E sh q (Sending c ms) w = Ret (d', w')" and "from_rows (Sending c ms)"
  shows "from_rows d' \<and> db (ext w') = db (ext w) \<and> extends w w' \<and>
    copies k (events w w') + queued k d' \<le> queued k (Sending c ms)"
proof (cases ms)
  case Nil
  then have w': "d' = AtTest" "w' = sleep E (qos_check_interval q) (Connection_close E c w)"
    using assms(1) by simp_all
  then have tr: "trace w' = trace w @ [Closed c, Slept (qos_check_interval q)]" by (simp add: trace_calls)
  then have "events w w' = [Closed c, Slept (qos_check_interval q)]" by (rule events_append)
  with tr w' show ?thesis by (auto simp: calls_db extends_def)
next
  case (Cons m rest)
  then have r: "resend E sh c [m] w = Ret w'" and d': "d' = Sending c rest"
    using assms(1) by (auto simp: bindR_eq_Ret_iff simp del: resend.simps)
  have "\<forall>x \<in> set [m]. 0 \<notin> set (msg_content x)" using assms(2) Cons by simp
  from resend_tables [OF r this] obtain out where
    out: "trace w' = trace w @ out" "resend_calls E sh c [m] out" "db (ext w') = db (ext w)" .
  have "events w w' = out" by (rule events_append [OF out(1)])
  then show ?thesis
    using out resend_copies [OF out(2), of k] assms(2) Cons by (auto simp: d' extends_def split: if_splits)
qed

end

context message_server
begin

sublocale threads: metered "take_turn E sh q" snd "\<lambda>x. cache_ok (db (ext (snd x))) \<and> from_rows (fst x)"
  "\<lambda>x. length (with_key k (db (ext (snd x)) Message_cache))"
  "\<lambda>x. remaining (qos_max_retry_count q) k (db (ext (snd x)) Message_cache)" "\<lambda>x. queued k (fst x)" "brings k"
  "1 + nat (qos_max_retry_count q)" "copies k"
  for sh q k
proof
  fix op and x x' :: "daemon_at \<times> 's world"
  let ?rows = "\<lambda>x. db (ext (snd x)) Message_cache" and ?mx = "qos_max_retry_count q"
  let ?ev = "\<lambda>x x'. events (snd x) (snd x')"
  have request: "fst x' = fst x \<and> extends (snd x) (snd x') \<and> cache_ok (db (ext (snd x'))) \<and>
      length (with_key k (?rows x')) \<le> length (with_key k (?rows x)) + of_bool (submits k h) \<and>
      copies k (?ev x x') + remaining ?mx k (?rows x')
        \<le> remaining ?mx k (?rows x) + (1 + nat ?mx) * of_bool (submits k h) \<and>
      copies k (?ev x x') \<le> of_bool (submits k h)"
    if t: "take_turn E sh q (Worker junk h) x = Ret x'" and ok: "cache_ok (db (ext (snd x)))" for junk h x x'
  proof -
    obtain d w where x: "x = (d, w)" by fastforce
    then obtain w' where r: "AccessToLogic E sh junk (head_bytes h) w = Ret w'" and x': "x' = (d, w')"
      using t by (auto simp: bindR_eq_Ret_iff)
    show ?thesis
      using request_copies [OF AccessToLogic_replay(2) [OF r], of k] request_keeps_ok [OF r]
        cache_change_budget(1) [OF request_effect [OF r] fresh, of k] tracks_extends [OF tracks_AccessToLogic r] ok
        cache_change_budget(2) [OF request_effect [OF r] fresh, of ?mx k]
      by (simp add: x x' algebra_simps)
  qed
  have daemon: "extends (snd x) (snd x') \<and> cache_ok (db (ext (snd x'))) \<and> from_rows (fst x') \<and>
      length (with_key k (?rows x')) = length (with_key k (?rows x)) \<and>
      (length (with_key k (?rows x)) \<le> 1 \<longrightarrow>
        copies k (?ev x x') + remaining ?mx k (?rows x') + queued k (fst x')
          \<le> remaining ?mx k (?rows x) + queued k (fst x) + failures (?ev x x')) \<and>
      (length (with_key k (?rows x)) = 0 \<longrightarrow> copies k (?ev x x') + queued k (fst x') \<le> queued k (fst x))"
    if t: "take_turn E sh q DaemonTurn x = Ret x'" and ok: "cache_ok (db (ext (snd x)))" "from_rows (fst x)" for x x'
  proof -
    obtain d w d' w' where x: "x = (d, w)" "x' = (d', w')" by (metis surj_pair)
    with t have turn: "daemon_turn E sh q d w = Ret (d', w')" by simp
    show ?thesis
    proof (cases d)
      case AtTest
      with collect_turn [of sh q w d' w' k] turn ok show ?thesis by (auto simp: x)
    next
      case (Sending c ms)
      with send_turn [of sh q c ms w d' w' k] turn ok show ?thesis by (auto simp: x)
    qed
  qed
  show "extends (snd x) (snd x')" if "take_turn E sh q op x = Ret x'"
    by (rule take_turn_extends [OF that])
  assume inv: "cache_ok (db (ext (snd x))) \<and> from_rows (fst x)" and run: "take_turn E sh q op x = Ret x'"
  show "cache_ok (db (ext (snd x'))) \<and> from_rows (fst x')"
    using run inv request daemon by (cases op) auto
  show "length (with_key k (?rows x')) \<le> length (with_key k (?rows x)) + brings k op"
    using run inv request daemon by (cases op) auto
  show "copies k (?ev x x') + remaining ?mx k (?rows x') + queued k (fst x')
      \<le> remaining ?mx k (?rows x) + queued k (fst x) + (1 + nat ?mx) * brings k op + failures (?ev x x')"
    if "length (with_key k (?rows x)) + brings k op \<le> 1"
  proof (cases op)
    case (Worker junk h)
    with request [of junk h x x'] run inv show ?thesis by simp
  next
    case DaemonTurn
    with daemon [of x x'] run inv that show ?thesis by simp
  qed
  show "copies k (?ev x x') + queued k (fst x') \<le> queued k (fst x)"
    if "length (with_key k (?rows x)) = 0" and "brings k op = 0"
  proof (cases op)
    case (Worker junk h)
    with request [of junk h x x'] run inv that(2) show ?thesis by simp
  next
    case DaemonTurn
    with daemon [of x x'] run inv that(1) show ?thesis by simp
  qed
qed simp

lemma interleave_cost:
  "cache_ok (db (ext w)) \<Longrightarrow> from_rows d \<Longrightarrow>
   length (with_key k (db (ext w) Message_cache)) + sum_list (map (brings k) turns) \<le> 1 \<Longrightarrow>
   interleave E sh q turns (d, w) = Ret (d', w') \<Longrightarrow>
   copies k (events w w') + remaining (qos_max_retry_count q) k (db (ext w') Message_cache) + queued k d'
    \<le> remaining (qos_max_retry_count q) k (db (ext w) Message_cache) + queued k d +
      (1 + nat (qos_max_retry_count q)) * sum_list (map (brings k) turns) + failures (events w w')"
  using threads.run_cost [where sh = sh and q = q and k = k and x = "(d, w)"] unfolding interleave_def by fastforce

lemma interleave_idle:
  "cache_ok (db (ext w)) \<Longrightarrow> from_rows d \<Longrightarrow> with_key k (db (ext w) Message_cache) = [] \<Longrightarrow>
   sum_list (map (brings k) turns) = 0 \<Longrightarrow> interleave E sh q turns (d, w) = Ret (d', w') \<Longrightarrow>
   copies k (events w w') \<le> queued k d"
  using threads.run_idle [where sh = sh and q = q and k = k and x = "(d, w)"] unfolding interleave_def by fastforce

end

section \<open>Properties\<close>



text \<open>
  C3: A complete message is sent at most once for the request that brings it and once for each retry,
  however the requests come between the steps of the daemon: when the message is brought at most once and
  at most one row of it is found, counting a row already there, the frames sent with its ends, number
  and type are at most the retries its rows had left, those the daemon already held, one and
  \<open>max_retry_count\<close> if it is brought, and the statements that failed. What is left or held at the end
  is not even used up.
\<close>

theorem interleaved_copies_bounded:
  assumes "message_server E db dflt lit" and "cache_ok (db (ext w))" and "from_rows d"
    and "length (with_key k (db (ext w) Message_cache)) + sum_list (map (brings k) turns) \<le> 1"
    and "interleave E sh q turns (d, w) = Ret (d', w')"
  shows "copies k (events w w') + remaining (qos_max_retry_count q) k (db (ext w') Message_cache) + queued k d'
    \<le> remaining (qos_max_retry_count q) k (db (ext w) Message_cache) + queued k d +
      (1 + nat (qos_max_retry_count q)) * sum_list (map (brings k) turns) + failures (events w w')"
  using message_server.interleave_cost [OF assms] .

text \<open>A server with a message waiting and two connections, one for the daemon and one for a request.\<close>

definition demo_shared :: "memory world" where
  "demo_shared = demo_waiting\<lparr>ext := (ext demo_waiting)\<lparr>mem_pool := [7, 8], mem_down := 0\<rparr>\<rparr>"

definition demo_turns :: "turn list" where
  "demo_turns = [DaemonTurn, Worker demo_junk (demo_frame 0x40 [72, 105]), DaemonTurn,
     Worker demo_junk (demo_frame 0x40 [72, 105]), DaemonTurn]"

theorem interleaved_copies_bounded_witness:
  "\<exists>d' w'. interleave demo_env demo_schedule demo_qos demo_turns (AtTest, demo_shared) = Ret (d', w') \<and>
     copies (1, 2, 9) (events demo_shared w') \<noteq> 0 \<and> copies (1, 2, 9) (events demo_shared w') \<le> 3"
proof -
  let ?r = "interleave demo_env demo_schedule demo_qos demo_turns (AtTest, demo_shared)"
  have "case ?r of Ret (d', w') \<Rightarrow> copies (1, 2, 9) (events demo_shared w') \<noteq> 0 \<and>
      failures (events demo_shared w') = 0 | Fault e \<Rightarrow> False" by code_simp
  then obtain d' w' where r: "?r = Ret (d', w')" "copies (1, 2, 9) (events demo_shared w') \<noteq> 0"
    "failures (events demo_shared w') = 0" by (cases ?r) auto
  have "cache_ok (mem_tables (ext demo_shared))" "from_rows AtTest"
    and "length (with_key (1, 2, 9) (mem_tables (ext demo_shared) Message_cache)) +
      sum_list (map (brings (1, 2, 9)) demo_turns) \<le> 1"
    and "remaining (qos_max_retry_count demo_qos) (1, 2, 9) (mem_tables (ext demo_shared) Message_cache) +
      queued (1, 2, 9) AtTest +
      (1 + nat (qos_max_retry_count demo_qos)) * sum_list (map (brings (1, 2, 9)) demo_turns) = 3"
    by code_simp+
  with interleaved_copies_bounded [OF demo_server _ _ _ r(1), of "(1, 2, 9)"] r show ?thesis by auto
qed


text \<open>The witness: the daemon has collected the message when its receipt comes, and then sends it.\<close>

definition demo_collected :: "daemon_at \<times> memory world" where
  "demo_collected = (case interleave demo_env demo_schedule demo_qos [DaemonTurn] (AtTest, demo_shared) of
     Ret x \<Rightarrow> x | Fault e \<Rightarrow> (AtTest, demo_shared))"


end
