(* ===== verification/Receipts.thy ===== *)
theory Receipts
  imports Lifecycle
begin

text \<open>
  \<open>ProcessReceipt\<close> of \<open>src/logic/message_manager.cpp\<close> by several threads at once: the handler cut into turns, one
  for each statement it executes, and the turns of the threads interleaved. A message that was sent more than
  once can have several receipts, and the server handles requests in several threads.
\<close>

section \<open>The turns of the handler\<close>

text \<open>Where a thread is, with its local variables: before the named call, or at the end.\<close>

datatype receipt_at =
    Arrived bytes
  | LookingUp conn u32 u32 u16
  | Deleting conn u32 u32 u16 MessageItem time_t
  | Storing conn MessageItem time_t
  | Closing conn
  | Settled

fun receipt_turn ::
  "'s environment \<Rightarrow> MessageItem \<times> time_t \<Rightarrow> receipt_at \<Rightarrow> 's world \<Rightarrow> (receipt_at \<times> 's world) res" where
  "receipt_turn E junk (Arrived p) w =
     bindR (head_from_id p) (\<lambda>src. let to_id = ntohl src in
     bindR (head_to_id p) (\<lambda>dst. let from_id = ntohl dst in
     bindR (ack_receipt_type p) (\<lambda>receipt_type.
     if receipt_type \<noteq> 0x60 then Ret (Settled, w)
     else
     bindR (ack_frame_id p) (\<lambda>f. let frame_id = ntohs f in
     bindR (GetConnection E w) (\<lambda>(conn, w).
     case conn of None \<Rightarrow> Fault NullPointer
     | Some conn \<Rightarrow> Ret (LookingUp conn from_id to_id frame_id, w))))))"
| "receipt_turn E junk (LookingUp conn from_id to_id frame_id) w =
     bindR (GetOfflineMessage E conn from_id to_id frame_id junk w) (\<lambda>(found, (msg, recv_time), w).
     Ret (if found \<and> msg_type msg = 0x60 then Deleting conn from_id to_id frame_id msg recv_time else Closing conn, w))"
| "receipt_turn E junk (Deleting conn from_id to_id frame_id msg recv_time) w =
     (case DeleteOfflineMessage E conn from_id to_id frame_id w of (_, w) \<Rightarrow> Ret (Storing conn msg recv_time, w))"
| "receipt_turn E junk (Storing conn msg recv_time) w =
     (case InsertStoreMessage_item E conn msg recv_time w of (_, w) \<Rightarrow> Ret (Closing conn, w))"
| "receipt_turn E junk (Closing conn) w = Ret (Settled, Connection_close E conn w)"
| "receipt_turn E junk Settled w = Ret (Settled, w)"

text \<open>One thread on its own: its turns are the handler.\<close>

fun own_turns :: "'s environment \<Rightarrow> MessageItem \<times> time_t \<Rightarrow> nat \<Rightarrow> receipt_at \<times> 's world \<Rightarrow> (receipt_at \<times> 's world) res" where
  "own_turns E junk 0 x = Ret x"
| "own_turns E junk (Suc n) (t, w) = bindR (receipt_turn E junk t w) (own_turns E junk n)"

lemma own_turns_Suc: "n = Suc m \<Longrightarrow> own_turns E junk n (t, w) = bindR (receipt_turn E junk t w) (own_turns E junk m)"
  by simp

lemma own_turns_settled [simp]: "own_turns E junk n (Settled, w) = Ret (Settled, w)"
  by (induction n) simp_all

lemma own_turns_found:
  "own_turns E junk 3 (Deleting c a b f msg rt, w) =
    (case DeleteOfflineMessage E c a b f w of (_, w) \<Rightarrow>
     case InsertStoreMessage_item E c msg rt w of (_, w) \<Rightarrow> Ret (Settled, Connection_close E c w))"
  by (simp add: numeral_3_eq_3 split: prod.split)

lemma own_turns_looking:
  "own_turns E junk 4 (LookingUp c a b f, w) =
    bindR (bindR (GetOfflineMessage E c a b f junk w) (\<lambda>(found, (msg, rt), w).
    bindR (if found \<and> msg_type msg = 0x60
      then case DeleteOfflineMessage E c a b f w of (_, w) \<Rightarrow>
           case InsertStoreMessage_item E c msg rt w of (_, w) \<Rightarrow> Ret w
      else Ret w) (\<lambda>w. Ret (Connection_close E c w)))) (\<lambda>w'. Ret (Settled, w'))"
proof (cases "GetOfflineMessage E c a b f junk w")
  case (Ret x)
  obtain found msg rt w1 where x: "x = (found, (msg, rt), w1)" by (cases x) auto
  have four: "own_turns E junk 4 (LookingUp c a b f, w) = own_turns E junk 3
      (if found \<and> msg_type msg = 0x60 then Deleting c a b f msg rt else Closing c, w1)"
    using Ret x by (simp add: own_turns_Suc [of 4 3] del: own_turns.simps)
  have "own_turns E junk 3 (Closing c, w1) = Ret (Settled, Connection_close E c w1)"
    by (simp add: numeral_3_eq_3)
  with Ret x show ?thesis
    by (simp add: four own_turns_found bindR_case_prod)
next
  case (Fault e)
  then show ?thesis by (simp add: own_turns_Suc [of 4 3] del: own_turns.simps)
qed

lemma own_turns_receipt:
  "own_turns E junk 5 (Arrived p, w) = bindR (ProcessReceipt E junk p w) (\<lambda>w'. Ret (Settled, w'))"
proof -
  have five: "own_turns E junk 5 (Arrived p, w) = bindR (receipt_turn E junk (Arrived p) w) (own_turns E junk 4)"
    by (rule own_turns_Suc) simp
  show ?thesis
    unfolding five receipt_turn.simps ProcessReceipt_def Let_def
    by (cases "head_from_id p"; cases "head_to_id p"; cases "ack_receipt_type p"; cases "ack_frame_id p";
        cases "GetConnection E w")
      (auto simp: own_turns_looking split: option.split simp del: own_turns.simps)
qed

section \<open>Several threads\<close>

definition race_turn ::
  "'s environment \<Rightarrow> MessageItem \<times> time_t \<Rightarrow> nat \<Rightarrow> receipt_at list \<times> 's world \<Rightarrow> (receipt_at list \<times> 's world) res" where
  "race_turn E junk i x =
     (case x of (ts, w) \<Rightarrow>
      if i < length ts then bindR (receipt_turn E junk (ts ! i) w) (\<lambda>(t, w). Ret (ts[i := t], w)) else Ret (ts, w))"

section \<open>Receipts of one message\<close>

text \<open>A request that is a receipt of the message \<open>k\<close>.\<close>

definition receipt_of :: "key \<Rightarrow> bytes \<Rightarrow> bool" where
  "receipt_of k p \<longleftrightarrow> (case (head_from_id p, head_to_id p, ack_receipt_type p, ack_frame_id p) of
     (Ret src, Ret dst, Ret t, Ret f) \<Rightarrow> t = 0x60 \<and> k = (ntohl dst, ntohl src, ntohs f)
   | _ \<Rightarrow> False)"

text \<open>Where a thread with such a receipt can be: what it found is the message of the row \<open>r\<close>.\<close>

fun on_way :: "key \<Rightarrow> record_row \<Rightarrow> receipt_at \<Rightarrow> bool" where
  "on_way k r (Arrived p) \<longleftrightarrow> receipt_of k p"
| "on_way k r (LookingUp c a b f) \<longleftrightarrow> (a, b, f) = k"
| "on_way k r (Deleting c a b f msg rt) \<longleftrightarrow> (a, b, f) = k \<and> msg = row_message r"
| "on_way k r (Storing c msg rt) \<longleftrightarrow> msg = row_message r"
| "on_way k r (Closing c) \<longleftrightarrow> True"
| "on_way k r Settled \<longleftrightarrow> True"

text \<open>Whether it may still store, whether it will for certain, and whether it is past the look-up with nothing to do.\<close>

fun may_store :: "receipt_at \<Rightarrow> nat" where
  "may_store (Closing c) = 0" | "may_store Settled = 0" | "may_store t = 1"

fun has_deleted :: "receipt_at \<Rightarrow> nat" where
  "has_deleted (Storing c msg rt) = 1" | "has_deleted t = 0"

fun before_delete :: "receipt_at \<Rightarrow> bool" where
  "before_delete (Arrived p) = True" | "before_delete (LookingUp c a b f) = True"
| "before_delete (Deleting c a b f msg rt) = True" | "before_delete t = False"

text \<open>A row of \<open>message_store\<close> with the text, number and type of a message.\<close>

definition stored :: "MessageItem \<Rightarrow> record_row \<Rightarrow> bool" where
  "stored m row \<longleftrightarrow> column_of row Text = VStr (msg_content m) \<and>
     column_of row Frame_id = VInt (uint (msg_frame_id m)) \<and> column_of row Type = VInt (uint (msg_type m))"

text \<open>
  While the threads run: the message is cached and none has come to its delete, or it is gone and has been
  stored or will be; it is stored at most once by each thread.
\<close>

definition settling ::
  "key \<Rightarrow> record_row \<Rightarrow> record_row list \<Rightarrow> record_row list \<Rightarrow> nat \<Rightarrow> receipt_at list \<Rightarrow> tables \<Rightarrow> bool" where
  "settling k r rs store n ts db \<longleftrightarrow>
     cache_ok db \<and> list_all (on_way k r) ts \<and>
     (\<exists>rows. db Message_store = store @ rows \<and> list_all (stored (row_message r)) rows \<and>
        length rows + sum_list (map may_store ts) \<le> n \<and>
        (with_key k (db Message_cache) = r # rs \<and> list_all before_delete ts \<or>
         with_key k (db Message_cache) = [] \<and> 0 < length rows + sum_list (map has_deleted ts)))"

lemma sum_list_map_update:
  fixes g :: "'a \<Rightarrow> nat"
  assumes "i < length ts"
  shows "sum_list (map g (ts[i := t])) + g (ts ! i) = sum_list (map g ts) + g t"
  using assms
proof (induction ts arbitrary: i)
  case (Cons x ts)
  then show ?case by (cases i) (auto simp: algebra_simps)
qed simp

lemma list_all_update: "list_all P ts \<Longrightarrow> P t \<Longrightarrow> list_all P (ts[i := t])"
  by (auto simp: list_all_iff dest: set_update_subset_insert [THEN subsetD])

context sql_server
begin

lemma GetOfflineMessage_missing:
  assumes "GetOfflineMessage E c src dst f out w = Ret (found, out', w')" and "cache_ok (db (ext w))"
    and "with_key (src, dst, f) (db (ext w) Message_cache) = []"
  shows "db (ext w') = db (ext w)" and "out' = out"
proof -
  let ?q = "select_offline_sql src dst f"
  obtain a w1 where e: "execute E c ?q w = (a, w1)" by fastforce
  have "result_of lit ?q (db (ext w)) = []"
    using assms(2,3) matches_key [where k = "(src, dst, f)"]
    by (auto simp: select_offline_sql_def with_key_def cache_ok_def list_all_iff filter_empty_conv)
  then show "db (ext w') = db (ext w)" and "out' = out"
    using assms(1) e execute_db [OF e]
    by (auto simp: GetOfflineMessage_def select_offline_sql_def split: answer.splits list.splits)
qed

lemma db_GetConnection:
  assumes "GetConnection E w = Ret (conn, w')"
  shows "db (ext w') = db (ext w)"
proof -
  obtain n c where got: "trace w' = trace w @ replicate n (Got None) @ [Got (Some c)]"
    using assms by (rule GetConnection_trace)
  have "replay dflt (replicate n (Got None) @ [Got (Some c)]) d = d" for d
    by (rule replay_no_sql) simp
  then show ?thesis
    using follows_replay [OF follows_GetConnection [OF assms]] got by (simp add: events_def)
qed

text \<open>A turn that leaves the tables as they are.\<close>

lemma settling_same:
  assumes "settling k r rs store n ts d" and "i < length ts" and "on_way k r t"
    and "may_store t \<le> may_store (ts ! i)" and "has_deleted t = has_deleted (ts ! i)"
    and "with_key k (d Message_cache) = r # rs \<Longrightarrow> before_delete (ts ! i) \<Longrightarrow> before_delete t"
  shows "settling k r rs store n (ts[i := t]) d"
proof -
  have "before_delete (ts ! i)" if "list_all before_delete ts" using that assms(2) by (simp add: list_all_length)
  then show ?thesis
    using assms sum_list_map_update [OF assms(2), of may_store t] sum_list_map_update [OF assms(2), of has_deleted t]
    by (fastforce simp: settling_def list_all_update)
qed

lemma stored_item: "stored m (complete_row (dflt Message_store) cvs)"
  if "insert_store_item_sql m rt t = Insert Message_store cvs" and "0 \<notin> set (msg_content m)"
  using that by (auto simp: stored_def insert_store_item_sql_def column_of_def map_of_complete_row cut_nul_no_nul)

text \<open>The turns that look the message up, delete it and store it, each from the state its case is in.\<close>

lemma look_up_settles:
  assumes "settling k r rs store n ts (db (ext w))" and "i < length ts" and "ts ! i = LookingUp c a b f"
    and "receipt_turn E junk (ts ! i) w = Ret (t, w')" and "msg_type (fst junk) \<noteq> 0x60"
    and "msg_type (row_message r) = 0x60" and "failures (events w w') = 0"
  shows "settling k r rs store n (ts[i := t]) (db (ext w'))"
proof -
  obtain found msg rt where
    o: "GetOfflineMessage E c a b f junk w = Ret (found, (msg, rt), w')"
    and t: "t = (if found \<and> msg_type msg = 0x60 then Deleting c a b f msg rt else Closing c)"
    using assms(3,4) by (auto simp: bindR_eq_Ret_iff)
  have ok: "cache_ok (db (ext w))" using assms(1) by (simp add: settling_def)
  have "on_way k r (ts ! i)" using assms(1,2) by (simp add: settling_def list_all_length)
  then have k: "k = (a, b, f)" using assms(3) by simp
  note same = settling_same [OF assms(1,2), of t]
  show ?thesis
  proof (cases "with_key k (db (ext w) Message_cache) = []")
    case True
    from GetOfflineMessage_missing [OF o ok True [unfolded k]] have "db (ext w') = db (ext w)" "msg = fst junk" by auto
    with same True assms(3,5) show ?thesis by (simp add: t)
  next
    case False
    then have key: "with_key k (db (ext w) Message_cache) = r # rs" using assms(1) by (auto simp: settling_def)
    have "\<not> trace w' = trace w @ [Sql c (select_offline_sql a b f) False]"
      using assms(7) by (auto simp: events_def)
    with GetOfflineMessage_tables [OF o ok key [unfolded k]]
    have "t = Deleting c a b f (row_message r) rt" "db (ext w') = db (ext w)"
      using assms(6) by (auto simp: t)
    with same assms(3) k show ?thesis by simp
  qed
qed

lemma delete_settles:
  assumes "settling k r rs store n ts (db (ext w))" and "i < length ts" and "ts ! i = Deleting c a b f msg rt"
    and "receipt_turn E junk (ts ! i) w = Ret (t, w')" and "failures (events w w') = 0"
  shows "settling k r rs store n (ts[i := t]) (db (ext w'))"
proof -
  obtain d where d: "DeleteOfflineMessage E c a b f w = (d, w')" and t: "t = Storing c msg rt"
    using assms(3,4) by (auto split: prod.splits)
  have ok: "cache_ok (db (ext w))" and way: "on_way k r (ts ! i)"
    using assms(1,2) by (simp_all add: settling_def list_all_length)
  have "d" using assms(5) DeleteOfflineMessage_trace [OF d] by (auto simp: events_def split: if_splits)
  with DeleteOfflineMessage_tables [OF d ok] have db': "db (ext w') = (db (ext w))(Message_cache :=
    filter (\<lambda>r. row_key r \<noteq> k) (db (ext w) Message_cache))" using way assms(3) by auto
  have gone: "with_key k (db (ext w') Message_cache) = []" by (simp add: db' with_key_def)
  have "cache_ok (db (ext w'))" using ok by (auto simp: db' cache_ok_def list_all_iff)
  with assms(1,3) gone way show ?thesis
    using sum_list_map_update [OF assms(2), of may_store t] sum_list_map_update [OF assms(2), of has_deleted t]
    by (fastforce simp: settling_def list_all_update t db')
qed

lemma store_settles:
  assumes "settling k r rs store n ts (db (ext w))" and "i < length ts" and "ts ! i = Storing c msg rt"
    and "receipt_turn E junk (ts ! i) w = Ret (t, w')" and "failures (events w w') = 0"
  shows "settling k r rs store n (ts[i := t]) (db (ext w'))"
proof -
  obtain s where s: "InsertStoreMessage_item E c msg rt w = (s, w')" and t: "t = Closing c"
    using assms(3,4) by (auto split: prod.splits)
  from InsertStoreMessage_item_tables [OF s] obtain now where
    tr: "trace w' = trace w @ [Clock now, Sql c (insert_store_item_sql msg rt now) s]"
    and db': "db (ext w') = (if s then effect dflt (insert_store_item_sql msg rt now) (db (ext w)) else db (ext w))" .
  have "s" using assms(5) tr by (auto simp: events_def split: if_splits)
  obtain cvs where cvs: "insert_store_item_sql msg rt now = Insert Message_store cvs"
    by (simp add: insert_store_item_sql_def)
  have ok: "cache_ok (db (ext w))" and "on_way k r (ts ! i)"
    using assms(1,2) by (simp_all add: settling_def list_all_length)
  then have m: "msg = row_message r" using assms(3) by simp
  let ?row = "complete_row (dflt Message_store) cvs"
  have row: "stored (row_message r) ?row" using stored_item cvs no_zero_row_message unfolding m by blast
  have db2: "db (ext w') = (db (ext w))(Message_store := db (ext w) Message_store @ [?row])"
    using db' \<open>s\<close> by (simp add: cvs)
  have "\<not> list_all before_delete ts"
    using assms(2,3) by (metis before_delete.simps(4) list_all_length)
  moreover have "cache_ok (db (ext w'))" using ok by (simp add: db2 cache_ok_def)
  ultimately show ?thesis
    using assms(1,3) row sum_list_map_update [OF assms(2), of may_store t]
      sum_list_map_update [OF assms(2), of has_deleted t]
    by (fastforce simp: settling_def list_all_update t db2)
qed

lemma receipt_turn_settles:
  assumes "settling k r rs store n ts (db (ext w))" and "i < length ts"
    and "receipt_turn E junk (ts ! i) w = Ret (t, w')" and "msg_type (fst junk) \<noteq> 0x60"
    and "msg_type (row_message r) = 0x60" and "failures (events w w') = 0"
  shows "settling k r rs store n (ts[i := t]) (db (ext w'))"
proof -
  note same = settling_same [OF assms(1,2), of t]
  show ?thesis
  proof (cases "ts ! i")
    case (Arrived p)
    have "on_way k r (ts ! i)" using assms(1,2) by (simp add: settling_def list_all_length)
    with assms(3) Arrived obtain c a b f where t: "t = LookingUp c a b f" "(a, b, f) = k"
      and g: "GetConnection E w = Ret (Some c, w')"
      by (auto simp: receipt_of_def bindR_eq_Ret_iff split: res.splits option.splits)
    with same Arrived show ?thesis by (simp add: db_GetConnection [OF g])
  next
    case (Closing c)
    with assms(3) have "t = Settled" "db (ext w') = db (ext w)" by (auto simp: calls_db)
    with same Closing show ?thesis by simp
  next
    case Settled
    with assms(3) same show ?thesis by simp
  qed (rule look_up_settles [OF assms(1,2) _ assms(3-6)] delete_settles [OF assms(1,2) _ assms(3,6)]
      store_settles [OF assms(1,2) _ assms(3,6)], assumption)+
qed

lemma receipt_turn_extends: "receipt_turn E junk t w = Ret (t', w') \<Longrightarrow> extends w w'"
proof (cases t)
  case (Arrived p)
  moreover assume "receipt_turn E junk t w = Ret (t', w')"
  ultimately have "w' = w \<or> (\<exists>c. GetConnection E w = Ret (c, w'))"
    by (auto simp: bindR_eq_Ret_iff Let_def split: if_splits option.splits)
  then show ?thesis by (auto simp: extends_def elim: GetConnection_trace)
next
  case (LookingUp c a b f)
  moreover assume "receipt_turn E junk t w = Ret (t', w')"
  ultimately obtain found out where "GetOfflineMessage E c a b f junk w = Ret (found, out, w')"
    by (auto simp: bindR_eq_Ret_iff)
  then show ?thesis by (auto simp: extends_def elim: GetOfflineMessage_trace)
next
  case (Deleting c a b f msg rt)
  moreover assume "receipt_turn E junk t w = Ret (t', w')"
  ultimately show ?thesis
    by (auto simp: extends_def split: prod.splits dest: DeleteOfflineMessage_trace)
next
  case (Storing c msg rt)
  moreover assume "receipt_turn E junk t w = Ret (t', w')"
  ultimately show ?thesis
    by (auto simp: extends_def split: prod.splits elim: InsertStoreMessage_item_trace)
qed (auto simp: extends_def trace_calls)

lemma race_turn_extends: "race_turn E junk i (ts, w) = Ret (ts', w') \<Longrightarrow> extends w w'"
  by (auto simp: race_turn_def bindR_eq_Ret_iff split: if_splits dest: receipt_turn_extends)

lemma race_extends: "run_all (race_turn E junk) turns (ts, w) = Ret (ts', w') \<Longrightarrow> extends w w'"
proof (induction turns arbitrary: ts w)
  case (Cons i turns)
  then obtain ts1 w1 where "race_turn E junk i (ts, w) = Ret (ts1, w1)"
    "run_all (race_turn E junk) turns (ts1, w1) = Ret (ts', w')" by (auto simp: bindR_eq_Ret_iff)
  with Cons.IH race_turn_extends show ?case by (blast intro: extends_trans)
qed simp

lemma race_settles:
  assumes "msg_type (fst junk) \<noteq> 0x60" and "msg_type (row_message r) = 0x60"
  shows "settling k r rs store n ts (db (ext w)) \<Longrightarrow> run_all (race_turn E junk) turns (ts, w) = Ret (ts', w') \<Longrightarrow>
    failures (events w w') = 0 \<Longrightarrow> settling k r rs store n ts' (db (ext w')) \<and> length ts' = length ts"
proof (induction turns arbitrary: ts w)
  case (Cons i turns)
  from Cons.prems(2) obtain ts1 w1 where 1: "race_turn E junk i (ts, w) = Ret (ts1, w1)"
    and 2: "run_all (race_turn E junk) turns (ts1, w1) = Ret (ts', w')" by (auto simp: bindR_eq_Ret_iff)
  have "events w w' = events w w1 @ events w1 w'"
    using race_turn_extends [OF 1] race_extends [OF 2] by (rule events_trans)
  then have f: "failures (events w w1) = 0" "failures (events w1 w') = 0" using Cons.prems(3) by simp_all
  have "settling k r rs store n ts1 (db (ext w1)) \<and> length ts1 = length ts"
  proof (cases "i < length ts")
    case True
    with 1 obtain t where "receipt_turn E junk (ts ! i) w = Ret (t, w1)" "ts1 = ts[i := t]"
      by (auto simp: race_turn_def bindR_eq_Ret_iff)
    with receipt_turn_settles [OF Cons.prems(1) True _ assms f(1)] show ?thesis by simp
  next
    case False
    with 1 Cons.prems(1) show ?thesis by (simp add: race_turn_def)
  qed
  with Cons.IH [of ts1 w1] 2 f(2) show ?case by simp
qed simp

end

section \<open>Properties\<close>


text \<open>The witness: two receipts, looked up by both threads before either deletes.\<close>

definition demo_memory_zero :: "MessageItem \<times> time_t" where
  "demo_memory_zero = ((fst demo_junk)\<lparr>msg_type := 0\<rparr>, 0)"

definition demo_race :: "nat list" where
  "demo_race = [0, 1, 0, 1, 0, 1, 0, 1, 0, 1]"

definition demo_race_world :: "memory world" where
  "demo_race_world = demo_waiting\<lparr>ext := (ext demo_waiting)\<lparr>mem_pool := [7, 8]\<rparr>\<rparr>"

definition demo_racers :: "receipt_at list \<times> memory world" where
  "demo_racers = (map Arrived [c_str (head_bytes demo_receipt), c_str (head_bytes demo_receipt)], demo_race_world)"


end
