(* ===== verification/Controller.thy ===== *)
theory Controller
  imports Handler QosDaemon
begin

text \<open>
  \<open>Database::Init\<close> of \<open>src/tools/database.cpp\<close>, and \<open>src/workmanager/controller.cpp\<close>: how
  the server is put together from its configuration, and taken down. A \<open>libconfig\<close> group is
  a record of what its lookups answer, \<open>None\<close> when a key is missing. Starting the
  connection pool is a parameter, \<open>start_pool url max_size\<close>, false when it throws.
  \<open>Run\<close>, which builds the Thrift server around \<open>LogicInterfaceHandler\<close>, is in \<open>Process\<close> with the
  threads; here it only matters whether \<open>server_\<close> is set.
\<close>

section \<open>Database\<close>

record Database =
  db_host_name :: string
  db_user :: string
  db_password :: string
  db_db_name :: string
  db_max_size :: i32
  db_mysql_url :: "string option"

record db_setting =
  set_host :: "string option"
  set_user :: "string option"
  set_password :: "string option"
  set_db :: "string option"
  set_max_size :: "i32 option"

definition url_text :: "Database \<Rightarrow> string" where
  "url_text d =
     ''mysql://'' @ db_host_name d @ ''/'' @ db_db_name d @ ''?user='' @ db_user d @
     ''&password='' @ db_password d"

text \<open>\<open>sprintf\<close> into \<open>char url[1024]\<close>: the text and its terminating zero have to fit.\<close>

definition url_size :: nat where "url_size = 1024"

definition Database_Init ::
  "(string \<Rightarrow> i32 \<Rightarrow> bool) \<Rightarrow> db_setting \<Rightarrow> Database \<Rightarrow> (bool \<times> Database) res" where
  "Database_Init start_pool s d =
     (case set_host s of None \<Rightarrow> Ret (False, d) | Some v \<Rightarrow> let d = d\<lparr>db_host_name := v\<rparr> in
      case set_user s of None \<Rightarrow> Ret (False, d) | Some v \<Rightarrow> let d = d\<lparr>db_user := v\<rparr> in
      case set_password s of None \<Rightarrow> Ret (False, d) | Some v \<Rightarrow> let d = d\<lparr>db_password := v\<rparr> in
      case set_db s of None \<Rightarrow> Ret (False, d) | Some v \<Rightarrow> let d = d\<lparr>db_db_name := v\<rparr> in
      case set_max_size s of None \<Rightarrow> Ret (False, d) | Some n \<Rightarrow> let d = d\<lparr>db_max_size := n\<rparr> in
      if url_size < length (url_text d) + 1 then Fault OutOfBounds
      else Ret (start_pool (url_text d) (db_max_size d), d\<lparr>db_mysql_url := Some (url_text d)\<rparr>))"

section \<open>Controller\<close>

record Controller =
  ctl_database :: Database
  ctl_schedule :: schedule  \<comment> \<open>of the \<open>SendHelper\<close> singleton\<close>
  ctl_qos :: QosSendDaemon
  ctl_user_manager :: bool  \<comment> \<open>the managers hold the database pointer\<close>
  ctl_message_manager :: bool
  ctl_mobile_manager :: bool
  ctl_server :: bool
  ctl_port :: i32
  ctl_write_timeout :: i32
  ctl_read_timeout :: i32
  ctl_thread_cnt :: i32
  ctl_stop :: bool

definition Controller_new :: "Database \<Rightarrow> Controller" where
  "Controller_new d =
     \<lparr>ctl_database = d, ctl_schedule = Map.empty, ctl_qos = QosSendDaemon_new,
      ctl_user_manager = False, ctl_message_manager = False, ctl_mobile_manager = False,
      ctl_server = False, ctl_port = 0, ctl_write_timeout = 0, ctl_read_timeout = 0,
      ctl_thread_cnt = 0, ctl_stop = False\<rparr>"

record server_setting =
  set_server_port :: "i32 option"
  set_write_timeout :: "i32 option"
  set_read_timeout :: "i32 option"
  set_thread_cnt :: "i32 option"

record config =
  cfg_Database :: "db_setting option"
  cfg_SendHelper :: "address_setting list option"
  cfg_Qos :: "qos_setting option"
  cfg_ThriftServer :: "server_setting option"

text \<open>\<open>Init\<close> of the three managers, which keep the pointer they are given; true stands for one that is not null.\<close>

definition UserManager_Init :: "bool \<Rightarrow> bool \<times> bool" where
  [simp]: "UserManager_Init database = (True, database)"
definition MessageManager_Init :: "bool \<Rightarrow> bool \<times> bool" where
  [simp]: "MessageManager_Init database = (True, database)"
definition MobileManager_Init :: "bool \<Rightarrow> bool \<times> bool" where
  [simp]: "MobileManager_Init database = (True, database)"

text \<open>A missing group throws \<open>SettingNotFoundException\<close>, which \<open>Init\<close> catches.\<close>

definition Controller_Init ::
  "(string \<Rightarrow> i32 \<Rightarrow> bool) \<Rightarrow> config \<Rightarrow> Controller \<Rightarrow> (bool \<times> Controller) res" where
  "Controller_Init start_pool cfg c =
     (case cfg_Database cfg of None \<Rightarrow> Ret (False, c) | Some db_set \<Rightarrow>
      bindR (Database_Init start_pool db_set (ctl_database c)) (\<lambda>(ok, d).
      let c = c\<lparr>ctl_database := d\<rparr> in
      if \<not> ok then Ret (False, c) else
      case cfg_SendHelper cfg of None \<Rightarrow> Ret (False, c) | Some addrs \<Rightarrow>
      case SendHelper_Init addrs (ctl_schedule c) of (ok, m) \<Rightarrow>
      let c = c\<lparr>ctl_schedule := m\<rparr> in
      if \<not> ok then Ret (False, c) else
      case cfg_Qos cfg of None \<Rightarrow> Ret (False, c) | Some qos_set \<Rightarrow>
      case QosSendDaemon_Init qos_set (ctl_qos c) of (ok, q) \<Rightarrow>
      let c = c\<lparr>ctl_qos := q\<rparr> in
      if \<not> ok then Ret (False, c) else
      case cfg_ThriftServer cfg of None \<Rightarrow> Ret (False, c) | Some s \<Rightarrow>
      case set_server_port s of None \<Rightarrow> Ret (False, c) | Some n \<Rightarrow> let c = c\<lparr>ctl_port := n\<rparr> in
      case set_write_timeout s of None \<Rightarrow> Ret (False, c) | Some n \<Rightarrow>
      let c = c\<lparr>ctl_write_timeout := n\<rparr> in
      case set_read_timeout s of None \<Rightarrow> Ret (False, c) | Some n \<Rightarrow>
      let c = c\<lparr>ctl_read_timeout := n\<rparr> in
      case set_thread_cnt s of None \<Rightarrow> Ret (False, c) | Some n \<Rightarrow>
      let c = c\<lparr>ctl_thread_cnt := n\<rparr>;
          c = c\<lparr>ctl_user_manager := snd (UserManager_Init True)\<rparr>;
          c = c\<lparr>ctl_message_manager := snd (MessageManager_Init True)\<rparr>;
          c = c\<lparr>ctl_mobile_manager := snd (MobileManager_Init True)\<rparr>
      in Ret (True, c)))"

text \<open>
  \<open>server_->stop()\<close> on a \<open>boost::shared_ptr\<close> that is not set fails the assertion of its
  \<open>operator->\<close>. The destructor calls \<open>Stop\<close> unless it was called before.
\<close>

definition Controller_Stop :: "Controller \<Rightarrow> Controller res" where
  "Controller_Stop c =
     (let c = c\<lparr>ctl_stop := True\<rparr> in
      if \<not> ctl_server c then Fault AssertFailed
      else Ret (c\<lparr>ctl_qos := QosSendDaemon_Stop (ctl_qos c)\<rparr>))"

definition Controller_delete :: "Controller \<Rightarrow> Controller res" where
  "Controller_delete c = (if ctl_stop c then Ret c else Controller_Stop c)"

section \<open>Facts about the set-up\<close>

definition all_present :: "config \<Rightarrow> bool" where
  "all_present cfg \<longleftrightarrow>
     (\<exists>d a q s. cfg_Database cfg = Some d \<and> cfg_SendHelper cfg = Some a \<and>
        cfg_Qos cfg = Some q \<and> cfg_ThriftServer cfg = Some s \<and>
        set_host d \<noteq> None \<and> set_user d \<noteq> None \<and> set_password d \<noteq> None \<and> set_db d \<noteq> None \<and>
        set_max_size d \<noteq> None \<and>
        (\<forall>x \<in> set a. set_beamid x \<noteq> None \<and> set_port x \<noteq> None \<and> set_ip x \<noteq> None) \<and>
        set_max_retry_count q \<noteq> None \<and> set_check_interval q \<noteq> None \<and> set_msg_interval q \<noteq> None \<and>
        set_server_port s \<noteq> None \<and> set_write_timeout s \<noteq> None \<and> set_read_timeout s \<noteq> None \<and>
        set_thread_cnt s \<noteq> None)"

lemma SendHelper_Init_ok:
  "fst (SendHelper_Init as m) \<longleftrightarrow>
     (\<forall>x \<in> set as. set_beamid x \<noteq> None \<and> set_port x \<noteq> None \<and> set_ip x \<noteq> None)"
  by (induction as m rule: SendHelper_Init.induct) (auto split: option.splits)

definition db_keys :: "db_setting \<Rightarrow> bool" where
  "db_keys s \<longleftrightarrow> set_host s \<noteq> None \<and> set_user s \<noteq> None \<and> set_password s \<noteq> None \<and>
     set_db s \<noteq> None \<and> set_max_size s \<noteq> None"

lemma Database_Init_ok:
  "Database_Init start_pool s d = Ret (ok, d') \<Longrightarrow>
   ok \<longleftrightarrow> db_keys s \<and> start_pool (url_text d') (db_max_size d')"
  by (auto simp: Database_Init_def db_keys_def Let_def url_text_def split: option.splits if_splits)

lemma QosSendDaemon_Init_ok:
  "QosSendDaemon_Init s q = (ok, q') \<Longrightarrow>
   (ok \<longleftrightarrow> set_max_retry_count s \<noteq> None \<and> set_check_interval s \<noteq> None \<and> set_msg_interval s \<noteq> None) \<and>
   (ok \<longrightarrow> qos_database q' \<and> \<not> qos_stop q')"
  by (auto simp: QosSendDaemon_Init_def Let_def split: option.splits)

lemma SendHelper_Init_ok':
  "SendHelper_Init as m = (ok, m') \<Longrightarrow>
   ok \<longleftrightarrow> (\<forall>x \<in> set as. set_beamid x \<noteq> None \<and> set_port x \<noteq> None \<and> set_ip x \<noteq> None)"
  using SendHelper_Init_ok [of as m] by simp

section \<open>Properties\<close>

text \<open>The configuration file of the repository, with one access server.\<close>

definition demo_database :: Database where
  "demo_database =
     \<lparr>db_host_name = [], db_user = [], db_password = [], db_db_name = [], db_max_size = 0,
      db_mysql_url = None\<rparr>"

definition demo_config :: config where
  "demo_config =
     \<lparr>cfg_Database = Some \<lparr>set_host = Some ''162.105.85.160'', set_user = Some ''root'',
        set_password = Some ''qatest'', set_db = Some ''beidou'', set_max_size = Some 30\<rparr>,
      cfg_SendHelper = Some demo_settings,
      cfg_Qos = Some \<lparr>set_max_retry_count = Some 3, set_check_interval = Some 2,
        set_msg_interval = Some 10\<rparr>,
      cfg_ThriftServer = Some \<lparr>set_server_port = Some 9090, set_write_timeout = Some 100,
        set_read_timeout = Some 100, set_thread_cnt = Some 25\<rparr>\<rparr>"

text \<open>
  C33: \<open>Init\<close> succeeds exactly when every group and key it looks up is in the configuration and
  the connection pool starts; then the managers and the daemon have the database, the daemon
  is ready to run, and the server is not yet there.
\<close>

theorem Controller_Init_complete:
  assumes "Controller_Init start_pool cfg (Controller_new d) = Ret (ok, c)"
  shows "(ok \<longleftrightarrow> all_present cfg \<and> start_pool (url_text (ctl_database c)) (db_max_size (ctl_database c))) \<and>
    (ok \<longrightarrow> ctl_user_manager c \<and> ctl_message_manager c \<and> ctl_mobile_manager c \<and>
       qos_database (ctl_qos c) \<and> \<not> qos_stop (ctl_qos c) \<and> \<not> ctl_server c)"
proof (cases "cfg_Database cfg")
  case None
  with assms show ?thesis by (simp add: Controller_Init_def all_present_def)
next
  case (Some s)
  with assms obtain ok1 d1 where d: "Database_Init start_pool s d = Ret (ok1, d1)"
    by (auto simp: Controller_Init_def Controller_new_def bindR_eq_Ret_iff)
  note ok1 = Database_Init_ok [OF d, unfolded db_keys_def]
  show ?thesis
  proof (cases "ok1")
    case False
    with assms Some d ok1 show ?thesis
      by (auto simp: Controller_Init_def Controller_new_def all_present_def)
  next
    case True
    show ?thesis
      using assms Some d ok1 True
      by (simp add: Controller_Init_def Controller_new_def all_present_def Let_def)
        (auto simp: Let_def split: option.splits prod.splits if_splits
          dest!: QosSendDaemon_Init_ok SendHelper_Init_ok')
  qed
qed

theorem Controller_Init_complete_witness:
  "\<exists>c. Controller_Init (\<lambda>u n. True) demo_config (Controller_new demo_database) = Ret (True, c) \<and>
     qos_database (ctl_qos c)"
proof -
  have "case Controller_Init (\<lambda>u n. True) demo_config (Controller_new demo_database) of
      Ret (ok, c) \<Rightarrow> ok | Fault e \<Rightarrow> False" by code_simp
  then obtain c where
    "Controller_Init (\<lambda>u n. True) demo_config (Controller_new demo_database) = Ret (True, c)"
    by (auto split: res.splits)
  with Controller_Init_complete [OF this] show ?thesis by blast
qed

text \<open>
  C34: The texts of the database group are put together in a buffer of 1024 bytes without a
  check: \<open>Init\<close> writes past its end exactly when host, user, password and database name have
  more than 998 characters together.
\<close>

theorem Controller_Init_overflow:
  assumes "cfg_Database cfg = Some \<lparr>set_host = Some hst, set_user = Some us, set_password = Some pw,
      set_db = Some dn, set_max_size = Some n\<rparr>"
  shows "Controller_Init start_pool cfg c = Fault OutOfBounds \<longleftrightarrow>
    998 < length hst + length us + length pw + length dn"
proof -
  let ?s = "\<lparr>set_host = Some hst, set_user = Some us, set_password = Some pw, set_db = Some dn,
    set_max_size = Some n\<rparr>"
  have "Database_Init start_pool ?s (ctl_database c) = Fault OutOfBounds \<longleftrightarrow>
      998 < length hst + length us + length pw + length dn"
    by (auto simp: Database_Init_def url_text_def url_size_def Let_def)
  moreover have "Controller_Init start_pool cfg c = Fault OutOfBounds \<longleftrightarrow>
      Database_Init start_pool ?s (ctl_database c) = Fault OutOfBounds"
  proof (cases "Database_Init start_pool ?s (ctl_database c)")
    case (Ret r)
    obtain ok d where r: "r = (ok, d)" by (cases r)
    have "Controller_Init start_pool cfg c \<noteq> Fault OutOfBounds"
      using assms Ret r by (simp add: Controller_Init_def Let_def split: option.split prod.split)
    with Ret show ?thesis by simp
  next
    case (Fault e)
    with assms show ?thesis by (simp add: Controller_Init_def)
  qed
  ultimately show ?thesis by simp
qed

theorem Controller_Init_overflow_witness:
  "Controller_Init (\<lambda>u n. True)
     (demo_config\<lparr>cfg_Database := Some \<lparr>set_host = Some ''h'', set_user = Some ''u'',
        set_password = Some (replicate 1000 CHR ''p''), set_db = Some ''d'', set_max_size = Some 30\<rparr>\<rparr>)
     (Controller_new demo_database) = Fault OutOfBounds"
  by (subst Controller_Init_overflow [where hst = "''h''" and us = "''u''" and dn = "''d''"
        and pw = "replicate 1000 CHR ''p''" and n = 30]) simp_all

lemma Controller_Init_keeps:
  assumes "Controller_Init start_pool cfg c = Ret (ok, c')"
  shows "ctl_stop c' = ctl_stop c \<and> ctl_server c' = ctl_server c"
proof (cases "cfg_Database cfg")
  case None
  with assms show ?thesis by (simp add: Controller_Init_def)
next
  case (Some s)
  with assms obtain ok1 d1 where "Database_Init start_pool s (ctl_database c) = Ret (ok1, d1)"
    by (auto simp: Controller_Init_def bindR_eq_Ret_iff)
  with assms Some show ?thesis
    by (cases ok1; simp add: Controller_Init_def Let_def)
      (auto simp: Let_def split: option.splits prod.splits if_splits)
qed

text \<open>
  When \<open>Init\<close> fails, \<open>main\<close> returns, and the destructor of the controller uses the server
  that was never made: the process ends in a failed assertion.
\<close>

theorem failed_init_aborts:
  assumes "Controller_Init start_pool cfg (Controller_new d) = Ret (False, c)"
  shows "Controller_delete c = Fault AssertFailed"
  using Controller_Init_keeps [OF assms]
  by (simp add: Controller_new_def Controller_delete_def Controller_Stop_def Let_def)

theorem failed_init_aborts_witness:
  "Controller_delete (Controller_new demo_database) = Fault AssertFailed"
  by (rule failed_init_aborts [of "\<lambda>u n. True" "demo_config\<lparr>cfg_Database := None\<rparr>" demo_database])
    (simp add: Controller_Init_def)

end
