(* ===== verification/Process.thy ===== *)
theory Process
  imports Controller
begin

text \<open>
  \<open>src/main.cpp\<close>: start and end of the process. After the set-up three threads run: \<open>main\<close> waits for
  a signal and then stops and joins the other two, the run thread builds the Thrift server
  and serves (\<open>Controller::Run\<close>), the retransmission thread makes its rounds until its flag is set. A step
  is one action of one thread or a signal, so every interleaving is a sequence of steps. Of
  the server it is used that \<open>serve()\<close> returns only after \<open>stop()\<close>, and can then return.
\<close>

section \<open>Set-up\<close>

datatype main_pc = Waiting | Stopping | StoppingServer | StoppingQos | JoiningRun | JoiningQos | Exited | Aborted
datatype run_pc = Building | Serving | RunDone
datatype qos_pc = Polling | QosDone

record process =
  p_ctl :: Controller
  p_stopped :: bool         \<comment> \<open>set by \<open>sig_int\<close>\<close>
  p_server_stopped :: bool  \<comment> \<open>\<open>server_->stop()\<close> was called\<close>
  p_main :: main_pc
  p_run :: run_pc
  p_qos :: qos_pc

definition start_threads :: "Controller \<Rightarrow> process" where
  "start_threads c = \<lparr>p_ctl = c, p_stopped = False, p_server_stopped = False, p_main = Waiting,
     p_run = Building, p_qos = Polling\<rparr>"

text \<open>
  \<open>main\<close> up to the start of the threads: \<open>Inl\<close> is the exit code it returns, after the destructor of
  the controller. A \<open>cfg\<close> of \<open>None\<close> is a \<open>readFile\<close> that throws, which nothing catches.
\<close>

definition main_init ::
  "bool \<Rightarrow> (string \<Rightarrow> i32 \<Rightarrow> bool) \<Rightarrow> config option \<Rightarrow> Database \<Rightarrow> (i32 + process) res" where
  "main_init log_init start_pool cfg d =
     (if \<not> log_init then Ret (Inl (- 1))
      else case cfg of None \<Rightarrow> Fault UncaughtException
      | Some config \<Rightarrow>
          bindR (Controller_Init start_pool config (Controller_new d)) (\<lambda>(ok, c).
          if \<not> ok then bindR (Controller_delete c) (\<lambda>_. Ret (Inl (- 1)))
          else Ret (Inr (start_threads c))))"

section \<open>The threads\<close>

text \<open>
  \<open>Run\<close> up to \<open>serve()\<close>: \<open>built\<close> tells whether everything in its \<open>try\<close> block was made without an
  exception. The result tells whether it goes on to serve.
\<close>

definition Controller_Run :: "bool \<Rightarrow> Controller \<Rightarrow> bool \<times> Controller" where
  "Controller_Run built c = (if built then (True, c\<lparr>ctl_server := True\<rparr>) else (False, c))"

inductive step :: "bool \<Rightarrow> process \<Rightarrow> process \<Rightarrow> bool" for built :: bool where
  sig_int: "p_main p \<notin> {Exited, Aborted} \<Longrightarrow> step built p (p\<lparr>p_stopped := True\<rparr>)"
| usleep: "p_main p = Waiting \<Longrightarrow> \<not> p_stopped p \<Longrightarrow> step built p p"
| leave_loop: "p_main p = Waiting \<Longrightarrow> p_stopped p \<Longrightarrow> step built p (p\<lparr>p_main := Stopping\<rparr>)"
| set_stop: "p_main p = Stopping \<Longrightarrow>
    step built p (p\<lparr>p_ctl := (p_ctl p)\<lparr>ctl_stop := True\<rparr>, p_main := StoppingServer\<rparr>)"
| server_stop: "p_main p = StoppingServer \<Longrightarrow> ctl_server (p_ctl p) \<Longrightarrow>
    step built p (p\<lparr>p_server_stopped := True, p_main := StoppingQos\<rparr>)"
| server_null: "p_main p = StoppingServer \<Longrightarrow> \<not> ctl_server (p_ctl p) \<Longrightarrow>
    step built p (p\<lparr>p_main := Aborted\<rparr>)"
| qos_stopped: "p_main p = StoppingQos \<Longrightarrow>
    step built p (p\<lparr>p_ctl := (p_ctl p)\<lparr>ctl_qos := QosSendDaemon_Stop (ctl_qos (p_ctl p))\<rparr>, p_main := JoiningRun\<rparr>)"
| join_run: "p_main p = JoiningRun \<Longrightarrow> p_run p = RunDone \<Longrightarrow> step built p (p\<lparr>p_main := JoiningQos\<rparr>)"
| join_qos: "p_main p = JoiningQos \<Longrightarrow> p_qos p = QosDone \<Longrightarrow> step built p (p\<lparr>p_main := Exited\<rparr>)"
| build: "p_main p \<noteq> Aborted \<Longrightarrow> p_run p = Building \<Longrightarrow> Controller_Run built (p_ctl p) = (serving, c) \<Longrightarrow>
    step built p (p\<lparr>p_ctl := c, p_run := (if serving then Serving else RunDone)\<rparr>)"
| serve_returns: "p_main p \<noteq> Aborted \<Longrightarrow> p_run p = Serving \<Longrightarrow> p_server_stopped p \<Longrightarrow>
    step built p (p\<lparr>p_run := RunDone\<rparr>)"
| qos_round: "p_main p \<noteq> Aborted \<Longrightarrow> p_qos p = Polling \<Longrightarrow> \<not> qos_stop (ctl_qos (p_ctl p)) \<Longrightarrow> step built p p"
| qos_leaves: "p_main p \<noteq> Aborted \<Longrightarrow> p_qos p = Polling \<Longrightarrow> qos_stop (ctl_qos (p_ctl p)) \<Longrightarrow>
    step built p (p\<lparr>p_qos := QosDone\<rparr>)"

inductive reachable :: "bool \<Rightarrow> Controller \<Rightarrow> process \<Rightarrow> bool" for built c where
  start: "reachable built c (start_threads c)"
| onward: "reachable built c p \<Longrightarrow> step built p q \<Longrightarrow> reachable built c q"

text \<open>The three steps of \<open>main\<close> in \<open>Stop\<close>, run without interruption, are \<open>Controller_Stop\<close>.\<close>

definition stopping :: "process \<Rightarrow> process res" where
  "stopping p = bindR (Controller_Stop (p_ctl p)) (\<lambda>c.
     Ret (p\<lparr>p_ctl := c, p_server_stopped := True, p_main := JoiningRun\<rparr>))"

lemma stopping_steps:
  assumes "p_main p = Stopping"
  shows "stopping p = Ret q \<Longrightarrow> (step built ^^ 3) p q"
    and "stopping p = Fault e \<Longrightarrow> \<exists>q. (step built ^^ 2) p q \<and> p_main q = Aborted"
proof -
  let ?c = "(p_ctl p)\<lparr>ctl_stop := True\<rparr>"
  let ?p1 = "p\<lparr>p_ctl := ?c, p_main := StoppingServer\<rparr>"
  have 1: "step built p ?p1" by (rule set_stop [OF assms])
  show "(step built ^^ 3) p q" if "stopping p = Ret q"
  proof -
    from that have s: "ctl_server ?c" "q = p\<lparr>p_ctl := ?c\<lparr>ctl_qos := QosSendDaemon_Stop (ctl_qos ?c)\<rparr>,
        p_server_stopped := True, p_main := JoiningRun\<rparr>"
      by (auto simp: stopping_def Controller_Stop_def Let_def split: if_splits)
    let ?p2 = "?p1\<lparr>p_server_stopped := True, p_main := StoppingQos\<rparr>"
    have 2: "step built ?p1 ?p2" by (rule server_stop) (use s in simp_all)
    let ?p3 = "?p2\<lparr>p_ctl := (p_ctl ?p2)\<lparr>ctl_qos := QosSendDaemon_Stop (ctl_qos (p_ctl ?p2))\<rparr>,
        p_main := JoiningRun\<rparr>"
    have "step built ?p2 ?p3" by (rule qos_stopped) simp
    moreover have "?p3 = q" by (cases p) (simp add: s(2))
    ultimately show ?thesis using 1 2 by (auto simp: numeral_3_eq_3 OO_def)
  qed
  show "\<exists>q. (step built ^^ 2) p q \<and> p_main q = Aborted" if "stopping p = Fault e"
  proof -
    from that have "\<not> ctl_server ?c"
      by (auto simp: stopping_def Controller_Stop_def Let_def split: if_splits)
    then have "step built ?p1 (?p1\<lparr>p_main := Aborted\<rparr>)" by (intro server_null) simp_all
    with 1 show ?thesis by (intro exI [of _ "?p1\<lparr>p_main := Aborted\<rparr>"]) (auto simp: numeral_2_eq_2 OO_def)
  qed
qed


section \<open>The reachable states\<close>

text \<open>How far each thread is from its end; a waiting thread or a round of the daemon is no progress.\<close>

fun main_left :: "main_pc \<Rightarrow> nat" where
  "main_left Waiting = 7"
| "main_left Stopping = 6"
| "main_left StoppingServer = 5"
| "main_left StoppingQos = 4"
| "main_left JoiningRun = 3"
| "main_left JoiningQos = 2"
| "main_left Exited = 0"
| "main_left Aborted = 0"

fun run_left :: "run_pc \<Rightarrow> nat" where
  "run_left Building = 2" | "run_left Serving = 1" | "run_left RunDone = 0"

fun qos_left :: "qos_pc \<Rightarrow> nat" where
  "qos_left Polling = 1" | "qos_left QosDone = 0"

definition left :: "process \<Rightarrow> nat" where
  "left p = main_left (p_main p) + run_left (p_run p) + qos_left (p_qos p) + (if p_stopped p then 0 else 1)"

lemma step_progress: "step built p q \<Longrightarrow> q = p \<or> left q < left p"
  by (induction rule: step.induct) (auto simp: left_def Controller_Run_def split: if_splits)

text \<open>How far \<open>main\<close> has come in \<open>Stop\<close> and after it.\<close>

fun past_flag :: "main_pc \<Rightarrow> bool" where
  "past_flag Waiting = False" | "past_flag Stopping = False" | "past_flag Aborted = False" | "past_flag _ = True"

fun past_server :: "main_pc \<Rightarrow> bool" where
  "past_server StoppingQos = True" | "past_server JoiningRun = True"
| "past_server JoiningQos = True" | "past_server Exited = True" | "past_server _ = False"

fun past_qos :: "main_pc \<Rightarrow> bool" where
  "past_qos JoiningRun = True" | "past_qos JoiningQos = True" | "past_qos Exited = True" | "past_qos _ = False"

fun past_run :: "main_pc \<Rightarrow> bool" where
  "past_run JoiningQos = True" | "past_run Exited = True" | "past_run _ = False"

definition process_inv :: "bool \<Rightarrow> process \<Rightarrow> bool" where
  "process_inv built p \<longleftrightarrow>
     (ctl_server (p_ctl p) \<longleftrightarrow> built \<and> p_run p \<noteq> Building) \<and>
     (p_run p = Serving \<longrightarrow> built) \<and>
     (p_server_stopped p \<longleftrightarrow> past_server (p_main p)) \<and>
     (past_server (p_main p) \<longrightarrow> built \<and> p_run p \<noteq> Building) \<and>
     (p_run p = RunDone \<longrightarrow> built \<longrightarrow> past_server (p_main p)) \<and>
     (past_flag (p_main p) \<longrightarrow> ctl_stop (p_ctl p)) \<and>
     (p_main p \<noteq> Waiting \<longrightarrow> p_stopped p) \<and>
     (p_main p = Aborted \<longrightarrow> \<not> ctl_server (p_ctl p)) \<and>
     (past_qos (p_main p) \<longrightarrow> qos_stop (ctl_qos (p_ctl p))) \<and>
     (past_run (p_main p) \<longrightarrow> p_run p = RunDone) \<and>
     (p_main p = Exited \<longrightarrow> p_qos p = QosDone)"

lemma step_inv: "step built p q \<Longrightarrow> process_inv built p \<Longrightarrow> process_inv built q"
proof (induction rule: step.induct)
  case (build p serving c)
  then have c: "serving = built" "c = (if built then (p_ctl p)\<lparr>ctl_server := True\<rparr> else p_ctl p)"
    by (auto simp: Controller_Run_def split: if_splits)
  show ?case using build(1,2,4) unfolding c process_inv_def by (cases built; cases "p_main p"; simp)
next
  case (sig_int p)
  then show ?case by (simp add: process_inv_def)
next
  case (usleep p)
  then show ?case by (simp add: process_inv_def)
next
  case (leave_loop p)
  then show ?case by (simp add: process_inv_def)
next
  case (set_stop p)
  then show ?case by (simp add: process_inv_def)
next
  case (server_stop p)
  then show ?case by (simp add: process_inv_def)
next
  case (server_null p)
  then show ?case unfolding process_inv_def by (cases built; cases "p_run p"; simp)
next
  case (qos_stopped p)
  then show ?case by (simp add: process_inv_def QosSendDaemon_Stop_def)
next
  case (join_run p)
  then show ?case by (simp add: process_inv_def)
next
  case (join_qos p)
  then show ?case by (simp add: process_inv_def)
next
  case (serve_returns p)
  then show ?case by (simp add: process_inv_def)
next
  case (qos_round p)
  then show ?case by (simp add: process_inv_def)
next
  case (qos_leaves p)
  then show ?case by (simp add: process_inv_def)
qed

lemma reachable_inv:
  assumes "reachable built c p" "\<not> ctl_server c"
  shows "process_inv built p"
  using assms(1)
proof induction
  case start
  then show ?case using assms(2) by (simp add: process_inv_def start_threads_def)
qed (rule step_inv)

lemma progress_possible:
  assumes inv: "process_inv built p" and server: "ctl_server (p_ctl p)"
    and stopped: "p_stopped p" "p_main p \<noteq> Exited"
  shows "\<exists>q. step built p q \<and> left q < left p"
proof (cases "p_main p")
  case Waiting
  with leave_loop [of p built] stopped show ?thesis by (intro exI conjI) (auto simp: left_def)
next
  case Stopping
  with set_stop [of p built] show ?thesis by (intro exI conjI) (auto simp: left_def)
next
  case StoppingServer
  with server_stop [of p built] server show ?thesis by (intro exI conjI) (auto simp: left_def)
next
  case StoppingQos
  with qos_stopped [of p built] show ?thesis by (intro exI conjI) (auto simp: left_def)
next
  case JoiningRun
  show ?thesis
  proof (cases "p_run p")
    case RunDone
    with JoiningRun join_run [of p built] show ?thesis by (intro exI conjI) (auto simp: left_def)
  next
    case Serving
    with JoiningRun inv serve_returns [of p built] show ?thesis
      by (intro exI conjI) (auto simp: left_def process_inv_def)
  qed (use inv server in \<open>simp add: process_inv_def\<close>)
next
  case JoiningQos
  show ?thesis
  proof (cases "p_qos p")
    case QosDone
    with JoiningQos join_qos [of p built] show ?thesis by (intro exI conjI) (auto simp: left_def)
  next
    case Polling
    with JoiningQos inv qos_leaves [of p built] show ?thesis
      by (intro exI conjI) (auto simp: left_def process_inv_def)
  qed
qed (use inv server stopped in \<open>auto simp: process_inv_def\<close>)

lemma main_init_server:
  "main_init li sp cfg d = Ret (Inr p) \<Longrightarrow> p = start_threads (p_ctl p) \<and> \<not> ctl_server (p_ctl p)"
  by (auto simp: main_init_def bindR_eq_Ret_iff Controller_new_def start_threads_def
      split: if_splits option.splits prod.splits dest!: Controller_Init_keeps)

section \<open>Properties\<close>


lemma demo_main:
  obtains p0 where "main_init True (\<lambda>u n. True) (Some demo_config) demo_database = Ret (Inr p0)"
proof -
  have "case main_init True (\<lambda>u n. True) (Some demo_config) demo_database of
      Ret (Inr p) \<Rightarrow> True | _ \<Rightarrow> False" by code_simp
  then show thesis using that by (auto split: res.splits sum.splits)
qed




end
