(* ===== verification/FifoQueue.thy ===== *)
theory FifoQueue
  imports Bytes
begin

text \<open>
  \<open>src/commons/fifo_queue.cpp\<close>: a ring of length-prefixed packets between a thread that
  pushes and one that pops. A pointer into \<open>buffer_\<close> is its offset and \<open>buf_end_\<close> is the
  offset \<open>length (buffer q)\<close>. Each operation but \<open>PeekNextPackLen\<close> runs under the mutex, so
  it is one step from state to state; a \<open>PopPacket\<close> that would wait on the condition is
  \<open>None\<close>. The interface \<open>packet_queue\<close> states what a FIFO of packets promises; the code keeps
  the promise while the bytes in flight leave a margin that its own test does not ask for.
\<close>

section \<open>The code\<close>

record fifo_queue =
  buffer :: bytes
  read_pos :: nat
  write_pos :: nat
  read_bytes :: u64
  write_bytes :: u64

definition MAX_PACK_SIZE :: int where "MAX_PACK_SIZE = 65535"
definition END_FLAG :: u16 where "END_FLAG = 0x0000"
definition PACK_LEN_SIZE :: nat where "PACK_LEN_SIZE = 2"

text \<open>\<open>Init\<close> over the block that \<open>new char[buf_size_]\<close> returned.\<close>

definition FifoQueue_Init :: "bytes \<Rightarrow> fifo_queue" where
  "FifoQueue_Init mem = \<lparr>buffer = mem, read_pos = 0, write_pos = 0, read_bytes = 0, write_bytes = 0\<rparr>"

definition FifoQueue_Reset :: "fifo_queue \<Rightarrow> fifo_queue" where
  "FifoQueue_Reset q = q\<lparr>read_pos := 0, write_pos := 0, read_bytes := 0, write_bytes := 0\<rparr>"

text \<open>The test for room, shared by \<open>PushPacket\<close> and \<open>Update\<close>: unsigned 64-bit arithmetic on both sides.\<close>

definition overflow :: "int \<Rightarrow> fifo_queue \<Rightarrow> bool" where
  "overflow len q \<longleftrightarrow>
     write_bytes q + word_of_int (2 * len) + word_of_nat (2 * (PACK_LEN_SIZE - 1)) >
     read_bytes q + word_of_nat (length (buffer q))"

definition store :: "nat \<Rightarrow> bytes \<Rightarrow> fifo_queue \<Rightarrow> fifo_queue res" where
  "store p bs q = bindR (put (buffer q) p bs) (\<lambda>m. Ret (q\<lparr>buffer := m\<rparr>))"

definition wrap_write :: "u16 \<Rightarrow> fifo_queue \<Rightarrow> fifo_queue res" where
  "wrap_write len q =
     (if write_pos q + PACK_LEN_SIZE > length (buffer q) then Ret (q\<lparr>write_pos := 0\<rparr>)
      else if write_pos q + unat len + 2 > length (buffer q)
      then bindR (store (write_pos q) (bytes16 END_FLAG) q) (\<lambda>q. Ret (q\<lparr>write_pos := 0\<rparr>))
      else Ret q)"

definition PushPacket :: "bytes \<Rightarrow> u16 \<Rightarrow> fifo_queue \<Rightarrow> (bool \<times> fifo_queue) res" where
  "PushPacket packet len q =
     (if \<not> int (unat len) < MAX_PACK_SIZE then Fault AssertFailed
      else if overflow (int (unat len)) q then Ret (False, q)
      else bindR (wrap_write len q) (\<lambda>q.
           bindR (store (write_pos q) (bytes16 len) q) (\<lambda>q.
           let q = q\<lparr>write_pos := write_pos q + PACK_LEN_SIZE\<rparr> in
           bindR (get packet 0 (unat len)) (\<lambda>data.
           bindR (store (write_pos q) data q) (\<lambda>q.
           Ret (True, q\<lparr>write_pos := write_pos q + unat len,
                        write_bytes := write_bytes q + word_of_nat (unat len + PACK_LEN_SIZE)\<rparr>))))))"

text \<open>The reader moves to the next packet: shared by \<open>PopPacket\<close> and \<open>PeekNextPackLen\<close>.\<close>

definition next_len :: "fifo_queue \<Rightarrow> (u16 \<times> fifo_queue) res" where
  "next_len q =
     (let q = (if read_pos q + PACK_LEN_SIZE > length (buffer q) then q\<lparr>read_pos := 0\<rparr> else q) in
      bindR (ld16 (buffer q) (read_pos q)) (\<lambda>len.
      if len = END_FLAG
      then let q = q\<lparr>read_pos := 0\<rparr> in bindR (ld16 (buffer q) (read_pos q)) (\<lambda>len. Ret (len, q))
      else Ret (len, q)))"

text \<open>\<open>out\<close> is the caller's buffer; the result is that buffer, the length and \<open>true\<close>.\<close>

definition PopPacket :: "bytes \<Rightarrow> fifo_queue \<Rightarrow> (bytes \<times> u16 \<times> bool \<times> fifo_queue) option res" where
  "PopPacket out q =
     (if read_bytes q \<ge> write_bytes q then Ret None
      else bindR (next_len q) (\<lambda>(len, q).
           let q = q\<lparr>read_pos := read_pos q + PACK_LEN_SIZE\<rparr> in
           bindR (get (buffer q) (read_pos q) (unat len)) (\<lambda>data.
           bindR (put out 0 data) (\<lambda>out.
           Ret (Some (out, len, True,
             q\<lparr>read_pos := read_pos q + unat len,
               read_bytes := read_bytes q + word_of_nat (unat len + PACK_LEN_SIZE)\<rparr>))))))"

definition PeekNextPackLen :: "fifo_queue \<Rightarrow> (u16 \<times> fifo_queue) res" where
  "PeekNextPackLen q = (if read_bytes q \<ge> write_bytes q then Ret (0, q) else next_len q)"

text \<open>
  \<open>Update\<close> records a packet that was received straight into the ring at \<open>recv_pos\<close>; \<open>len\<close> is the
  \<open>int\<close> that the receive call returned.
\<close>

definition store_at :: "int \<Rightarrow> bytes \<Rightarrow> fifo_queue \<Rightarrow> fifo_queue res" where
  "store_at p bs q = (if p < 0 then Fault OutOfBounds else store (nat p) bs q)"

definition Update :: "int \<Rightarrow> i32 \<Rightarrow> fifo_queue \<Rightarrow> (bool \<times> int \<times> fifo_queue) res" where
  "Update recv_pos len q =
     (if \<not> len < MAX_PACK_SIZE then Fault AssertFailed
      else bindR (store_at (recv_pos - int PACK_LEN_SIZE) (bytes16 (word_of_int len)) q) (\<lambda>q.
        if 2 * len < - 0x80000000 then Fault SignedOverflow
        else if overflow len q then Ret (False, recv_pos, q)
        else let recv_pos = recv_pos + (len + int PACK_LEN_SIZE) in
          bindR
            (if recv_pos > int (length (buffer q)) then Ret (int PACK_LEN_SIZE, q)
             else if recv_pos + len > int (length (buffer q))
             then bindR (store_at (recv_pos - int PACK_LEN_SIZE) (bytes16 END_FLAG) q)
               (\<lambda>q. Ret (int PACK_LEN_SIZE, q))
             else Ret (recv_pos, q))
            (\<lambda>(recv_pos, q).
               Ret (True, recv_pos, q\<lparr>write_bytes := write_bytes q + word_of_int (len + int PACK_LEN_SIZE)\<rparr>))))"

lemmas fifo_defs = store_def wrap_write_def PushPacket_def next_len_def PopPacket_def
  PeekNextPackLen_def store_at_def Update_def overflow_def MAX_PACK_SIZE_def END_FLAG_def PACK_LEN_SIZE_def

section \<open>Packets in a block\<close>

definition packet_bytes :: "bytes \<Rightarrow> bytes" where
  "packet_bytes x = bytes16 (word_of_nat (length x)) @ x"

definition enc :: "bytes list \<Rightarrow> bytes" where
  "enc xs = concat (map packet_bytes xs)"

lemma length_packet_bytes [simp]: "length (packet_bytes x) = length x + 2"
  by (simp add: packet_bytes_def)

lemma enc_simps [simp]: "enc [] = []" "enc (x # xs) = packet_bytes x @ enc xs" "enc (xs @ ys) = enc xs @ enc ys"
  by (simp_all add: enc_def)

text \<open>\<open>holds m p bs\<close>: the bytes \<open>bs\<close> stand at offset \<open>p\<close> of \<open>m\<close>.\<close>

definition holds :: "bytes \<Rightarrow> nat \<Rightarrow> bytes \<Rightarrow> bool" where
  "holds m p bs \<longleftrightarrow> p + length bs \<le> length m \<and> take (length bs) (drop p m) = bs"

lemma holds_Nil [simp]: "holds m p [] \<longleftrightarrow> p \<le> length m"
  by (simp add: holds_def)

lemma holds_append [simp]: "holds m p (a @ b) \<longleftrightarrow> holds m p a \<and> holds m (p + length a) b"
  by (auto simp: holds_def take_add add.commute append_eq_append_conv)

lemma holds_get: "holds m p bs \<Longrightarrow> get m p (length bs) = Ret bs"
  by (simp add: holds_def get_def)

lemma holds_nth: "holds m p bs \<longleftrightarrow> p + length bs \<le> length m \<and> (\<forall>i < length bs. m ! (p + i) = bs ! i)"
  by (auto simp: holds_def list_eq_iff_nth_eq)

lemma holds_ld16: "holds m p (bytes16 w) \<Longrightarrow> ld16 m p = Ret w"
  by (auto simp: holds_nth ld16_def bytes16_def less_Suc_eq numeral_2_eq_2)

lemma put_Ret:
  assumes "p + length bs \<le> length m"
  obtains m' where "put m p bs = Ret m'" "length m' = length m" "holds m' p bs"
    "\<And>r cs. holds m r cs \<Longrightarrow> r + length cs \<le> p \<or> p + length bs \<le> r \<Longrightarrow> holds m' r cs"
proof
  let ?m = "take p m @ bs @ drop (p + length bs) m"
  show "put m p bs = Ret ?m" "length ?m = length m" "holds ?m p bs"
    using assms by (auto simp: put_def holds_def)
  show "holds ?m r cs" if "holds m r cs" "r + length cs \<le> p \<or> p + length bs \<le> r" for r cs
    using that assms by (auto simp: holds_nth nth_append min_def)
qed

section \<open>The contents of the ring\<close>

definition proper :: "bytes \<Rightarrow> bool" where
  "proper x \<longleftrightarrow> 0 < length x \<and> length x < 65535"

text \<open>
  The unread packets \<open>xs\<close> lie between the reader and the writer: in one piece, or in two with
  a tail that the reader will skip, \<open>w\<close> bytes at most.
\<close>

definition one_piece :: "fifo_queue \<Rightarrow> bytes list \<Rightarrow> bool" where
  "one_piece q xs \<longleftrightarrow> holds (buffer q) (read_pos q) (enc xs) \<and> write_pos q = read_pos q + length (enc xs)"

definition two_pieces :: "nat \<Rightarrow> fifo_queue \<Rightarrow> bytes list \<Rightarrow> bytes list \<Rightarrow> bool" where
  "two_pieces w q ys zs \<longleftrightarrow>
     zs \<noteq> [] \<and> holds (buffer q) (read_pos q) (enc ys) \<and> holds (buffer q) 0 (enc zs) \<and>
     write_pos q = length (enc zs) \<and> write_pos q \<le> read_pos q \<and>
     length (buffer q) \<le> read_pos q + length (enc ys) + w \<and>
     (read_pos q + length (enc ys) + 2 > length (buffer q) \<or>
      holds (buffer q) (read_pos q + length (enc ys)) (bytes16 0))"

definition fifo_inv :: "nat \<Rightarrow> fifo_queue \<Rightarrow> bytes list \<Rightarrow> bool" where
  "fifo_inv l q xs \<longleftrightarrow>
     list_all (\<lambda>x. proper x \<and> length x \<le> l) xs \<and>
     unat (write_bytes q) = unat (read_bytes q) + length (enc xs) \<and>
     2 \<le> length (buffer q) \<and> length (buffer q) < 2 ^ 31 \<and>
     (one_piece q xs \<or> (\<exists>ys zs. xs = ys @ zs \<and> two_pieces (l + 1) q ys zs))"

lemma fifo_inv_Init: "2 \<le> length m \<Longrightarrow> length m < 2 ^ 31 \<Longrightarrow> fifo_inv l (FifoQueue_Init m) []"
  by (simp add: fifo_inv_def FifoQueue_Init_def one_piece_def)

lemma fifo_inv_Reset: "fifo_inv l q xs \<Longrightarrow> fifo_inv l (FifoQueue_Reset q) []"
  by (simp add: fifo_inv_def FifoQueue_Reset_def one_piece_def)

text \<open>The test for room, on the counters as numbers, until 2^63 bytes have passed.\<close>

lemma overflow_iff:
  assumes "unat (write_bytes q) < 2 ^ 63" "unat (read_bytes q) \<le> unat (write_bytes q)"
    "length (buffer q) < 2 ^ 31" "len < 65535"
  shows "overflow (int len) q \<longleftrightarrow> unat (write_bytes q) + 2 * len + 2 > unat (read_bytes q) + length (buffer q)"
proof -
  have "(2 :: nat) ^ 63 = 9223372036854775808" "(2 :: nat) ^ 31 = 2147483648" by simp_all
  note small = assms [unfolded this]
  have "unat (write_bytes q + word_of_nat (2 * len) + 2) = unat (write_bytes q) + 2 * len + 2"
    using small by (simp add: unat_word_ariths unat_of_nat)
  moreover have "unat (read_bytes q + word_of_nat (length (buffer q))) = unat (read_bytes q) + length (buffer q)"
    using small by (simp add: unat_word_ariths unat_of_nat)
  moreover have "(word_of_int (2 * int len) :: u64) = word_of_nat (2 * len)" by simp
  ultimately show ?thesis
    by (simp add: overflow_def PACK_LEN_SIZE_def word_less_nat_alt)
qed

section \<open>The interface\<close>

text \<open>
  Runs of a queue of packets of type \<open>'p\<close>: pushes and pops in the order in which they got
  the mutex, with what each returned.
\<close>

datatype 'p op = Push 'p | Pop
datatype 'p outcome = Pushed bool | Popped 'p | Waits

fun run :: "('p \<Rightarrow> 'q \<Rightarrow> (bool \<times> 'q) res) \<Rightarrow> ('q \<Rightarrow> ('p \<times> 'q) option res) \<Rightarrow> 'p op list \<Rightarrow> 'q \<Rightarrow>
    ('p outcome list \<times> 'q) res" where
  "run push pop [] q = Ret ([], q)"
| "run push pop (Push x # ops) q =
     bindR (push x q) (\<lambda>(ok, q). bindR (run push pop ops q) (\<lambda>(rs, q). Ret (Pushed ok # rs, q)))"
| "run push pop (Pop # ops) q =
     bindR (pop q) (\<lambda>r. case r of
       None \<Rightarrow> bindR (run push pop ops q) (\<lambda>(rs, q). Ret (Waits # rs, q))
     | Some (x, q) \<Rightarrow> bindR (run push pop ops q) (\<lambda>(rs, q). Ret (Popped x # rs, q)))"

text \<open>The same run on a list; \<open>full xs x\<close> is the test by which a push is refused.\<close>

fun list_run :: "('p list \<Rightarrow> 'p \<Rightarrow> bool) \<Rightarrow> 'p op list \<Rightarrow> 'p list \<Rightarrow> 'p outcome list" where
  "list_run full [] xs = []"
| "list_run full (Push x # ops) xs =
     Pushed (\<not> full xs x) # list_run full ops (if full xs x then xs else xs @ [x])"
| "list_run full (Pop # ops) [] = Waits # list_run full ops []"
| "list_run full (Pop # ops) (x # xs) = Popped x # list_run full ops xs"

text \<open>
  Each accepted push of the run has \<open>room\<close>: a condition on the packets in the queue and on the
  bytes \<open>n\<close> that have passed through it.
\<close>

fun roomy :: "('p list \<Rightarrow> 'p \<Rightarrow> bool) \<Rightarrow> (nat \<Rightarrow> 'p list \<Rightarrow> 'p \<Rightarrow> bool) \<Rightarrow> ('p \<Rightarrow> nat) \<Rightarrow> 'p op list \<Rightarrow> nat \<Rightarrow> 'p list \<Rightarrow> bool" where
  "roomy full room sz [] n xs = True"
| "roomy full room sz (Push x # ops) n xs =
     (room n xs x \<and>
      (if full xs x then roomy full room sz ops n xs else roomy full room sz ops (n + sz x) (xs @ [x])))"
| "roomy full room sz (Pop # ops) n xs = roomy full room sz ops n (tl xs)"

locale packet_queue =
  fixes push :: "'p \<Rightarrow> 'q \<Rightarrow> (bool \<times> 'q) res"
    and pop :: "'q \<Rightarrow> ('p \<times> 'q) option res"
    and inv :: "'q \<Rightarrow> nat \<Rightarrow> 'p list \<Rightarrow> bool"
    and full :: "'p list \<Rightarrow> 'p \<Rightarrow> bool"
    and room :: "nat \<Rightarrow> 'p list \<Rightarrow> 'p \<Rightarrow> bool"
    and sz :: "'p \<Rightarrow> nat"
  assumes push_full: "inv q n xs \<Longrightarrow> room n xs x \<Longrightarrow> full xs x \<Longrightarrow> push x q = Ret (False, q)"
    and push_room: "inv q n xs \<Longrightarrow> room n xs x \<Longrightarrow> \<not> full xs x \<Longrightarrow>
      \<exists>q'. push x q = Ret (True, q') \<and> inv q' (n + sz x) (xs @ [x])"
    and pop_empty: "inv q n [] \<Longrightarrow> pop q = Ret None"
    and pop_next: "inv q n (x # xs) \<Longrightarrow> \<exists>q'. pop q = Ret (Some (x, q')) \<and> inv q' n xs"
begin

lemma run_is_list_run:
  "inv q n xs \<Longrightarrow> roomy full room sz ops n xs \<Longrightarrow>
   \<exists>q' n' xs'. run push pop ops q = Ret (list_run full ops xs, q') \<and> inv q' n' xs'"
proof (induction ops arbitrary: q n xs)
  case Nil
  then show ?case by auto
next
  case (Cons a ops)
  show ?case
  proof (cases a)
    case (Push x)
    with Cons push_full [of q n xs x] push_room [of q n xs x] show ?thesis
      by (cases "full xs x") fastforce+
  next
    case Pop
    with Cons pop_empty [of q n] pop_next [of q n] show ?thesis
      by (cases xs) fastforce+
  qed
qed

end

section \<open>Pushing\<close>

lemma unat_length: "proper x \<Longrightarrow> unat (word_of_nat (length x) :: u16) = length x"
  by (simp add: proper_def unat_of_nat)

text \<open>Once the place is chosen, the packet is written there and nothing else changes.\<close>

lemma push_at:
  assumes "proper x" "\<not> overflow (int (length x)) q" "wrap_write (word_of_nat (length x)) q = Ret q1"
    and "write_pos q1 + length x + 2 \<le> length (buffer q1)"
  obtains m where
    "PushPacket x (word_of_nat (length x)) q = Ret (True, q1\<lparr>buffer := m, write_pos := write_pos q1 + length x + 2,
       write_bytes := write_bytes q1 + word_of_nat (length x + 2)\<rparr>)"
    "length m = length (buffer q1)" "holds m (write_pos q1) (packet_bytes x)"
    "\<And>r cs. holds (buffer q1) r cs \<Longrightarrow>
       r + length cs \<le> write_pos q1 \<or> write_pos q1 + length x + 2 \<le> r \<Longrightarrow> holds m r cs"
proof -
  let ?h = "bytes16 (word_of_nat (length x))"
  have "write_pos q1 + length ?h \<le> length (buffer q1)" using assms(4) by simp
  then obtain m1 where m1: "put (buffer q1) (write_pos q1) ?h = Ret m1" "length m1 = length (buffer q1)"
    "holds m1 (write_pos q1) ?h"
    "\<And>r cs. holds (buffer q1) r cs \<Longrightarrow> r + length cs \<le> write_pos q1 \<or> write_pos q1 + length ?h \<le> r \<Longrightarrow> holds m1 r cs"
    by (rule put_Ret) blast
  have "write_pos q1 + 2 + length x \<le> length m1" using assms(4) m1 by simp
  then obtain m where m: "put m1 (write_pos q1 + 2) x = Ret m" "length m = length m1"
    "holds m (write_pos q1 + 2) x"
    "\<And>r cs. holds m1 r cs \<Longrightarrow> r + length cs \<le> write_pos q1 + 2 \<or> write_pos q1 + 2 + length x \<le> r \<Longrightarrow> holds m r cs"
    by (rule put_Ret) blast
  have "length x < 65535" using assms(1) by (simp add: proper_def)
  moreover have "get x 0 (length x) = Ret x" by (simp add: get_def)
  ultimately have "PushPacket x (word_of_nat (length x)) q = Ret (True, q1\<lparr>buffer := m, write_pos := write_pos q1 + length x + 2,
       write_bytes := write_bytes q1 + word_of_nat (length x + 2)\<rparr>)"
    using assms m1(1) m(1)
    by (simp add: PushPacket_def store_def unat_length MAX_PACK_SIZE_def PACK_LEN_SIZE_def add.commute)
  moreover have "holds m (write_pos q1) (packet_bytes x)"
    using m m1(3) m(4) [of "write_pos q1" ?h] by (simp add: packet_bytes_def)
  moreover have "holds m r cs"
    if "holds (buffer q1) r cs" "r + length cs \<le> write_pos q1 \<or> write_pos q1 + length x + 2 \<le> r" for r cs
    using that m1(4) [of r cs] m(4) [of r cs] by auto
  ultimately show thesis using that m m1 by simp
qed

text \<open>The three places a packet can go, and what stands in the skipped tail.\<close>

lemma wrap_write_cases:
  assumes "write_pos q \<le> length (buffer q)" "proper x"
  obtains
    (here) "write_pos q + length x + 2 \<le> length (buffer q)" "wrap_write (word_of_nat (length x)) q = Ret q"
  | (start) m where "length (buffer q) < write_pos q + length x + 2"
      "wrap_write (word_of_nat (length x)) q = Ret (q\<lparr>buffer := m, write_pos := 0\<rparr>)" "length m = length (buffer q)"
      "write_pos q + 2 > length m \<or> holds m (write_pos q) (bytes16 0)"
      "\<And>r cs. holds (buffer q) r cs \<Longrightarrow> r + length cs \<le> write_pos q \<Longrightarrow> holds m r cs"
proof (cases "write_pos q + length x + 2 \<le> length (buffer q)")
  case True
  with assms show thesis by (intro here) (auto simp: wrap_write_def PACK_LEN_SIZE_def unat_length)
next
  case False
  show thesis
  proof (cases "write_pos q + 2 > length (buffer q)")
    case True
    with False show thesis
      by (intro start [of "buffer q"]) (auto simp: wrap_write_def PACK_LEN_SIZE_def)
  next
    case tail: False
    then have "write_pos q + length (bytes16 0) \<le> length (buffer q)" by simp
    then obtain m where "put (buffer q) (write_pos q) (bytes16 0) = Ret m" "length m = length (buffer q)"
      "holds m (write_pos q) (bytes16 0)"
      "\<And>r cs. holds (buffer q) r cs \<Longrightarrow> r + length cs \<le> write_pos q \<or> write_pos q + length (bytes16 0) \<le> r \<Longrightarrow> holds m r cs"
      by (rule put_Ret) blast
    with False tail assms show thesis
      by (intro start [of m])
        (auto simp: wrap_write_def store_def PACK_LEN_SIZE_def END_FLAG_def unat_length)
  qed
qed

text \<open>
  Room for a packet \<open>x\<close> when \<open>xs\<close> are unread, \<open>n\<close> bytes have passed, packets have at most \<open>l\<close>
  bytes and the ring has \<open>s\<close>: the margin covers a skipped tail. The code asks for less.
\<close>

definition fifo_full :: "nat \<Rightarrow> bytes list \<Rightarrow> bytes \<Rightarrow> bool" where
  "fifo_full s xs x \<longleftrightarrow> length (enc xs) + 2 * length x + 2 > s"

definition fifo_room :: "nat \<Rightarrow> nat \<Rightarrow> nat \<Rightarrow> bytes list \<Rightarrow> bytes \<Rightarrow> bool" where
  "fifo_room s l n xs x \<longleftrightarrow> proper x \<and> n + length x + 2 < 2 ^ 63 \<and>
     (fifo_full s xs x \<or> length x \<le> l \<and> length (enc xs) + length x + l + 3 \<le> s)"

definition fifo_state :: "nat \<Rightarrow> nat \<Rightarrow> fifo_queue \<Rightarrow> nat \<Rightarrow> bytes list \<Rightarrow> bool" where
  "fifo_state s l q n xs \<longleftrightarrow> fifo_inv l q xs \<and> unat (write_bytes q) = n \<and> length (buffer q) = s"

lemma full_overflow:
  assumes "fifo_state s l q n xs" "fifo_room s l n xs x"
  shows "overflow (int (length x)) q \<longleftrightarrow> fifo_full s xs x"
  using assms overflow_iff [of q "length x"]
  by (auto simp: fifo_state_def fifo_room_def fifo_inv_def fifo_full_def proper_def)

lemma write_bytes_add:
  assumes "fifo_room s l n xs x" "unat w = n"
  shows "unat (w + word_of_nat (length x + 2) :: u64) = n + length x + 2"
proof -
  have "(2 :: nat) ^ 63 = 9223372036854775808" by simp
  then have "n + length x + 2 < 9223372036854775808" using assms(1) unfolding fifo_room_def by argo
  with assms(2) show ?thesis by (simp add: unat_word_ariths unat_of_nat)
qed

lemma fifo_push_full:
  assumes "fifo_state s l q n xs" "fifo_room s l n xs x" "fifo_full s xs x"
  shows "PushPacket x (word_of_nat (length x)) q = Ret (False, q)"
  using assms full_overflow [OF assms(1,2)]
  by (auto simp: PushPacket_def fifo_room_def proper_def MAX_PACK_SIZE_def unat_of_nat)

lemma fifo_push_room:
  assumes st: "fifo_state s l q n xs" and rm: "fifo_room s l n xs x" and nf: "\<not> fifo_full s xs x"
  shows "\<exists>q'. PushPacket x (word_of_nat (length x)) q = Ret (True, q') \<and>
    fifo_state s l q' (n + (length x + 2)) (xs @ [x])"
proof -
  let ?len = "word_of_nat (length x) :: u16"
  have no: "\<not> overflow (int (length x)) q" using full_overflow [OF st rm] nf by simp
  have x: "proper x" "length x \<le> l" and s: "length (enc xs) + length x + l + 3 \<le> s" "length (buffer q) = s"
    and n: "unat (write_bytes q) = n"
    using st rm nf by (auto simp: fifo_room_def fifo_state_def)
  have inv: "list_all (\<lambda>x. proper x \<and> length x \<le> l) xs" "n = unat (read_bytes q) + length (enc xs)" "2 \<le> s" "s < 2 ^ 31"
    using st by (auto simp: fifo_state_def fifo_inv_def)
  note wb = write_bytes_add [OF rm n]
  have fin: "fifo_state s l (q1\<lparr>buffer := m, write_pos := p, write_bytes := write_bytes q1 + word_of_nat (length x + 2)\<rparr>)
      (n + (length x + 2)) (xs @ [x])"
    if "length m = s" "read_bytes q1 = read_bytes q" "write_bytes q1 = write_bytes q" "read_pos q1 = read_pos q"
      "one_piece (q\<lparr>buffer := m, write_pos := p\<rparr>) (xs @ [x]) \<or>
       (\<exists>ys zs. xs @ [x] = ys @ zs \<and> two_pieces (l + 1) (q\<lparr>buffer := m, write_pos := p\<rparr>) ys zs)" for q1 m p
    using that x inv wb
    by (simp add: fifo_state_def fifo_inv_def one_piece_def two_pieces_def)
  consider (one) "one_piece q xs" | (two) ys zs where "xs = ys @ zs" "two_pieces (l + 1) q ys zs"
    using st by (auto simp: fifo_state_def fifo_inv_def)
  then show ?thesis
  proof cases
    case one
    then have h: "holds (buffer q) (read_pos q) (enc xs)" "write_pos q = read_pos q + length (enc xs)"
      by (simp_all add: one_piece_def)
    then have "write_pos q \<le> length (buffer q)" by (simp add: holds_def)
    then show ?thesis using x(1)
    proof (cases rule: wrap_write_cases)
      case here
      from push_at [OF x(1) no here(2,1)] obtain m where
        p: "PushPacket x ?len q = Ret (True, q\<lparr>buffer := m, write_pos := write_pos q + length x + 2,
           write_bytes := write_bytes q + word_of_nat (length x + 2)\<rparr>)"
        and m: "length m = length (buffer q)" "holds m (write_pos q) (packet_bytes x)"
        "holds m (read_pos q) (enc xs)"
        using h by (metis order_refl)
      have "one_piece (q\<lparr>buffer := m, write_pos := write_pos q + length x + 2\<rparr>) (xs @ [x])"
        using h m by (simp add: one_piece_def)
      with p m s fin [of m q "write_pos q + length x + 2"] show ?thesis by auto
    next
      case (start m0)
      have fit: "length x + 2 \<le> read_pos q" using start(1) h s x by simp
      from start(3) s have "write_pos (q\<lparr>buffer := m0, write_pos := 0\<rparr>) + length x + 2 \<le> length (buffer (q\<lparr>buffer := m0, write_pos := 0\<rparr>))"
        by simp
      from push_at [OF x(1) no start(2) this] obtain m where
        p: "PushPacket x ?len q = Ret (True, q\<lparr>buffer := m, write_pos := length x + 2,
           write_bytes := write_bytes q + word_of_nat (length x + 2)\<rparr>)"
        and m: "length m = length m0" "holds m 0 (packet_bytes x)"
        "\<And>r cs. holds m0 r cs \<Longrightarrow> r + length cs \<le> 0 \<or> length x + 2 \<le> r \<Longrightarrow> holds m r cs"
        by auto
      have "holds m (read_pos q) (enc xs)" using m(3) start(5) h fit by auto
      moreover have "write_pos q + 2 > length m \<or> holds m (write_pos q) (bytes16 0)"
        using m(1,3) start(4) fit h by auto
      ultimately have "two_pieces (l + 1) (q\<lparr>buffer := m, write_pos := length x + 2\<rparr>) xs [x]"
        using m fit start(1,3) h x by (simp add: two_pieces_def)
      with p m start(3) s fin [of m q "length x + 2"] show ?thesis by auto
    qed
  next
    case two
    let ?e = "read_pos q + length (enc ys)"
    from two have h: "holds (buffer q) (read_pos q) (enc ys)" "holds (buffer q) 0 (enc zs)" "zs \<noteq> []"
      "write_pos q = length (enc zs)" "write_pos q \<le> read_pos q" "length (buffer q) \<le> ?e + (l + 1)"
      "?e + 2 > length (buffer q) \<or> holds (buffer q) ?e (bytes16 0)"
      by (simp_all add: two_pieces_def)
    have fit: "write_pos q + length x + 2 \<le> read_pos q" using h s two(1) by simp
    moreover have "read_pos q \<le> length (buffer q)" using h(1) by (simp add: holds_def)
    ultimately have here: "write_pos q + length x + 2 \<le> length (buffer q)" by simp
    then have "wrap_write ?len q = Ret q"
      using x by (simp add: wrap_write_def PACK_LEN_SIZE_def unat_length)
    from push_at [OF x(1) no this here] obtain m where
      p: "PushPacket x ?len q = Ret (True, q\<lparr>buffer := m, write_pos := write_pos q + length x + 2,
         write_bytes := write_bytes q + word_of_nat (length x + 2)\<rparr>)"
      and m: "length m = length (buffer q)" "holds m (write_pos q) (packet_bytes x)"
      "\<And>r cs. holds (buffer q) r cs \<Longrightarrow> r + length cs \<le> write_pos q \<or> write_pos q + length x + 2 \<le> r \<Longrightarrow> holds m r cs"
      by auto
    have "two_pieces (l + 1) (q\<lparr>buffer := m, write_pos := write_pos q + length x + 2\<rparr>) ys (zs @ [x])"
      using m h fit m(3) [OF h(1)] m(3) [OF h(2)] m(3) [of ?e "bytes16 0"] by (auto simp: two_pieces_def)
    with two(1) p m s fin [of m q "write_pos q + length x + 2"] show ?thesis by auto
  qed
qed

section \<open>Popping\<close>

text \<open>The reader at a packet: in one piece with it, or at the tail that leads to it.\<close>

lemma next_len_holds:
  assumes "holds (buffer q) (read_pos q) (packet_bytes x)" "proper x"
  shows "next_len q = Ret (word_of_nat (length x), q)"
proof -
  have "ld16 (buffer q) (read_pos q) = Ret (word_of_nat (length x))" "read_pos q + 2 \<le> length (buffer q)"
    using assms(1) by (auto simp: packet_bytes_def intro: holds_ld16) (simp add: holds_def)
  moreover have "(word_of_nat (length x) :: u16) \<noteq> 0"
    using assms(2) unat_length [OF assms(2)] by (auto simp: proper_def)
  ultimately show ?thesis by (simp add: next_len_def PACK_LEN_SIZE_def END_FLAG_def)
qed

lemma next_len_tail:
  assumes "holds (buffer q) 0 (packet_bytes x)" "proper x"
    and "read_pos q + 2 > length (buffer q) \<or> holds (buffer q) (read_pos q) (bytes16 0)"
  shows "next_len q = Ret (word_of_nat (length x), q\<lparr>read_pos := 0\<rparr>)"
proof -
  have ld: "ld16 (buffer q) 0 = Ret (word_of_nat (length x))"
    using assms(1) by (auto simp: packet_bytes_def intro: holds_ld16)
  moreover have "(word_of_nat (length x) :: u16) \<noteq> 0"
    using assms(2) unat_length [OF assms(2)] by (auto simp: proper_def)
  moreover have "ld16 (buffer q) (read_pos q) = Ret 0 \<and> \<not> read_pos q + 2 > length (buffer q)"
    if "\<not> read_pos q + 2 > length (buffer q)"
    using assms(3) that by (auto intro: holds_ld16)
  ultimately show ?thesis
    by (cases "read_pos q + 2 > length (buffer q)") (auto simp: next_len_def PACK_LEN_SIZE_def END_FLAG_def)
qed

lemma pop_at:
  assumes "next_len q = Ret (word_of_nat (length x), q1)" "holds (buffer q1) (read_pos q1) (packet_bytes x)"
    and "proper x" "read_bytes q < write_bytes q" "length x \<le> length out"
  shows "PopPacket out q = Ret (Some (x @ drop (length x) out, word_of_nat (length x), True,
    q1\<lparr>read_pos := read_pos q1 + length (packet_bytes x),
       read_bytes := read_bytes q1 + word_of_nat (length (packet_bytes x))\<rparr>))"
proof -
  have "get (buffer q1) (read_pos q1 + 2) (length x) = Ret x"
    using assms(2) by (auto simp: packet_bytes_def intro: holds_get)
  moreover have "put out 0 x = Ret (x @ drop (length x) out)" using assms(5) by (simp add: put_def)
  moreover have "word_of_nat (unat (word_of_nat (length x) :: u16)) = (word_of_nat (length x) :: u64)"
    by (simp only: unat_length [OF assms(3)])
  then have "ucast (word_of_nat (length x) :: u16) = (word_of_nat (length x) :: u64)" by simp
  ultimately show ?thesis
    using assms(1,4)
    by (simp add: PopPacket_def PACK_LEN_SIZE_def unat_length [OF assms(3)] not_le add.commute add.left_commute)
qed

lemma unat_minus_counted:
  assumes "unat (w :: u64) = unat r + (k + m)"
  shows "unat (r + word_of_nat k) = unat r + k" "0 < k \<Longrightarrow> r < w"
proof -
  have "unat w < 2 ^ 64" using unsigned_less [of w] by simp
  with assms have "unat r + k < 2 ^ 64" "k < 2 ^ 64" by simp_all
  then show "unat (r + word_of_nat k) = unat r + k"
    by (simp add: unat_word_ariths unat_of_nat)
  show "r < w" if "0 < k" using assms that by (simp add: word_less_nat_alt)
qed

lemma fifo_pop_empty: "fifo_state s l q n [] \<Longrightarrow> PopPacket out q = Ret None"
  by (auto simp: fifo_state_def fifo_inv_def PopPacket_def word_le_nat_alt)

lemma fifo_pop_next:
  assumes st: "fifo_state s l q n (x # xs)" and out: "l \<le> length out"
  shows "\<exists>q'. PopPacket out q = Ret (Some (x @ drop (length x) out, word_of_nat (length x), True, q')) \<and>
    fifo_state s l q' n xs"
proof -
  have inv: "list_all (\<lambda>x. proper x \<and> length x \<le> l) xs" "2 \<le> s" "s < 2 ^ 31" "length (buffer q) = s"
      "unat (write_bytes q) = n"
    and x: "proper x" "length x \<le> length out"
    and w: "unat (write_bytes q) = unat (read_bytes q) + (length (packet_bytes x) + length (enc xs))"
    using st out by (auto simp: fifo_state_def fifo_inv_def)
  note cnt = unat_minus_counted [OF w]
  have lt: "read_bytes q < write_bytes q" using cnt(2) by simp
  have fin: "fifo_state s l (q1\<lparr>read_pos := p, read_bytes := read_bytes q1 + word_of_nat (length (packet_bytes x))\<rparr>) n xs"
    if "buffer q1 = buffer q" "write_pos q1 = write_pos q" "write_bytes q1 = write_bytes q" "read_bytes q1 = read_bytes q"
      "one_piece (q\<lparr>read_pos := p\<rparr>) xs \<or> (\<exists>ys zs. xs = ys @ zs \<and> two_pieces (l + 1) (q\<lparr>read_pos := p\<rparr>) ys zs)" for q1 p
    using that inv w cnt(1) by (auto simp: fifo_state_def fifo_inv_def one_piece_def two_pieces_def)
  consider (one) "one_piece q (x # xs)"
    | (tail) zs where "x # xs = zs" "two_pieces (l + 1) q [] zs"
    | (two) ys zs where "xs = ys @ zs" "two_pieces (l + 1) q (x # ys) zs"
    using st by (fastforce simp: fifo_state_def fifo_inv_def Cons_eq_append_conv)
  then show ?thesis
  proof cases
    case one
    then have h: "holds (buffer q) (read_pos q) (packet_bytes x)"
      "one_piece (q\<lparr>read_pos := read_pos q + length (packet_bytes x)\<rparr>) xs"
      by (auto simp: one_piece_def)
    from pop_at [OF next_len_holds [OF h(1) x(1)] h(1) x(1) lt x(2)] fin [of q] h(2) show ?thesis by blast
  next
    case tail
    then have h: "holds (buffer q) 0 (packet_bytes x)"
      "read_pos q + 2 > length (buffer q) \<or> holds (buffer q) (read_pos q) (bytes16 0)"
      "one_piece (q\<lparr>read_pos := length (packet_bytes x)\<rparr>) xs"
      by (auto simp: one_piece_def two_pieces_def)
    then have "holds (buffer (q\<lparr>read_pos := 0\<rparr>)) (read_pos (q\<lparr>read_pos := 0\<rparr>)) (packet_bytes x)" by simp
    from pop_at [OF next_len_tail [OF h(1) x(1) h(2)] this x(1) lt x(2)] fin [of "q\<lparr>read_pos := 0\<rparr>"] h(3)
    show ?thesis by auto
  next
    case two
    then have h: "holds (buffer q) (read_pos q) (packet_bytes x)"
      "two_pieces (l + 1) (q\<lparr>read_pos := read_pos q + length (packet_bytes x)\<rparr>) ys zs"
      by (auto simp: two_pieces_def add.assoc)
    from pop_at [OF next_len_holds [OF h(1) x(1)] h(1) x(1) lt x(2)] fin [of q] h(2) two(1) show ?thesis by blast
  qed
qed

text \<open>The code as a queue of packets: the caller's buffer \<open>out\<close> has room for the longest.\<close>

definition push_packet :: "bytes \<Rightarrow> fifo_queue \<Rightarrow> (bool \<times> fifo_queue) res" where
  "push_packet x q = PushPacket x (word_of_nat (length x)) q"

definition pop_packet :: "bytes \<Rightarrow> fifo_queue \<Rightarrow> (bytes \<times> fifo_queue) option res" where
  "pop_packet out q = bindR (PopPacket out q) (\<lambda>r. Ret (case r of
     None \<Rightarrow> None | Some (out, len, ok, q) \<Rightarrow> Some (take (unat len) out, q)))"

interpretation fifo: packet_queue push_packet "pop_packet (replicate l 0)" "fifo_state s l" "fifo_full s"
  "fifo_room s l" "\<lambda>x. length x + 2" for s l
proof unfold_locales
  show "\<exists>q'. pop_packet (replicate l 0) q = Ret (Some (x, q')) \<and> fifo_state s l q' n xs"
    if "fifo_state s l q n (x # xs)" for q n x xs
  proof -
    have "proper x" using that by (simp add: fifo_state_def fifo_inv_def)
    then show ?thesis
      using fifo_pop_next [OF that, of "replicate l 0"] by (auto simp: pop_packet_def unat_length)
  qed
  show "\<exists>q'. push_packet x q = Ret (True, q') \<and> fifo_state s l q' (n + (length x + 2)) (xs @ [x])"
    if "fifo_state s l q n xs" "fifo_room s l n xs x" "\<not> fifo_full s xs x" for q n xs x
    using fifo_push_room [OF that] unfolding push_packet_def .
qed (auto simp: push_packet_def pop_packet_def fifo_push_full fifo_pop_empty)

section \<open>Properties\<close>

text \<open>
  C18: A new ring behaves as a first-in first-out queue of packets through any sequence of pushes and pops:
  every push is accepted or refused by the code's own test, every pop returns the oldest packet, byte for
  byte, or waits when there is none. It holds as long as no packet is empty or longer than \<open>l\<close>, and the
  bytes in flight leave \<open>l + 1\<close> bytes for the tail that a wrap skips.
\<close>

theorem FifoQueue_refines_list:
  assumes "2 \<le> length mem" and "length mem < 2 ^ 31"
    and "roomy (fifo_full (length mem)) (fifo_room (length mem) l) (\<lambda>x. length x + 2) ops 0 []"
  shows "\<exists>q. run push_packet (pop_packet (replicate l 0)) ops (FifoQueue_Init mem) =
    Ret (list_run (fifo_full (length mem)) ops [], q)"
proof -
  have "fifo_state (length mem) l (FifoQueue_Init mem) 0 []"
    using fifo_inv_Init [OF assms(1,2)] by (simp add: fifo_state_def FifoQueue_Init_def)
  from fifo.run_is_list_run [OF this assms(3)] show ?thesis by blast
qed

definition demo_ops :: "bytes op list" where
  "demo_ops = [Push [1, 2], Push [3], Pop, Pop, Pop, Push [4, 5], Push [1, 2, 3, 4, 5], Pop, Push [6], Push [7], Pop, Pop]"

theorem FifoQueue_refines_list_witness:
  "\<exists>q. run push_packet (pop_packet (replicate 3 0)) demo_ops (FifoQueue_Init (replicate 14 0)) =
    Ret ([Pushed True, Pushed True, Popped [1, 2], Popped [3], Waits, Pushed True, Pushed False,
      Popped [4, 5], Pushed True, Pushed True, Popped [6], Popped [7]], q)"
proof -
  have "roomy (fifo_full (length (replicate 14 (0 :: u8)))) (fifo_room (length (replicate 14 (0 :: u8))) 3)
      (\<lambda>x. length x + 2) demo_ops 0 []"
    by (simp add: demo_ops_def fifo_full_def fifo_room_def proper_def)
  moreover have "list_run (fifo_full (length (replicate 14 (0 :: u8)))) demo_ops [] =
      [Pushed True, Pushed True, Popped [1, 2], Popped [3], Waits, Pushed True, Pushed False,
       Popped [4, 5], Pushed True, Pushed True, Popped [6], Popped [7]]"
    by (simp add: demo_ops_def fifo_full_def)
  ultimately show ?thesis
    using FifoQueue_refines_list [of "replicate 14 0" 3 demo_ops] by simp
qed


text \<open>
  An accepted empty packet is taken for the end mark: the pop that should return it returns the packet at the start
  of the ring once more, and the count of bytes read passes the count of bytes written.
\<close>

theorem FifoQueue_empty_packet:
  "case run push_packet (pop_packet (replicate 4 0)) [Push [7], Pop, Push [], Pop]
      (FifoQueue_Init (replicate 20 0)) of
     Fault e \<Rightarrow> False
   | Ret (rs, q) \<Rightarrow> rs = [Pushed True, Popped [7], Pushed True, Popped [7]] \<and> write_bytes q < read_bytes q"
  by code_simp

lemma store_Ret:
  assumes "p + length bs \<le> length (buffer q)"
  obtains m where "store p bs q = Ret (q\<lparr>buffer := m\<rparr>)" "length m = length (buffer q)" "holds m p bs"
proof -
  obtain m where "put (buffer q) p bs = Ret m" "length m = length (buffer q)" "holds m p bs"
    by (rule put_Ret [OF assms]) blast
  then show thesis by (intro that [of m]) (simp_all add: store_def)
qed

text \<open>
  \<open>PushPacket\<close> writes inside the ring and leaves the write position inside it, for every packet
  and ring, whatever the ring holds, as long as no more was read than written.
\<close>

theorem PushPacket_in_bounds:
  assumes "write_pos q \<le> length (buffer q)" and "2 \<le> length (buffer q)" and "length (buffer q) < 2 ^ 31"
    and "unat (read_bytes q) \<le> unat (write_bytes q)" and "unat (write_bytes q) < 2 ^ 63"
    and "unat len \<le> length packet" and "unat len < 65535"
  shows "\<exists>ok q'. PushPacket packet len q = Ret (ok, q') \<and> (\<not> ok \<longrightarrow> q' = q) \<and>
    write_pos q' \<le> length (buffer q') \<and> length (buffer q') = length (buffer q)"
proof (cases "overflow (int (unat len)) q")
  case True
  moreover have "int (unat len) < MAX_PACK_SIZE" using assms(7) unfolding MAX_PACK_SIZE_def by linarith
  ultimately have "PushPacket packet len q = Ret (False, q)" unfolding PushPacket_def by simp
  with assms(1) show ?thesis by blast
next
  case False
  then have fit: "unat len + 2 \<le> length (buffer q)"
    using overflow_iff [of q "unat len"] assms by simp
  obtain q1 where q1: "wrap_write len q = Ret q1" "write_pos q1 + 2 + unat len \<le> length (buffer q1)"
      "length (buffer q1) = length (buffer q)"
  proof (cases "write_pos q + 2 \<le> length (buffer q) \<and> \<not> write_pos q + unat len + 2 \<le> length (buffer q)")
    case True
    then have "write_pos q + length (bytes16 END_FLAG) \<le> length (buffer q)" by simp
    then obtain m where "store (write_pos q) (bytes16 END_FLAG) q = Ret (q\<lparr>buffer := m\<rparr>)"
      "length m = length (buffer q)"
      by (rule store_Ret)
    with True fit that [of "q\<lparr>buffer := m, write_pos := 0\<rparr>"] show thesis
      by (simp add: wrap_write_def PACK_LEN_SIZE_def)
  next
    case no_flag: False
    show thesis
    proof (cases "write_pos q + 2 \<le> length (buffer q)")
      case True
      with no_flag that [of q] show thesis by (simp add: wrap_write_def PACK_LEN_SIZE_def)
    next
      case False
      with fit that [of "q\<lparr>write_pos := 0\<rparr>"] show thesis by (simp add: wrap_write_def PACK_LEN_SIZE_def)
    qed
  qed
  have "write_pos q1 + length (bytes16 len) \<le> length (buffer q1)" using q1 by simp
  then obtain m1 where m1: "store (write_pos q1) (bytes16 len) q1 = Ret (q1\<lparr>buffer := m1\<rparr>)"
    "length m1 = length (buffer q1)" by (rule store_Ret)
  define q2 where "q2 = q1\<lparr>buffer := m1, write_pos := write_pos q1 + 2\<rparr>"
  have "write_pos q2 + length (take (unat len) packet) \<le> length (buffer q2)"
    using q1 m1 assms(6) by (simp add: q2_def)
  then obtain m2 where m2: "store (write_pos q2) (take (unat len) packet) q2 = Ret (q2\<lparr>buffer := m2\<rparr>)"
    "length m2 = length (buffer q2)" by (rule store_Ret)
  have "get packet 0 (unat len) = Ret (take (unat len) packet)" using assms(6) by (simp add: get_def)
  moreover have "int (unat len) < 65535" using assms(7) by linarith
  then have "uint len < 65535" by simp
  ultimately show ?thesis
    using False q1 m1 m2
    by (auto simp: PushPacket_def MAX_PACK_SIZE_def PACK_LEN_SIZE_def q2_def)
qed

theorem PushPacket_in_bounds_witness:
  "\<exists>ok q'. PushPacket [1, 2, 3] 3 (FifoQueue_Init (replicate 8 0)) = Ret (ok, q') \<and>
    (\<not> ok \<longrightarrow> q' = FifoQueue_Init (replicate 8 0)) \<and> write_pos q' \<le> length (buffer q') \<and>
    length (buffer q') = length (buffer (FifoQueue_Init (replicate 8 0)))"
  by (rule PushPacket_in_bounds) (simp_all add: FifoQueue_Init_def)

lemma next_len_again:
  "next_len q = Ret (len, q') \<Longrightarrow> next_len q' = Ret (len, q')"
  by (auto simp: next_len_def ld16_def PACK_LEN_SIZE_def Let_def split: if_splits)

lemma next_len_counters:
  "next_len q = Ret (len, q') \<Longrightarrow> read_bytes q' = read_bytes q \<and> write_bytes q' = write_bytes q"
  by (auto simp: next_len_def ld16_def Let_def split: if_splits)

text \<open>
  \<open>PeekNextPackLen\<close> announces the next pop: after it the pop does what it would have done
  before, and if it returns a packet, its length is the announced one.
\<close>

theorem PeekNextPackLen_announces:
  assumes "PeekNextPackLen q = Ret (len, q')"
  shows "PopPacket out q' = PopPacket out q \<and>
    (\<forall>out' len' ok q''. PopPacket out q = Ret (Some (out', len', ok, q'')) \<longrightarrow> len' = len)"
proof (cases "read_bytes q \<ge> write_bytes q")
  case True
  with assms show ?thesis by (auto simp: PeekNextPackLen_def PopPacket_def)
next
  case False
  with assms have n: "next_len q = Ret (len, q')" by (simp add: PeekNextPackLen_def)
  with False next_len_again [OF n] next_len_counters [OF n] show ?thesis
    by (auto simp: PopPacket_def res_simps Let_def)
qed

theorem PeekNextPackLen_announces_witness:
  "PopPacket [0, 0] \<lparr>buffer = [1, 0, 9, 0], read_pos = 0, write_pos = 3, read_bytes = 0, write_bytes = 3\<rparr> =
   PopPacket [0, 0] \<lparr>buffer = [1, 0, 9, 0], read_pos = 3, write_pos = 3, read_bytes = 0, write_bytes = 3\<rparr>"
proof -
  have "PeekNextPackLen \<lparr>buffer = [1, 0, 9, 0], read_pos = 3, write_pos = 3, read_bytes = 0, write_bytes = 3\<rparr> =
      Ret (1, \<lparr>buffer = [1, 0, 9, 0], read_pos = 0, write_pos = 3, read_bytes = 0, write_bytes = 3\<rparr>)"
    by code_simp
  from PeekNextPackLen_announces [OF this] show ?thesis by blast
qed

lemma store_at_Ret:
  assumes "0 \<le> p" "nat p + length bs \<le> length (buffer q)"
  obtains m where "store_at p bs q = Ret (q\<lparr>buffer := m\<rparr>)" "length m = length (buffer q)" "holds m (nat p) bs"
  using store_Ret [OF assms(2)] assms(1) by (metis store_at_def not_le)

text \<open>
  \<open>Update\<close> keeps the receive position inside the ring, two bytes after a place for the length,
  and writes inside the ring, for every non-negative length.
\<close>

theorem Update_in_bounds:
  assumes "2 \<le> recv_pos" and "recv_pos \<le> int (length (buffer q))" and "0 \<le> len" and "len < 65535"
  shows "\<exists>ok recv_pos' q'. Update recv_pos len q = Ret (ok, recv_pos', q') \<and>
    2 \<le> recv_pos' \<and> recv_pos' \<le> int (length (buffer q')) \<and> length (buffer q') = length (buffer q) \<and>
    write_bytes q' = write_bytes q + (if ok then word_of_int (len + 2) else 0)"
proof -
  have "0 \<le> recv_pos - 2" "nat (recv_pos - 2) + length (bytes16 (word_of_int len)) \<le> length (buffer q)"
    using assms by simp_all
  then obtain m where m: "store_at (recv_pos - 2) (bytes16 (word_of_int len)) q = Ret (q\<lparr>buffer := m\<rparr>)"
    "length m = length (buffer q)" by (rule store_at_Ret)
  let ?q = "q\<lparr>buffer := m\<rparr>"
  show ?thesis
  proof (cases "overflow len ?q")
    case True
    with m assms show ?thesis by (auto simp: Update_def MAX_PACK_SIZE_def PACK_LEN_SIZE_def)
  next
    case no: False
    show ?thesis
    proof (cases "recv_pos + (len + 2) \<le> int (length m) \<and> \<not> recv_pos + (len + 2) + len \<le> int (length m)")
      case True
      with assms have "0 \<le> recv_pos + (len + 2) - 2"
        "nat (recv_pos + (len + 2) - 2) + length (bytes16 END_FLAG) \<le> length (buffer ?q)"
        by simp_all arith
      then obtain m' where "store_at (recv_pos + (len + 2) - 2) (bytes16 END_FLAG) ?q = Ret (?q\<lparr>buffer := m'\<rparr>)"
        "length m' = length (buffer ?q)" by (rule store_at_Ret)
      with True no m assms show ?thesis
        by (auto simp: Update_def MAX_PACK_SIZE_def PACK_LEN_SIZE_def add.commute)
    next
      case False
      with no m assms show ?thesis
        by (auto simp: Update_def MAX_PACK_SIZE_def PACK_LEN_SIZE_def Let_def add.commute)
    qed
  qed
qed

theorem Update_in_bounds_witness:
  "\<exists>ok recv_pos' q'. Update 2 3 (FifoQueue_Init (replicate 10 0)) = Ret (ok, recv_pos', q') \<and>
    2 \<le> recv_pos' \<and> recv_pos' \<le> int (length (buffer q')) \<and>
    length (buffer q') = length (buffer (FifoQueue_Init (replicate 10 0))) \<and>
    write_bytes q' = write_bytes (FifoQueue_Init (replicate 10 0)) + (if ok then word_of_int (3 + 2) else 0)"
  by (rule Update_in_bounds) (simp_all add: FifoQueue_Init_def)

text \<open>
  The assertion in \<open>Update\<close> does not stop a negative length: the -1 of a failed receive is accepted as a packet of
  65535 bytes, and on a ring of at most 65536 bytes the pop that follows reads outside it.
\<close>

theorem Update_failed_receive:
  assumes "2 \<le> length mem" and "length mem \<le> 65536"
  shows "\<exists>recv_pos q. Update 2 (- 1) (FifoQueue_Init mem) = Ret (True, recv_pos, q) \<and>
    PopPacket out q = Fault OutOfBounds"
proof -
  let ?q = "FifoQueue_Init mem"
  have "0 \<le> (2 :: int) - 2" "nat (2 - 2) + length (bytes16 (word_of_int (- 1))) \<le> length (buffer ?q)"
    using assms by (simp_all add: FifoQueue_Init_def)
  then obtain m where m: "store_at (2 - 2) (bytes16 (word_of_int (- 1))) ?q = Ret (?q\<lparr>buffer := m\<rparr>)"
    "length m = length (buffer ?q)" "holds m (nat (2 - 2)) (bytes16 (word_of_int (- 1)))"
    by (rule store_at_Ret)
  have ld: "ld16 m 0 = Ret 0xFFFF" using holds_ld16 [OF m(3)] by simp
  have no: "\<not> overflow (- 1) (?q\<lparr>buffer := m\<rparr>)"
    by (simp add: overflow_def FifoQueue_Init_def PACK_LEN_SIZE_def)
  have len: "length m = length mem" using m(2) by (simp add: FifoQueue_Init_def)
  have "Update 2 (- 1) ?q = Ret (True, (if length mem = 2 then 2 else 3), ?q\<lparr>buffer := m, write_bytes := 1\<rparr>)"
    using m(1) no len assms by (auto simp: Update_def MAX_PACK_SIZE_def PACK_LEN_SIZE_def FifoQueue_Init_def)
  moreover have "PopPacket out (?q\<lparr>buffer := m, write_bytes := 1\<rparr>) = Fault OutOfBounds"
    using ld len assms
    by (simp add: PopPacket_def next_len_def FifoQueue_Init_def PACK_LEN_SIZE_def END_FLAG_def get_def)
  ultimately show ?thesis by blast
qed

theorem Update_failed_receive_witness:
  "\<exists>recv_pos q. Update 2 (- 1) (FifoQueue_Init (replicate 8 0)) = Ret (True, recv_pos, q) \<and>
    PopPacket [] q = Fault OutOfBounds"
  by (rule Update_failed_receive) simp_all

end
