(* ===== verification/Crc16.thy ===== *)
theory Crc16
  imports Bytes
begin

text \<open>
  \<open>src/commons/CRC_16.cpp\<close>: the table-driven CRC-16. The expression of \<open>crc16_byte\<close> is
  computed in \<open>int\<close> and cut to sixteen bits, as in C++. The laws of the step (it is linear,
  and it loses no information) are the locales \<open>linear_step\<close> and \<open>checksum_step\<close>, which
  \<open>crc16_byte\<close> interprets; what follows from them about errors is proved inside.
\<close>

section \<open>The code\<close>

definition crc16_table :: "u16 list" where
  "crc16_table =
     [
      0x0000, 0x8005, 0x800f, 0x000a, 0x801b, 0x001e, 0x0014, 0x8011,
      0x8033, 0x0036, 0x003c, 0x8039, 0x0028, 0x802d, 0x8027, 0x0022,
      0x8063, 0x0066, 0x006c, 0x8069, 0x0078, 0x807d, 0x8077, 0x0072,
      0x0050, 0x8055, 0x805f, 0x005a, 0x804b, 0x004e, 0x0044, 0x8041,
      0x80c3, 0x00c6, 0x00cc, 0x80c9, 0x00d8, 0x80dd, 0x80d7, 0x00d2,
      0x00f0, 0x80f5, 0x80ff, 0x00fa, 0x80eb, 0x00ee, 0x00e4, 0x80e1,
      0x00a0, 0x80a5, 0x80af, 0x00aa, 0x80bb, 0x00be, 0x00b4, 0x80b1,
      0x8093, 0x0096, 0x009c, 0x8099, 0x0088, 0x808d, 0x8087, 0x0082,
      0x8183, 0x0186, 0x018c, 0x8189, 0x0198, 0x819d, 0x8197, 0x0192,
      0x01b0, 0x81b5, 0x81bf, 0x01ba, 0x81ab, 0x01ae, 0x01a4, 0x81a1,
      0x01e0, 0x81e5, 0x81ef, 0x01ea, 0x81fb, 0x01fe, 0x01f4, 0x81f1,
      0x81d3, 0x01d6, 0x01dc, 0x81d9, 0x01c8, 0x81cd, 0x81c7, 0x01c2,
      0x0140, 0x8145, 0x814f, 0x014a, 0x815b, 0x015e, 0x0154, 0x8151,
      0x8173, 0x0176, 0x017c, 0x8179, 0x0168, 0x816d, 0x8167, 0x0162,
      0x8123, 0x0126, 0x012c, 0x8129, 0x0138, 0x813d, 0x8137, 0x0132,
      0x0110, 0x8115, 0x811f, 0x011a, 0x810b, 0x010e, 0x0104, 0x8101,
      0x8303, 0x0306, 0x030c, 0x8309, 0x0318, 0x831d, 0x8317, 0x0312,
      0x0330, 0x8335, 0x833f, 0x033a, 0x832b, 0x032e, 0x0324, 0x8321,
      0x0360, 0x8365, 0x836f, 0x036a, 0x837b, 0x037e, 0x0374, 0x8371,
      0x8353, 0x0356, 0x035c, 0x8359, 0x0348, 0x834d, 0x8347, 0x0342,
      0x03c0, 0x83c5, 0x83cf, 0x03ca, 0x83db, 0x03de, 0x03d4, 0x83d1,
      0x83f3, 0x03f6, 0x03fc, 0x83f9, 0x03e8, 0x83ed, 0x83e7, 0x03e2,
      0x83a3, 0x03a6, 0x03ac, 0x83a9, 0x03b8, 0x83bd, 0x83b7, 0x03b2,
      0x0390, 0x8395, 0x839f, 0x039a, 0x838b, 0x038e, 0x0384, 0x8381,
      0x0280, 0x8285, 0x828f, 0x028a, 0x829b, 0x029e, 0x0294, 0x8291,
      0x82b3, 0x02b6, 0x02bc, 0x82b9, 0x02a8, 0x82ad, 0x82a7, 0x02a2,
      0x82e3, 0x02e6, 0x02ec, 0x82e9, 0x02f8, 0x82fd, 0x82f7, 0x02f2,
      0x02d0, 0x82d5, 0x82df, 0x02da, 0x82cb, 0x02ce, 0x02c4, 0x82c1,
      0x8243, 0x0246, 0x024c, 0x8249, 0x0258, 0x825d, 0x8257, 0x0252,
      0x0270, 0x8275, 0x827f, 0x027a, 0x826b, 0x026e, 0x0264, 0x8261,
      0x0220, 0x8225, 0x822f, 0x022a, 0x823b, 0x023e, 0x0234, 0x8231,
      0x8213, 0x0216, 0x021c, 0x8219, 0x0208, 0x820d, 0x8207, 0x0202
     ]"

definition crc16_byte :: "u16 \<Rightarrow> u8 \<Rightarrow> u16" where
  "crc16_byte crc data =
     ucast (push_bit 8 (ucast crc :: u32) XOR
       ucast (crc16_table ! unat ((drop_bit 8 (ucast crc :: u32) XOR ucast data) AND 0xff)))"

text \<open>
  The loop \<open>while (len--)\<close> over the buffer from offset \<open>pos\<close>; a negative \<open>len\<close> does not end it.
\<close>

function crc_loop :: "u16 \<Rightarrow> bytes \<Rightarrow> nat \<Rightarrow> i32 \<Rightarrow> u16 res" where
  "crc_loop crc buffer pos len =
     (if len = 0 then Ret crc
      else if len = - 0x80000000 then Fault SignedOverflow
      else bindR (ld8 buffer pos) (\<lambda>d. crc_loop (crc16_byte crc d) buffer (pos + 1) (len - 1)))"
  by auto
termination
  by (relation "measure (\<lambda>(crc, buffer, pos, len). length buffer - pos)")
    (auto simp: ld8_def split: if_splits)

declare crc_loop.simps [simp del]

definition CRC_16 :: "u16 \<Rightarrow> bytes \<Rightarrow> i32 \<Rightarrow> u16 res" where
  "CRC_16 crc buffer len = bindR (crc_loop crc buffer 0 len) (\<lambda>crc. Ret (htons crc))"

section \<open>The step\<close>

text \<open>One bit of the long division by \<open>x^16 + x^15 + x^2 + 1\<close>, and eight of them.\<close>

definition crc_bit :: "u16 \<Rightarrow> u16" where
  "crc_bit c = (if bit c 15 then push_bit 1 c XOR 0x8005 else push_bit 1 c)"

definition crc_bits :: "u16 \<Rightarrow> u16" where
  "crc_bits c = crc_bit (crc_bit (crc_bit (crc_bit (crc_bit (crc_bit (crc_bit (crc_bit c)))))))"

lemma crc_bit_xor: "crc_bit (a XOR b) = crc_bit a XOR crc_bit b"
  by (rule bit_word_eqI) (auto simp: crc_bit_def bit_simps)

lemma crc_bits_xor: "crc_bits (a XOR b) = crc_bits a XOR crc_bits b"
  by (simp add: crc_bits_def crc_bit_xor)

text \<open>
  The table of a linear function is spanned by its values at the powers of two; so eight
  entries are compared with the polynomial and the other entries with their sums.
\<close>

definition spanned :: "u16 list \<Rightarrow> u16 list" where
  "spanned bs = foldl (\<lambda>t b. t @ map ((XOR) b) t) [0] bs"

lemma spanned_snoc [simp]: "spanned (bs @ [b]) = spanned bs @ map ((XOR) b) (spanned bs)"
  by (simp add: spanned_def)

lemma spanned_Nil [simp]: "spanned [] = [0]"
  by (simp add: spanned_def)

lemma power_xor_nat: "j < 2 ^ n \<Longrightarrow> word_of_nat (2 ^ n) XOR word_of_nat j = (word_of_nat (2 ^ n + j) :: u16)"
proof -
  assume j: "j < 2 ^ n"
  then have "\<not> bit j n" by (simp add: bit_iff_odd)
  then have "j AND 2 ^ n = 0" by (simp add: and_exp_eq_0_iff_not_bit)
  then have "(word_of_nat j :: u16) AND word_of_nat (2 ^ n) = word_of_nat 0"
    by (subst of_nat_and_eq [symmetric]) simp
  then have "(word_of_nat (2 ^ n) :: u16) AND word_of_nat j = 0"
    by (subst and.commute) simp
  from disjunctive_add_eq_xor [OF this, symmetric] show ?thesis by simp
qed

lemma spanned_nth:
  assumes lin: "\<And>a b. f (a XOR b) = f a XOR f b" and zero: "f 0 = (0 :: u16)"
  shows "length (spanned (map (\<lambda>k. f (word_of_nat (2 ^ k))) [0..<n])) = 2 ^ n \<and>
    (\<forall>i < 2 ^ n. spanned (map (\<lambda>k. f (word_of_nat (2 ^ k))) [0..<n]) ! i = f (word_of_nat i :: u16))"
proof (induction n)
  case 0
  then show ?case using zero by simp
next
  case (Suc n)
  let ?t = "spanned (map (\<lambda>k. f (word_of_nat (2 ^ k))) [0..<n])"
  have "(?t @ map ((XOR) (f (word_of_nat (2 ^ n)))) ?t) ! i = f (word_of_nat i)" if "i < 2 ^ Suc n" for i
  proof (cases "i < 2 ^ n")
    case True
    with Suc show ?thesis by (simp add: nth_append)
  next
    case False
    then have j: "i - 2 ^ n < 2 ^ n" "2 ^ n + (i - 2 ^ n) = i" using that by auto
    with False Suc have "(?t @ map ((XOR) (f (word_of_nat (2 ^ n)))) ?t) ! i =
        f (word_of_nat (2 ^ n)) XOR f (word_of_nat (i - 2 ^ n))"
      by (simp add: nth_append)
    also have "\<dots> = f (word_of_nat i)"
      using power_xor_nat [OF j(1)] j(2) by (simp flip: lin)
    finally show ?thesis .
  qed
  with Suc show ?case by simp
qed

lemma table_spanned:
  "crc16_table = spanned (map (\<lambda>k. crc_bits (push_bit 8 (word_of_nat (2 ^ k)))) [0..<8])"
  by (simp add: crc16_table_def spanned_def crc_bits_def crc_bit_def upt_rec)

lemma crc_bits_zero [simp]: "crc_bits 0 = 0"
  by (simp add: crc_bits_def crc_bit_def)

lemma length_table [simp]: "length crc16_table = 256"
  by (simp add: crc16_table_def)

text \<open>The whole table: entry \<open>x\<close> is the byte \<open>x\<close> divided by the polynomial.\<close>

lemma table_nth: "crc16_table ! unat (x :: u8) = crc_bits (push_bit 8 (ucast x))"
proof -
  have "unat x < 2 ^ LENGTH(8)" by (rule unsigned_less)
  then have "unat x < 2 ^ 8" by simp
  moreover have "\<forall>i < 2 ^ 8. spanned (map (\<lambda>k. crc_bits (push_bit 8 (word_of_nat (2 ^ k)))) [0..<8]) ! i =
      crc_bits (push_bit 8 (word_of_nat i))"
    using spanned_nth [of "\<lambda>w. crc_bits (push_bit 8 w)" 8] by (simp add: crc_bits_xor push_bit_xor)
  ultimately have "crc16_table ! unat x = crc_bits (push_bit 8 (word_of_nat (unat x)))"
    by (simp add: table_spanned)
  then show ?thesis by (simp add: unsigned_ucast_eq)
qed

definition high_byte :: "u16 \<Rightarrow> u8" where "high_byte c = ucast (drop_bit 8 c)"
definition low_byte :: "u16 \<Rightarrow> u8" where "low_byte c = ucast c"

lemma bit_high_byte: "bit (high_byte c) n \<longleftrightarrow> n < 8 \<and> bit c (8 + n)"
  by (auto simp: high_byte_def bit_simps)

lemma bit_low_byte: "bit (low_byte c) n \<longleftrightarrow> n < 8 \<and> bit c n"
  by (auto simp: low_byte_def bit_simps)

lemma bytes_of_word: "push_bit 8 (ucast (high_byte c)) XOR ucast (low_byte c) = (c :: u16)"
proof (rule bit_word_eqI)
  fix n :: nat assume "n < LENGTH(16)"
  then show "bit (push_bit 8 (ucast (high_byte c)) XOR ucast (low_byte c) :: u16) n = bit c n"
    by (cases "n < 8") (auto simp: bit_simps bit_high_byte bit_low_byte)
qed

lemma crc16_byte_table:
  "crc16_byte crc d = push_bit 8 crc XOR crc16_table ! unat (high_byte crc XOR d)"
proof -
  have m: "(0xff :: u32) = mask 8" by (simp add: mask_eq_exp_minus_1)
  have "(drop_bit 8 (ucast crc :: u32) XOR ucast d) AND 0xff = ucast (high_byte crc XOR d)"
    unfolding m by (intro bit_word_eqI) (auto simp: bit_simps bit_high_byte dest: bit_u8_less)
  moreover have "unat (ucast y :: u32) = unat y" for y :: u8
  proof -
    have "unat y < 2 ^ LENGTH(8)" by (rule unsigned_less)
    then show ?thesis by (simp add: unsigned_ucast_eq take_bit_nat_eq_self)
  qed
  moreover have "ucast (push_bit 8 (ucast crc :: u32) XOR ucast t) = push_bit 8 crc XOR t" for t :: u16
    by (rule bit_word_eqI) (auto simp: bit_simps)
  ultimately show ?thesis by (simp add: crc16_byte_def)
qed

lemma crc_bit_low: "k < 8 \<Longrightarrow> crc_bit (push_bit k (ucast (x :: u8))) = push_bit (Suc k) (ucast x)"
  using bit_u8_less [of x "15 - k"] by (auto simp: crc_bit_def bit_simps push_bit_push_bit)

lemma crc_bits_low: "crc_bits (ucast (x :: u8)) = push_bit 8 (ucast x)"
  using crc_bit_low [of 0 x] crc_bit_low [of 1 x] crc_bit_low [of 2 x] crc_bit_low [of 3 x]
    crc_bit_low [of 4 x] crc_bit_low [of 5 x] crc_bit_low [of 6 x] crc_bit_low [of 7 x]
  by (simp add: crc_bits_def numeral_eq_Suc)

text \<open>The code divides one byte at a time, with the same result as one bit at a time.\<close>

lemma crc16_byte_bits: "crc16_byte crc d = crc_bits (crc XOR push_bit 8 (ucast d))"
proof -
  have "crc XOR push_bit 8 (ucast d) = push_bit 8 (ucast (high_byte crc XOR d)) XOR ucast (low_byte crc)"
  proof (rule bit_word_eqI)
    fix n :: nat assume "n < LENGTH(16)"
    then show "bit (crc XOR push_bit 8 (ucast d)) n =
        bit (push_bit 8 (ucast (high_byte crc XOR d)) XOR ucast (low_byte crc) :: u16) n"
      by (cases "n < 8") (auto simp: bit_simps bit_high_byte bit_low_byte)
  qed
  also have "crc_bits \<dots> = crc_bits (push_bit 8 (ucast (high_byte crc XOR d))) XOR push_bit 8 (ucast (low_byte crc))"
    by (simp only: crc_bits_xor crc_bits_low)
  also have "push_bit 8 (ucast (low_byte crc)) = push_bit 8 crc"
    by (rule bit_word_eqI) (auto simp: bit_simps bit_low_byte)
  finally show ?thesis by (simp add: crc16_byte_table table_nth xor.commute)
qed

section \<open>The loop\<close>

lemma crc_loop_eq:
  "0 \<le> len \<Longrightarrow> pos \<le> length buffer \<Longrightarrow>
   crc_loop crc buffer pos len =
     (if pos + nat len \<le> length buffer
      then Ret (foldl crc16_byte crc (take (nat len) (drop pos buffer))) else Fault OutOfBounds)"
proof (induction "nat len" arbitrary: crc pos len)
  case 0
  then show ?case by (subst crc_loop.simps) simp
next
  case (Suc n)
  then have len: "0 < len" "nat (len - 1) = n" "nat len = Suc n" by auto
  show ?case
  proof (cases "pos < length buffer")
    case True
    then have "take (Suc n) (drop pos buffer) = buffer ! pos # take n (drop (Suc pos) buffer)"
      by (simp flip: Cons_nth_drop_Suc)
    with Suc.hyps(1) [of "len - 1" "Suc pos" "crc16_byte crc (buffer ! pos)"] len True show ?thesis
      by (subst crc_loop.simps) (auto simp: ld8_def)
  next
    case False
    with Suc.prems len show ?thesis by (subst crc_loop.simps) (simp add: ld8_def)
  qed
qed

lemma crc_loop_negative:
  "len < 0 \<Longrightarrow> - 0x80000000 \<le> len \<Longrightarrow> \<exists>e. crc_loop crc buffer pos len = Fault e"
proof (induction crc buffer pos len rule: crc_loop.induct)
  case (1 crc buffer pos len)
  then show ?case by (subst crc_loop.simps) (auto simp: ld8_def)
qed

section \<open>Linear steps\<close>

lemma xor_fixed_iff: "a XOR b = a \<longleftrightarrow> b = (0 :: u16)"
proof
  assume eq: "a XOR b = a"
  have "b = a XOR (a XOR b)" by (simp flip: xor.assoc)
  then show "b = 0" by (simp add: eq)
qed simp

lemma xor_zero_iff: "a XOR b = 0 \<longleftrightarrow> a = (b :: u16)"
  using xor_fixed_iff [of a "a XOR b"] by (auto simp flip: xor.assoc)

lemma map2_xor_self: "map2 (XOR) xs xs = replicate (length xs) (0 :: u8)"
  by (induction xs) simp_all

text \<open>
  A step of a checksum over bytes that is linear: flipping bits of the message flips bits of
  the checksum that depend on the flips alone.
\<close>

locale linear_step =
  fixes step :: "u16 \<Rightarrow> u8 \<Rightarrow> u16"
  assumes step_xor: "step (a XOR b) (x XOR y) = step a x XOR step b y"
begin

lemma step_zero [simp]: "step 0 0 = 0"
  using step_xor [of 0 0 0 0] by simp

lemma run_xor:
  "length xs = length ys \<Longrightarrow>
   foldl step (a XOR b) (map2 (XOR) xs ys) = foldl step a xs XOR foldl step b ys"
  by (induction xs ys arbitrary: a b rule: list_induct2) (simp_all add: step_xor)

lemma run_zeros [simp]: "foldl step 0 (replicate n 0) = 0"
  by (induction n) simp_all

text \<open>An error pattern goes unnoticed exactly when its own checksum from zero is zero.\<close>

lemma unnoticed_iff:
  assumes "length e = length xs"
  shows "foldl step a (map2 (XOR) xs e) = foldl step a xs \<longleftrightarrow> foldl step 0 e = 0"
  using run_xor [of xs e a 0] assms by (simp add: xor_fixed_iff)

end

text \<open>A linear step that loses nothing: zeros after an error do not hide it.\<close>

locale checksum_step = linear_step +
  assumes step_kernel: "step a 0 = 0 \<Longrightarrow> a = 0"
    and pair_kernel: "step (step 0 x) y = 0 \<Longrightarrow> x = 0 \<and> y = 0"
begin

lemma zeros_keep: "foldl step a (replicate n 0) = 0 \<Longrightarrow> a = 0"
  by (induction n arbitrary: a) (auto dest: step_kernel)

lemma pair_noticed:
  assumes "x \<noteq> 0 \<or> y \<noteq> 0"
  shows "foldl step 0 (replicate k 0 @ [x, y] @ replicate n 0) \<noteq> 0"
proof
  assume "foldl step 0 (replicate k 0 @ [x, y] @ replicate n 0) = 0"
  then have "foldl step (step (step 0 x) y) (replicate n 0) = 0" by simp
  then have "step (step 0 x) y = 0" by (rule zeros_keep)
  with assms show False using pair_kernel by blast
qed

lemma burst_noticed:
  assumes "x \<noteq> 0 \<or> y \<noteq> 0" "length xs = k + 2 + n"
  shows "foldl step a (map2 (XOR) xs (replicate k 0 @ [x, y] @ replicate n 0)) \<noteq> foldl step a xs"
  using unnoticed_iff [of "replicate k 0 @ [x, y] @ replicate n 0" xs a] assms pair_noticed [of x y k n]
  by simp

end

section \<open>The code's step is one\<close>

lemma crc_bit_kernel: "crc_bit c = 0 \<Longrightarrow> c = 0"
proof (rule bit_word_eqI)
  fix n :: nat assume z: "crc_bit c = 0" and n: "n < LENGTH(16)"
  have "\<not> bit c 15"
  proof
    assume "bit c 15"
    with z have "bit (push_bit 1 c XOR 0x8005) 0 = bit (0 :: u16) 0" by (simp add: crc_bit_def)
    then show False by (simp add: bit_0 even_xor_iff)
  qed
  moreover from this z have "2 * c = 0" by (simp add: crc_bit_def mult.commute)
  then have "bit (2 * c) (Suc n) = bit (0 :: u16) (Suc n)" by simp
  ultimately show "bit c n = bit (0 :: u16) n"
    using n by (cases "n = 15") (auto simp: bit_double_iff)
qed

lemma crc_bits_kernel: "crc_bits c = 0 \<Longrightarrow> c = 0"
  unfolding crc_bits_def by (auto dest!: crc_bit_kernel)

lemma two_bytes:
  "crc16_byte (crc16_byte a x) y = crc_bits (crc_bits (a XOR push_bit 8 (ucast x) XOR ucast y))"
  by (simp add: crc16_byte_bits crc_bits_xor crc_bits_low xor.assoc)

lemma two_bytes_zero: "push_bit 8 (ucast x) XOR ucast y = (0 :: u16) \<Longrightarrow> x = 0 \<and> y = 0"
  for x y :: u8
proof -
  assume z: "push_bit 8 (ucast x) XOR ucast y = (0 :: u16)"
  have b: "bit (push_bit 8 (ucast x) XOR ucast y :: u16) n = False" for n by (simp add: z)
  have eq: "bit x n = bit 0 n" "bit y n = bit 0 n" if "n < LENGTH(8)" for n
    using b [of "8 + n"] b [of n] bit_u8_less [of y "8 + n"] that by (auto simp: bit_simps)
  have "x = 0" by (rule bit_word_eqI) (rule eq(1))
  moreover have "y = 0" by (rule bit_word_eqI) (rule eq(2))
  ultimately show ?thesis ..
qed

interpretation crc: checksum_step crc16_byte
proof unfold_locales
  show "crc16_byte (a XOR b) (x XOR y) = crc16_byte a x XOR crc16_byte b y" for a b x y
  proof -
    have "push_bit 8 (ucast (x XOR y)) = (push_bit 8 (ucast x) XOR push_bit 8 (ucast y) :: u16)"
      by (rule bit_word_eqI) (auto simp: bit_simps)
    then show ?thesis by (simp add: crc16_byte_bits crc_bits_xor xor.assoc xor.left_commute)
  qed
  show "a = 0" if "crc16_byte a 0 = 0" for a
    using that crc_bits_kernel by (simp add: crc16_byte_bits)
  show "x = 0 \<and> y = 0" if "crc16_byte (crc16_byte 0 x) y = 0" for x y
    using that crc_bits_kernel two_bytes_zero unfolding two_bytes by (metis xor.left_neutral)
qed

section \<open>Properties\<close>

text \<open>The reference: the message divided bit by bit, most significant bit first.\<close>

definition crc_division :: "u16 \<Rightarrow> bytes \<Rightarrow> u16" where
  "crc_division crc msg = foldl (\<lambda>c d. crc_bits (c XOR push_bit 8 (ucast d))) crc msg"

lemma run_division: "foldl crc16_byte crc msg = crc_division crc msg"
  unfolding crc_division_def by (simp add: crc16_byte_bits cong: foldl_cong)

lemma CRC_16_run:
  "int (length msg) = len \<Longrightarrow> CRC_16 crc (msg @ rest) len = Ret (htons (crc_division crc msg))"
  by (auto simp: CRC_16_def crc_loop_eq run_division)

lemma division_append: "crc_division crc (a @ b) = crc_division (crc_division crc a) b"
  by (simp add: crc_division_def)

lemma division_own_bytes: "crc_division c (bytes16 (htons c)) = 0"
proof -
  have "push_bit 8 (ucast (byte_at 1 c)) XOR ucast (byte_at 0 c) = c"
  proof (rule bit_word_eqI)
    fix n :: nat assume "n < LENGTH(16)"
    then show "bit (push_bit 8 (ucast (byte_at 1 c)) XOR ucast (byte_at 0 c) :: u16) n = bit c n"
      by (cases "n < 8") (auto simp: bit_simps bit_byte_at)
  qed
  then have "c XOR push_bit 8 (ucast (byte_at 1 c)) XOR ucast (byte_at 0 c) = 0"
    by (simp add: xor.assoc)
  then have "crc16_byte (crc16_byte c (byte_at 1 c)) (byte_at 0 c) = 0"
    by (simp only: two_bytes crc_bits_zero)
  then show ?thesis
    by (simp add: bswap16_def bytes16_le16 flip: run_division)
qed

lemma bswap16_zero: "bswap16 0 = 0"
  by (simp add: bswap16_def byte_at_def le16_def)

text \<open>
  C19: \<open>CRC_16\<close> computes the remainder of the message by the polynomial of its comment, bit by bit
  division and table agreeing, in network byte order; it does so exactly for a length between zero and
  the size of the buffer, and for any other length it does not return.
\<close>

theorem CRC_16_divides:
  assumes "- 0x80000000 \<le> len"
  shows "0 \<le> len \<and> len \<le> int (length buffer) \<and>
      CRC_16 crc buffer len = Ret (htons (crc_division crc (take (nat len) buffer))) \<or>
    \<not> (0 \<le> len \<and> len \<le> int (length buffer)) \<and> \<not> returns (CRC_16 crc buffer len)"
proof (cases "len < 0")
  case True
  with crc_loop_negative [of len crc buffer 0] assms show ?thesis by (auto simp: CRC_16_def)
next
  case False
  then show ?thesis by (auto simp: CRC_16_def crc_loop_eq run_division)
qed

theorem CRC_16_divides_witness:
  "CRC_16 0 [0x31, 0x32, 0x33] 3 = Ret (htons (crc_division 0 [0x31, 0x32, 0x33]))"
  using CRC_16_divides [of 3 "[0x31, 0x32, 0x33]" 0] by simp

text \<open>
  A receiver that checks a message together with the two bytes of checksum stored after it gets zero.
\<close>

theorem CRC_16_residue:
  assumes "CRC_16 crc msg (int (length msg)) = Ret r"
  shows "CRC_16 crc (msg @ bytes16 r @ rest) (int (length msg) + 2) = Ret 0"
proof -
  have "r = htons (crc_division crc msg)"
    using assms CRC_16_run [of msg "int (length msg)" crc "[]"] by simp
  then show ?thesis
    using CRC_16_run [of "msg @ bytes16 r" "int (length msg) + 2" crc rest]
    by (simp add: division_append division_own_bytes bswap16_zero)
qed

theorem CRC_16_residue_witness: "CRC_16 7 ([1, 2] @ bytes16 (htons (crc_division 7 [1, 2])) @ []) (int (length [1, 2 :: u8]) + 2) = Ret 0"
  by (rule CRC_16_residue) (rule CRC_16_run [where rest = "[]", simplified], simp)

text \<open>
  Any damage within two adjacent bytes of a message of any length changes the checksum, and so does damage
  to a single byte.
\<close>

theorem CRC_16_detects_burst:
  assumes "length msg = k + 2 + n" and "x \<noteq> 0 \<or> y \<noteq> 0"
    and "damaged = map2 (XOR) msg (replicate k 0 @ [x, y] @ replicate n 0)"
  shows "CRC_16 crc damaged (int (length msg)) \<noteq> CRC_16 crc msg (int (length msg))"
proof -
  have "length damaged = length msg" using assms by simp
  then show ?thesis
    using crc.burst_noticed [of x y msg k n crc] assms
      CRC_16_run [of msg "int (length msg)" crc "[]"] CRC_16_run [of damaged "int (length msg)" crc "[]"]
    by (simp add: run_division)
qed

theorem CRC_16_detects_burst_witness:
  "CRC_16 0 (map2 (XOR) [1, 2, 3, 4] (replicate 1 0 @ [8, 1] @ replicate 1 0)) (int (length [1, 2, 3, 4 :: u8])) \<noteq>
   CRC_16 0 [1, 2, 3, 4] (int (length [1, 2, 3, 4 :: u8]))"
  by (rule CRC_16_detects_burst [where x = 8 and y = 1 and k = 1 and n = 1]) simp_all

text \<open>
  The checksum of a message in two pieces: the value passed on as "previous CRC" has to be
  the result of the first call with its bytes swapped back, not the result itself.
\<close>

theorem CRC_16_chained:
  assumes "CRC_16 crc a (int (length a)) = Ret r"
  shows "CRC_16 (ntohs r) b (int (length b)) = CRC_16 crc (a @ b) (int (length a + length b)) \<and>
    (CRC_16 r b (int (length b)) = CRC_16 crc (a @ b) (int (length a + length b)) \<longleftrightarrow>
     crc_division (r XOR ntohs r) (replicate (length b) 0) = 0)"
proof -
  have r: "r = htons (crc_division crc a)"
    using assms CRC_16_run [of a "int (length a)" crc "[]"] by simp
  have run: "CRC_16 c b (int (length b)) = Ret (htons (crc_division c b))" for c
    using CRC_16_run [of b "int (length b)" c "[]"] by simp
  have "crc_division (r XOR ntohs r) (replicate (length b) 0) = crc_division r b XOR crc_division (ntohs r) b"
    using crc.run_xor [of b b r "ntohs r"] by (simp add: run_division map2_xor_self)
  then show ?thesis
    using CRC_16_run [of "a @ b" "int (length a + length b)" crc "[]"] run r
    by (simp add: division_append xor_zero_iff)
qed

theorem CRC_16_chained_witness:
  "CRC_16 (ntohs (htons (crc_division 0 [1]))) [2] (int (length [2 :: u8])) = CRC_16 0 ([1] @ [2]) (int (length [1 :: u8] + length [2 :: u8]))"
  using CRC_16_chained [of 0 "[1]" "htons (crc_division 0 [1])" "[2]"] CRC_16_run [of "[1]" 1 0 "[]"] by simp

end
