(* ===== verification/Sockets.thy ===== *)
theory Sockets
  imports Bytes "HOL-Library.Signed_Division"
begin

text \<open>
  \<open>src/commons/comm_socket.cpp\<close>, \<open>udp_socket.cpp\<close> and \<open>BuildSockAddr\<close> of \<open>utils.cpp\<close>, as compiled
  for Linux (\<open>LINUX\<close> is defined). The system calls and \<open>inet_addr\<close> are a parameter, a record of
  functions on the state \<open>'s\<close> of the operating system; the messages of \<open>perror\<close> are left out. The server
  does not use these classes.
\<close>

section \<open>The operating system\<close>

record sockaddr_in =
  sin_family :: u16
  sin_port :: u16
  sin_addr :: u32

record timeval =
  tv_sec :: int
  tv_usec :: int

datatype sockopt = SO_REUSEADDR | SO_SNDBUF | SO_RCVBUF

text \<open>
  A negative number is a failure. \<open>recv\<close> and \<open>recvfrom\<close> also return the bytes they wrote, and the
  latter the address it wrote, if it did; \<open>select\<close>, on one descriptor for reading, whether it is ready
  and the time that was left.
\<close>

record 's kernel =
  sys_socket :: "'s \<Rightarrow> i32 \<times> 's"
  sys_setsockopt :: "i32 \<Rightarrow> sockopt \<Rightarrow> i32 \<Rightarrow> 's \<Rightarrow> i32 \<times> 's"
  sys_bind :: "i32 \<Rightarrow> sockaddr_in \<Rightarrow> 's \<Rightarrow> i32 \<times> 's"
  sys_connect :: "i32 \<Rightarrow> sockaddr_in \<Rightarrow> 's \<Rightarrow> i32 \<times> 's"
  sys_getfl :: "i32 \<Rightarrow> 's \<Rightarrow> i32 \<times> 's"
  sys_setfl :: "i32 \<Rightarrow> i32 \<Rightarrow> 's \<Rightarrow> i32 \<times> 's"
  sys_close :: "i32 \<Rightarrow> 's \<Rightarrow> i32 \<times> 's"
  sys_send :: "i32 \<Rightarrow> bytes \<Rightarrow> 's \<Rightarrow> i32 \<times> 's"
  sys_recv :: "i32 \<Rightarrow> i32 \<Rightarrow> 's \<Rightarrow> (i32 \<times> bytes) \<times> 's"
  sys_sendto :: "i32 \<Rightarrow> bytes \<Rightarrow> sockaddr_in \<Rightarrow> 's \<Rightarrow> i32 \<times> 's"
  sys_recvfrom :: "i32 \<Rightarrow> i32 \<Rightarrow> 's \<Rightarrow> (i32 \<times> bytes \<times> sockaddr_in option) \<times> 's"
  sys_select :: "i32 \<Rightarrow> timeval \<Rightarrow> 's \<Rightarrow> (i32 \<times> bool \<times> timeval) \<times> 's"
  inet_addr :: "string \<Rightarrow> u32"

definition AF_INET :: u16 where "AF_INET = 2"
definition O_NONBLOCK :: i32 where "O_NONBLOCK = 0x800"
definition FD_SETSIZE :: i32 where "FD_SETSIZE = 1024"

section \<open>\<open>CommonSocket\<close>\<close>

record CommonSocket =
  socket_fd :: i32
  if_status :: i32
  local_addr :: sockaddr_in
  peer_addr :: sockaddr_in

text \<open>The constructor clears the addresses; \<open>fd\<close> and \<open>status\<close> are what the other members happen to hold.\<close>

definition CommonSocket_new :: "i32 \<Rightarrow> i32 \<Rightarrow> CommonSocket" where
  "CommonSocket_new fd status =
     \<lparr>socket_fd = fd, if_status = status,
      local_addr = \<lparr>sin_family = 0, sin_port = 0, sin_addr = 0\<rparr>,
      peer_addr = \<lparr>sin_family = 0, sin_port = 0, sin_addr = 0\<rparr>\<rparr>"

definition set_if_status :: "i32 \<Rightarrow> CommonSocket \<Rightarrow> CommonSocket" where
  "set_if_status status c = c\<lparr>if_status := status\<rparr>"

definition Bind :: "'s kernel \<Rightarrow> string \<Rightarrow> u16 \<Rightarrow> CommonSocket \<Rightarrow> 's \<Rightarrow> bool \<times> CommonSocket \<times> 's" where
  "Bind K listen_ip listen_port c s =
     (let c = c\<lparr>local_addr := \<lparr>sin_family = AF_INET, sin_port = htons listen_port,
                              sin_addr = inet_addr K listen_ip\<rparr>\<rparr> in
      case sys_setsockopt K (socket_fd c) SO_REUSEADDR 1 s of (r, s) \<Rightarrow>
      if r < 0 then (False, c, s)
      else case sys_bind K (socket_fd c) (local_addr c) s of (r, s) \<Rightarrow>
      if r \<noteq> 0 then (False, c, s) else (True, c, s))"

definition SetSendBufSize :: "'s kernel \<Rightarrow> i32 \<Rightarrow> CommonSocket \<Rightarrow> 's \<Rightarrow> bool \<times> 's" where
  "SetSendBufSize K nbytes c s =
     (case sys_setsockopt K (socket_fd c) SO_SNDBUF nbytes s of (r, s) \<Rightarrow> (if r < 0 then False else True, s))"

definition SetRecvBufSize :: "'s kernel \<Rightarrow> i32 \<Rightarrow> CommonSocket \<Rightarrow> 's \<Rightarrow> bool \<times> 's" where
  "SetRecvBufSize K nbytes c s =
     (case sys_setsockopt K (socket_fd c) SO_RCVBUF nbytes s of (r, s) \<Rightarrow> (if r < 0 then False else True, s))"

definition SetBlocking :: "'s kernel \<Rightarrow> bool \<Rightarrow> CommonSocket \<Rightarrow> 's \<Rightarrow> bool \<times> 's" where
  "SetBlocking K block c s =
     (case sys_getfl K (socket_fd c) s of (opts, s) \<Rightarrow>
      if opts < 0 then (False, s)
      else let opts = (if block then opts AND NOT O_NONBLOCK else opts OR O_NONBLOCK) in
      case sys_setfl K (socket_fd c) opts s of (r, s) \<Rightarrow>
      if r < 0 then (False, s) else (True, s))"

definition Connect :: "'s kernel \<Rightarrow> string \<Rightarrow> u16 \<Rightarrow> CommonSocket \<Rightarrow> 's \<Rightarrow> bool \<times> CommonSocket \<times> 's" where
  "Connect K peer_ip peer_port c s =
     (let c = c\<lparr>peer_addr := \<lparr>sin_family = AF_INET, sin_port = htons peer_port,
                             sin_addr = inet_addr K peer_ip\<rparr>\<rparr> in
      case sys_connect K (socket_fd c) (peer_addr c) s of (result, s) \<Rightarrow> (result = 0, c, s))"

definition Close :: "'s kernel \<Rightarrow> CommonSocket \<Rightarrow> 's \<Rightarrow> 's" where
  "Close K c s = snd (sys_close K (socket_fd c) s)"

text \<open>The first \<open>len\<close> bytes of a buffer are read; a negative \<open>len\<close> becomes a huge \<open>size_t\<close>.\<close>

definition first_bytes :: "bytes \<Rightarrow> i32 \<Rightarrow> bytes res" where
  "first_bytes buf len = (if 0 \<le> len \<and> len \<le> int (length buf) then Ret (take (nat len) buf) else Fault OutOfBounds)"

definition filled_buf :: "bytes \<Rightarrow> bytes \<Rightarrow> bytes" where
  "filled_buf buf got = got @ drop (length got) buf"

definition Send :: "'s kernel \<Rightarrow> bytes \<Rightarrow> i32 \<Rightarrow> CommonSocket \<Rightarrow> 's \<Rightarrow> (i32 \<times> 's) res" where
  "Send K buf len c s = bindR (first_bytes buf len) (\<lambda>bs. Ret (sys_send K (socket_fd c) bs s))"

definition Recv :: "'s kernel \<Rightarrow> bytes \<Rightarrow> i32 \<Rightarrow> CommonSocket \<Rightarrow> 's \<Rightarrow> (i32 \<times> bytes \<times> 's) res" where
  "Recv K buf buf_len c s =
     bindR (first_bytes buf buf_len) (\<lambda>_.
     case sys_recv K (socket_fd c) buf_len s of ((recv_bytes, got), s) \<Rightarrow>
     Ret (recv_bytes, filled_buf buf got, s))"

text \<open>\<open>BuildSockAddr\<close> of \<open>utils.cpp\<close>.\<close>

definition BuildSockAddr :: "'s kernel \<Rightarrow> string \<Rightarrow> u16 \<Rightarrow> sockaddr_in" where
  "BuildSockAddr K ip port =
     \<lparr>sin_family = AF_INET, sin_port = htons port, sin_addr = inet_addr K ip\<rparr>"

section \<open>\<open>UdpSocket\<close>\<close>

text \<open>
  The destructor closes a positive descriptor, then the one of the base class closes it again;
  \<open>others\<close> is what other threads do in between.
\<close>

definition UdpSocket_delete :: "'s kernel \<Rightarrow> ('s \<Rightarrow> 's) \<Rightarrow> CommonSocket \<Rightarrow> 's \<Rightarrow> 's" where
  "UdpSocket_delete K others c s =
     (let s = (if 0 < socket_fd c then snd (sys_close K (socket_fd c) s) else s) in
      Close K c (others s))"

definition Create :: "'s kernel \<Rightarrow> CommonSocket \<Rightarrow> 's \<Rightarrow> bool \<times> CommonSocket \<times> 's" where
  "Create K c s =
     (case sys_socket K s of (fd, s) \<Rightarrow>
      let c = c\<lparr>socket_fd := fd\<rparr> in
      if socket_fd c < 0 then (False, c, s) else (True, c, s))"

definition SendTo_addr :: "'s kernel \<Rightarrow> bytes \<Rightarrow> i32 \<Rightarrow> sockaddr_in \<Rightarrow> CommonSocket \<Rightarrow> 's \<Rightarrow> (i32 \<times> 's) res" where
  "SendTo_addr K buf len target c s =
     bindR (first_bytes buf len) (\<lambda>bs. Ret (sys_sendto K (socket_fd c) bs target s))"

definition SendTo :: "'s kernel \<Rightarrow> bytes \<Rightarrow> i32 \<Rightarrow> string \<Rightarrow> u16 \<Rightarrow> CommonSocket \<Rightarrow> 's \<Rightarrow> (i32 \<times> 's) res" where
  "SendTo K buf len dst_ip dst_port c s =
     (let sock_addr = \<lparr>sin_family = AF_INET, sin_port = htons dst_port, sin_addr = inet_addr K dst_ip\<rparr> in
      bindR (first_bytes buf len) (\<lambda>bs. Ret (sys_sendto K (socket_fd c) bs sock_addr s)))"

text \<open>
  \<open>junk\<close> is what the uninitialised local address holds. The two pointers are given by what they point
  to, \<open>None\<close> for null, and returned with what was written through them.
\<close>

definition RecvFrom ::
  "'s kernel \<Rightarrow> sockaddr_in \<Rightarrow> bytes \<Rightarrow> i32 \<Rightarrow> u32 option \<Rightarrow> u16 option \<Rightarrow> CommonSocket \<Rightarrow> 's \<Rightarrow>
   (i32 \<times> bytes \<times> u32 option \<times> u16 option \<times> 's) res" where
  "RecvFrom K junk buf buf_len from_ip from_port c s =
     bindR (first_bytes buf buf_len) (\<lambda>_.
     case sys_recvfrom K (socket_fd c) buf_len s of ((recv_bytes, got, addr), s) \<Rightarrow>
     let sock_addr = (case addr of Some a \<Rightarrow> a | None \<Rightarrow> junk) in
     Ret (recv_bytes, filled_buf buf got,
          map_option (\<lambda>_. ntohl (sin_addr sock_addr)) from_ip,
          map_option (\<lambda>_. ntohs (sin_port sock_addr)) from_port, s))"

text \<open>
  \<open>FD_SET\<close> writes a bit of an array of 1024. Division and remainder of C round towards zero.
  \<open>elapsed\<close> is what \<open>*elapsed_time\<close> holds before the call.
\<close>

definition MSG_IDLE :: i32 where "MSG_IDLE = 0"
definition MSG_ARRIVAL :: i32 where "MSG_ARRIVAL = 1"

definition wait_timeval :: "i32 \<Rightarrow> timeval" where
  "wait_timeval time_out = \<lparr>tv_sec = time_out sdiv 1000, tv_usec = (time_out smod 1000) * 1000\<rparr>"

definition WaitMsg :: "'s kernel \<Rightarrow> i32 \<Rightarrow> i32 \<Rightarrow> CommonSocket \<Rightarrow> 's \<Rightarrow> (i32 \<times> i32 \<times> 's) res" where
  "WaitMsg K time_out elapsed c s =
     (if socket_fd c < 0 \<or> FD_SETSIZE \<le> socket_fd c then Fault OutOfBounds
      else case sys_select K (socket_fd c) (wait_timeval time_out) s of ((ret, ready, left), s) \<Rightarrow>
      if ret = -1 then Ret (MSG_IDLE, elapsed, s)
      else if ret = 0 then Ret (MSG_IDLE, time_out, s)
      else if ready
      then Ret (MSG_ARRIVAL, time_out - (tv_sec left * 1000 + tv_usec left sdiv 1000), s)
      else Ret (MSG_IDLE, elapsed, s))"

section \<open>What the classes rely on\<close>

text \<open>
  The descriptors that are open, with their status flags (POSIX): a new socket gets a number that is
  not in use, \<open>close\<close> frees a number whoever uses it, and \<open>F_SETFL\<close> sets \<open>O_NONBLOCK\<close>.
\<close>

locale descriptors =
  fixes K :: "'s kernel" and flags :: "'s \<Rightarrow> i32 \<Rightarrow> i32 option"
  assumes socket: "sys_socket K s = (fd, s') \<Longrightarrow>
        fd < 0 \<and> flags s' = flags s \<or> 0 \<le> fd \<and> flags s fd = None \<and> (\<exists>fl. flags s' = (flags s)(fd \<mapsto> fl))"
    and close: "sys_close K fd s = (r, s') \<Longrightarrow> flags s' = (flags s)(fd := None)"
    and getfl: "sys_getfl K fd s = (r, s') \<Longrightarrow> flags s' = flags s \<and> (r < 0 \<or> flags s fd = Some r)"
    and setfl: "sys_setfl K fd fl s = (r, s') \<Longrightarrow> flags s fd = Some old \<Longrightarrow>
        fl AND NOT O_NONBLOCK = old AND NOT O_NONBLOCK \<Longrightarrow>
        r < 0 \<and> flags s' = flags s \<or> 0 \<le> r \<and> flags s' = (flags s)(fd \<mapsto> fl)"
begin

lemma Create_fresh:
  "Create K c s = (True, c', s') \<Longrightarrow>
   flags s (socket_fd c') = None \<and> (\<exists>fl. flags s' = (flags s)(socket_fd c' \<mapsto> fl))"
  using socket by (auto simp: Create_def Let_def split: prod.splits if_splits) fastforce+

lemma Close_frees: "flags (Close K c s) = (flags s)(socket_fd c := None)"
  using close by (cases "sys_close K (socket_fd c) s") (auto simp: Close_def)

lemma SetBlocking_done:
  assumes "SetBlocking K b c s = (True, s')"
  obtains old where "flags s (socket_fd c) = Some old"
    and "flags s' = (flags s)(socket_fd c \<mapsto> (if b then old AND NOT O_NONBLOCK else old OR O_NONBLOCK))"
proof -
  obtain old s1 where g: "sys_getfl K (socket_fd c) s = (old, s1)" by fastforce
  let ?new = "if b then old AND NOT O_NONBLOCK else old OR O_NONBLOCK"
  obtain r s2 where f: "sys_setfl K (socket_fd c) ?new s1 = (r, s2)" by fastforce
  have old: "flags s (socket_fd c) = Some old" "flags s1 = flags s" "0 \<le> r" "s' = s2"
    using assms g f getfl [OF g] by (auto simp: SetBlocking_def Let_def split: if_splits)
  have "?new AND NOT O_NONBLOCK = old AND NOT O_NONBLOCK"
    by (rule bit_eqI) (auto simp: bit_simps)
  with setfl [OF f] old have "flags s2 = (flags s1)(socket_fd c \<mapsto> ?new)" by fastforce
  with old show thesis by (auto intro: that)
qed

lemma UdpSocket_delete_frees:
  assumes "0 < socket_fd c"
  shows "\<exists>s1. flags s1 = (flags s)(socket_fd c := None) \<and>
    flags (UdpSocket_delete K others c s) = (flags (others s1))(socket_fd c := None)"
proof -
  obtain r s1 where "sys_close K (socket_fd c) s = (r, s1)" by fastforce
  then show ?thesis using assms close Close_frees
    by (intro exI [of _ s1]) (auto simp: UdpSocket_delete_def)
qed

end

lemma bit_O_NONBLOCK: "bit O_NONBLOCK n \<longleftrightarrow> n = 11"
proof -
  have nb: "O_NONBLOCK = 2 ^ 11" by (simp add: O_NONBLOCK_def)
  show ?thesis unfolding nb by (auto simp: bit_exp_iff simp del: power_numeral)
qed

text \<open>\<open>select\<close> of Linux: it refuses a negative time and leaves the time that was not waited.\<close>

definition micros :: "timeval \<Rightarrow> int" where
  "micros tv = tv_sec tv * 1000000 + tv_usec tv"

definition normal_timeval :: "timeval \<Rightarrow> bool" where
  "normal_timeval tv \<longleftrightarrow> 0 \<le> tv_sec tv \<and> 0 \<le> tv_usec tv \<and> tv_usec tv < 1000000"

lemma signed_div_mod_nonneg:
  fixes t :: int
  shows "0 \<le> t \<Longrightarrow> t sdiv 1000 = t div 1000" "0 \<le> t \<Longrightarrow> t smod 1000 = t mod 1000"
  by (auto simp: signed_divide_int_def signed_modulo_int_def sgn_if)

locale waiting =
  fixes K :: "'s kernel"
  assumes select_time: "sys_select K fd tv s = ((ret, ready, left), s') \<Longrightarrow> normal_timeval tv \<Longrightarrow>
        ret = -1 \<or> ret = 0 \<or> 0 < ret \<and> ready \<and> normal_timeval left \<and> micros left \<le> micros tv"
    and select_negative: "sys_select K fd tv s = ((ret, ready, left), s') \<Longrightarrow>
        tv_sec tv < 0 \<or> tv_usec tv < 0 \<Longrightarrow> ret = -1"
begin

lemma wait_timeval_nonneg:
  assumes "0 \<le> t"
  shows "wait_timeval t = \<lparr>tv_sec = t div 1000, tv_usec = t mod 1000 * 1000\<rparr>"
    and "normal_timeval (wait_timeval t)" and "micros (wait_timeval t) = t * 1000"
proof -
  show w: "wait_timeval t = \<lparr>tv_sec = t div 1000, tv_usec = t mod 1000 * 1000\<rparr>"
    using assms by (simp add: wait_timeval_def signed_div_mod_nonneg)
  have "0 \<le> t mod 1000" "t mod 1000 < 1000" by simp_all
  then show "normal_timeval (wait_timeval t)" using assms by (simp add: w normal_timeval_def)
  show "micros (wait_timeval t) = t * 1000"
    unfolding w micros_def timeval.simps using div_mult_mod_eq [of t 1000] by linarith
qed

lemma WaitMsg_result:
  assumes "0 \<le> socket_fd c" and "socket_fd c < FD_SETSIZE" and "0 \<le> t"
  shows "\<exists>res el s'. WaitMsg K t el0 c s = Ret (res, el, s') \<and>
    (res = MSG_ARRIVAL \<and> 0 \<le> el \<and> el \<le> t \<and>
       (\<exists>left. 0 \<le> left \<and> left \<le> t * 1000 \<and> el * 1000 - 1000 < t * 1000 - left \<and> t * 1000 - left \<le> el * 1000)
     \<or> res = MSG_IDLE \<and> (el = t \<or> el = el0))"
proof -
  obtain ret ready left s1 where sel: "sys_select K (socket_fd c) (wait_timeval t) s = ((ret, ready, left), s1)"
    by (metis prod.exhaust)
  from select_time [OF sel wait_timeval_nonneg(2) [OF assms(3)]]
  consider "ret = -1 \<or> ret = 0"
    | "0 < ret" "ready" "normal_timeval left" "micros left \<le> t * 1000"
    using wait_timeval_nonneg(3) [OF assms(3)] by auto
  then show ?thesis
  proof cases
    case 1
    with sel assms show ?thesis by (auto simp: WaitMsg_def)
  next
    case 2
    let ?el = "t - (tv_sec left * 1000 + tv_usec left sdiv 1000)"
    have q: "tv_usec left sdiv 1000 = tv_usec left div 1000"
      using 2(3) by (simp add: normal_timeval_def signed_div_mod_nonneg)
    have u: "tv_usec left div 1000 * 1000 \<le> tv_usec left" "tv_usec left < tv_usec left div 1000 * 1000 + 1000"
      "0 \<le> tv_usec left div 1000"
      using 2(3) div_mult_mod_eq [of "tv_usec left" 1000] pos_mod_bound [of 1000 "tv_usec left"]
        pos_mod_sign [of 1000 "tv_usec left"]
      by (auto simp: normal_timeval_def pos_imp_zdiv_nonneg_iff simp del: div_mult_mod_eq)
    have "WaitMsg K t el0 c s = Ret (MSG_ARRIVAL, ?el, s1)"
      using 2 sel assms by (simp add: WaitMsg_def)
    moreover have "0 \<le> ?el" "?el \<le> t" "0 \<le> micros left"
      "?el * 1000 - 1000 < t * 1000 - micros left" "t * 1000 - micros left \<le> ?el * 1000"
      using 2(3,4) u by (simp_all add: q micros_def normal_timeval_def)
    ultimately show ?thesis using 2(4) by blast
  qed
qed

end

section \<open>A small operating system\<close>

text \<open>
  The open descriptors with their flags, the lowest free number for a new one; a message arrives
  after \<open>pause\<close> microseconds.
\<close>

type_synonym small_os = "i32 option list"

definition small_flags :: "small_os \<Rightarrow> i32 \<Rightarrow> i32 option" where
  "small_flags s fd = (if 0 \<le> fd \<and> fd < int (length s) then s ! nat fd else None)"

fun take_lowest :: "small_os \<Rightarrow> nat \<times> small_os" where
  "take_lowest [] = (0, [Some 2])"
| "take_lowest (None # s) = (0, Some 2 # s)"
| "take_lowest (Some f # s) = (case take_lowest s of (n, s') \<Rightarrow> (Suc n, Some f # s'))"

definition small_set :: "small_os \<Rightarrow> i32 \<Rightarrow> i32 option \<Rightarrow> small_os" where
  "small_set s fd f = (if 0 \<le> fd then s[nat fd := f] else s)"

definition small_kernel :: "int \<Rightarrow> small_os kernel" where
  "small_kernel pause =
     \<lparr>sys_socket = \<lambda>s. (case take_lowest s of (n, s') \<Rightarrow> (int n, s')),
      sys_setsockopt = \<lambda>fd opt v s. (0, s), sys_bind = \<lambda>fd a s. (0, s), sys_connect = \<lambda>fd a s. (0, s),
      sys_getfl = \<lambda>fd s. (case small_flags s fd of Some f \<Rightarrow> (f, s) | None \<Rightarrow> (-1, s)),
      sys_setfl = \<lambda>fd f s. (if small_flags s fd = None then (-1, s) else (0, small_set s fd (Some f))),
      sys_close = \<lambda>fd s. (if small_flags s fd = None then (-1, s) else (0, small_set s fd None)),
      sys_send = \<lambda>fd b s. (int (length b), s), sys_recv = \<lambda>fd n s. ((0, []), s),
      sys_sendto = \<lambda>fd b a s. (int (length b), s), sys_recvfrom = \<lambda>fd n s. ((-1, [], None), s),
      sys_select = \<lambda>fd tv s. (if tv_sec tv < 0 \<or> tv_usec tv < 0 then ((-1, False, tv), s)
        else if micros tv < pause then ((0, False, \<lparr>tv_sec = 0, tv_usec = 0\<rparr>), s)
        else ((1, True, \<lparr>tv_sec = (micros tv - pause) div 1000000,
                        tv_usec = (micros tv - pause) mod 1000000\<rparr>), s)),
      inet_addr = \<lambda>ip. 0xFFFFFFFF\<rparr>"

lemma small_set_flags:
  "small_flags s fd \<noteq> None \<Longrightarrow> small_flags (small_set s fd f) = (small_flags s)(fd := f)"
  by (rule ext) (auto simp: small_flags_def small_set_def nth_list_update split: if_splits)

lemma take_lowest_flags:
  "take_lowest s = (n, s') \<Longrightarrow>
   small_flags s (int n) = None \<and> small_flags s' = (small_flags s)(int n \<mapsto> 2)"
proof (induction s arbitrary: n s' rule: take_lowest.induct)
  case 1
  then show ?case by (auto simp: small_flags_def)
next
  case (2 s)
  then show ?case by (auto simp: small_flags_def fun_eq_iff nth_Cons' split: if_splits)
next
  case (3 f s)
  then obtain m t where m: "take_lowest s = (m, t)" "n = Suc m" "s' = Some f # t"
    by (auto split: prod.splits)
  have c: "small_flags (x # xs) i = (if i = 0 then x else small_flags xs (i - 1))" for x xs i
    by (auto simp: small_flags_def nth_Cons' nat_diff_distrib)
  from 3(1) [OF m(1)] show ?case by (auto simp: m c fun_eq_iff)
qed

interpretation small: descriptors "small_kernel pause" small_flags for pause
proof
  show "fd < 0 \<and> small_flags s' = small_flags s \<or>
      0 \<le> fd \<and> small_flags s fd = None \<and> (\<exists>fl. small_flags s' = (small_flags s)(fd \<mapsto> fl))"
    if "sys_socket (small_kernel pause) s = (fd, s')" for s fd s'
    using that take_lowest_flags [of s] by (auto simp: small_kernel_def split: prod.splits)
next
  show "small_flags s' = (small_flags s)(fd := None)"
    if "sys_close (small_kernel pause) fd s = (r, s')" for fd s r s'
    using that small_set_flags [of s fd None] by (auto simp: small_kernel_def split: if_splits)
next
  show "small_flags s' = small_flags s \<and> (r < 0 \<or> small_flags s fd = Some r)"
    if "sys_getfl (small_kernel pause) fd s = (r, s')" for fd s r s'
    using that by (auto simp: small_kernel_def split: option.splits)
next
  show "r < 0 \<and> small_flags s' = small_flags s \<or> 0 \<le> r \<and> small_flags s' = (small_flags s)(fd \<mapsto> fl)"
    if "sys_setfl (small_kernel pause) fd fl s = (r, s')" and "small_flags s fd = Some old" for fd fl s r s' old
    using that small_set_flags [of s fd "Some fl"] by (auto simp: small_kernel_def)
qed

lemma micros_normal: "0 \<le> n \<Longrightarrow> micros \<lparr>tv_sec = n div 1000000, tv_usec = n mod 1000000\<rparr> = n"
  by (simp add: micros_def)

lemma small_waiting: "0 \<le> pause \<Longrightarrow> waiting (small_kernel pause)"
  by unfold_locales
    (auto simp: small_kernel_def normal_timeval_def micros_normal pos_imp_zdiv_nonneg_iff split: if_splits)

interpretation small: waiting "small_kernel 1500" by (rule small_waiting) simp

section \<open>Properties\<close>

text \<open>
  When \<open>SetBlocking\<close> reports success, the descriptor has the flags it had before, but for
  \<open>O_NONBLOCK\<close>, which is clear for blocking and set for not blocking; no other descriptor changed.
\<close>

theorem SetBlocking_flags:
  assumes "descriptors K flags" and "SetBlocking K b c s = (True, s')"
  shows "\<exists>old new. flags s (socket_fd c) = Some old \<and> flags s' = (flags s)(socket_fd c \<mapsto> new) \<and>
    (\<forall>n. bit new n \<longleftrightarrow> (if n = 11 then \<not> b else bit old n))"
proof -
  obtain old where "flags s (socket_fd c) = Some old"
    and "flags s' = (flags s)(socket_fd c \<mapsto> (if b then old AND NOT O_NONBLOCK else old OR O_NONBLOCK))"
    using descriptors.SetBlocking_done [OF assms] by blast
  then show ?thesis by (auto simp: bit_simps bit_O_NONBLOCK)
qed

definition small_socket :: CommonSocket where
  "small_socket = (CommonSocket_new 1 0)"

theorem SetBlocking_flags_witness:
  "\<exists>new. small_flags (snd (SetBlocking (small_kernel 0) False small_socket [Some 0, Some 2])) 1 = Some new \<and>
     bit new 11"
proof -
  have "SetBlocking (small_kernel 0) False small_socket [Some 0, Some 2] =
      (True, snd (SetBlocking (small_kernel 0) False small_socket [Some 0, Some 2]))" by code_simp
  from SetBlocking_flags [OF small.descriptors_axioms this] show ?thesis
    by (auto simp: small_socket_def CommonSocket_new_def)
qed

text \<open>
  The destructor of a \<open>UdpSocket\<close> closes its descriptor twice. Alone this is harmless: the
  descriptor is free afterwards and the others are as before. But what another thread opens under the
  same number between the two calls is closed too.
\<close>

theorem UdpSocket_closes_twice:
  assumes "descriptors K flags" and "0 < socket_fd c"
  shows "flags (UdpSocket_delete K id c s) = (flags s)(socket_fd c := None) \<and>
    (\<exists>s1. flags s1 = (flags s)(socket_fd c := None) \<and>
       flags (UdpSocket_delete K others c s) = (flags (others s1))(socket_fd c := None))"
  using descriptors.UdpSocket_delete_frees [OF assms, of s others]
    descriptors.UdpSocket_delete_frees [OF assms, of s id]
  by fastforce

theorem UdpSocket_closes_twice_witness:
  "small_flags (UdpSocket_delete (small_kernel 0) (\<lambda>s. snd (sys_socket (small_kernel 0) s)) small_socket
     [Some 0, Some 2]) 1 = None \<and>
   small_flags (UdpSocket_delete (small_kernel 0) id small_socket [Some 0, Some 2]) 0 = Some 0 \<and>
   fst (sys_socket (small_kernel 0) (snd (sys_close (small_kernel 0) 1 [Some 0, Some 2]))) = 1"
proof -
  have fd: "0 < socket_fd small_socket" "socket_fd small_socket = 1"
    and n: "fst (sys_socket (small_kernel 0) (snd (sys_close (small_kernel 0) 1 [Some 0, Some 2]))) = 1"
    and f: "small_flags [Some 0, Some 2] 0 = Some 0" by code_simp+
  from UdpSocket_closes_twice [OF small.descriptors_axioms [where pause = 0] fd(1), of "[Some 0, Some 2]"
      "\<lambda>s. snd (sys_socket (small_kernel 0) s)"] fd(2) n f
  show ?thesis by auto
qed



end
