(* ===== verification/Thrift.thy ===== *)
theory Thrift
  imports Environment
begin

text \<open>
  \<open>src/thrift\<close>: what the Thrift compiler generated from \<open>im.thrfit\<close>, from the structs that
  are read and written field by field to the client calls and the dispatch of the server
  (\<open>im_types.cpp\<close>, \<open>LogicInterface.cpp\<close>). The library below it (\<open>TProtocol\<close> over a buffered
  transport) is not in the repository: it is the parameter \<open>P\<close>, a record of the calls the
  generated code makes, over a \<open>wire\<close> with the bytes still to be read and those written. A call that
  throws is \<open>Inl\<close>; \<open>None\<close> is a \<open>while (true)\<close> that never ends.
  The concurrent client is in \<open>Concurrent\<close>, the multi-interface in \<open>Multiface\<close>, the client objects with their
  whole calls and the factories in \<open>ThriftClient\<close>, copies and comparisons of the structures in \<open>ThriftObjects\<close>;
  the event handler, which the server never sets, is left out.
\<close>

section \<open>The library\<close>

datatype ttype = T_STOP | T_I32 | T_STRING | T_STRUCT | T_other u8

datatype mtype = T_CALL | T_REPLY | T_EXCEPTION | T_ONEWAY

datatype texn = TransportError | ProtocolError | ApplicationError bytes

record wire =
  unread :: bytes
  written :: bytes

text \<open>The items that are written, and those of them that are read without a value.\<close>

datatype mark = MessageEnd | StructBegin | StructEnd | FieldEnd | TransportEnd

datatype item =
    MessageBegin bytes mtype i32
  | StructName bytes
  | FieldBegin bytes ttype int
  | FieldStop
  | I32 i32
  | Str bytes
  | AppException bytes
  | Mark mark
  | Flush

type_synonym 'a io = "texn + 'a \<times> u32 \<times> wire"

text \<open>Each call returns its value, the number of bytes it moved and the wire after it.\<close>

record protocol =
  write_item :: "item \<Rightarrow> wire \<Rightarrow> unit io"
  read_message_begin :: "wire \<Rightarrow> (bytes \<times> mtype \<times> i32) io"
  read_field_begin :: "wire \<Rightarrow> (ttype \<times> int) io"
  read_i32 :: "wire \<Rightarrow> i32 io"
  read_string :: "wire \<Rightarrow> bytes io"
  read_app_exception :: "wire \<Rightarrow> bytes io"
  read_mark :: "mark \<Rightarrow> wire \<Rightarrow> unit io"
  skip_value :: "ttype \<Rightarrow> wire \<Rightarrow> unit io"
  depth_ok :: "nat \<Rightarrow> bool"

text \<open>The bytes of an ASCII literal.\<close>

definition ascii :: "string \<Rightarrow> bytes" where
  "ascii s = map of_char s"

section \<open>Sequencing\<close>

fun counted :: "u32 \<Rightarrow> 'a io \<Rightarrow> 'a io" where
  "counted n (Inl e) = Inl e"
| "counted n (Inr (a, k, s)) = Inr (a, n + k, s)"

fun bindT :: "'a io \<Rightarrow> ('a \<Rightarrow> wire \<Rightarrow> 'b io) \<Rightarrow> 'b io" where
  "bindT (Inl e) f = Inl e"
| "bindT (Inr (a, n, s)) f = counted n (f a s)"

fun bindO :: "'a io option \<Rightarrow> ('a \<Rightarrow> wire \<Rightarrow> 'b io option) \<Rightarrow> 'b io option" where
  "bindO None f = None"
| "bindO (Some (Inl e)) f = Some (Inl e)"
| "bindO (Some (Inr (a, n, s))) f = map_option (counted n) (f a s)"

fun writes :: "protocol \<Rightarrow> item list \<Rightarrow> wire \<Rightarrow> unit io" where
  "writes P [] s = Inr ((), 0, s)"
| "writes P (i # is) s = bindT (write_item P i s) (\<lambda>_. writes P is)"

text \<open>
  The recursion trackers count the structs that are open; \<open>d\<close> of them are when the next one
  is entered.
\<close>

definition tracked :: "protocol \<Rightarrow> nat \<Rightarrow> 'a io option \<Rightarrow> 'a io option" where
  "tracked P d act = (if depth_ok P (d + 1) then act else Some (Inl ProtocolError))"

section \<open>Reading a struct\<close>

text \<open>
  The loop that every generated \<open>read\<close> has: up to the stop mark, each field is given to the
  \<open>switch\<close> of that \<open>read\<close>, the argument \<open>field\<close>.
\<close>

partial_function (option) read_fields ::
  "protocol \<Rightarrow> (int \<Rightarrow> ttype \<Rightarrow> 'a \<Rightarrow> wire \<Rightarrow> 'a io option) \<Rightarrow> 'a \<Rightarrow> wire \<Rightarrow> 'a io option" where
  "read_fields P field m s =
     (case read_field_begin P s of
        Inl e \<Rightarrow> Some (Inl e)
      | Inr ((ftype, fid), n, s) \<Rightarrow>
        if ftype = T_STOP then Some (Inr (m, n, s))
        else Option.bind (field fid ftype m s) (\<lambda>r. case r of
            Inl e \<Rightarrow> Some (Inl e)
          | Inr (m, k, s) \<Rightarrow>
            (case read_mark P FieldEnd s of
               Inl e \<Rightarrow> Some (Inl e)
             | Inr (u, j, s) \<Rightarrow>
               Option.bind (read_fields P field m s) (\<lambda>r. Some (counted (n + k + j) r)))))"

declare read_fields.simps [code]

definition read_struct ::
  "protocol \<Rightarrow> nat \<Rightarrow> (int \<Rightarrow> ttype \<Rightarrow> 'a \<Rightarrow> wire \<Rightarrow> 'a io option) \<Rightarrow> 'a \<Rightarrow> wire \<Rightarrow> 'a io option" where
  "read_struct P d field m s =
     tracked P d
       (bindO (Some (read_mark P StructBegin s)) (\<lambda>_ s.
        bindO (read_fields P field m s) (\<lambda>m s.
        bindO (Some (read_mark P StructEnd s)) (\<lambda>_ s. Some (Inr (m, 0, s))))))"

text \<open>\<open>skip(ftype)\<close>, for a field that is not wanted.\<close>

definition skipped :: "protocol \<Rightarrow> ttype \<Rightarrow> 'a \<Rightarrow> wire \<Rightarrow> 'a io" where
  "skipped P ftype m s = bindT (skip_value P ftype s) (\<lambda>_ s. Inr (m, 0, s))"

definition into :: "('v \<Rightarrow> 'a) \<Rightarrow> 'v io \<Rightarrow> 'a io" where
  "into f r = bindT r (\<lambda>v s. Inr (f v, 0, s))"

section \<open>\<open>AccessMessage\<close>\<close>

record AccessMessage_isset =
  isset_uid :: bool
  isset_sate_id :: bool
  isset_beam_id :: bool
  isset_level :: bool
  isset_content :: bool

type_synonym access_object = "AccessMessage \<times> AccessMessage_isset"

definition AccessMessage_new :: access_object where
  "AccessMessage_new =
     (\<lparr>am_uid = 0, am_sate_id = 0, am_beam_id = 0, am_level = 0, am_content = []\<rparr>,
      \<lparr>isset_uid = False, isset_sate_id = False, isset_beam_id = False, isset_level = False,
       isset_content = False\<rparr>)"

definition set_uid :: "i32 \<Rightarrow> access_object \<Rightarrow> access_object" where
  "set_uid val = apfst (\<lambda>m. m\<lparr>am_uid := val\<rparr>)"
definition set_sate_id :: "i32 \<Rightarrow> access_object \<Rightarrow> access_object" where
  "set_sate_id val = apfst (\<lambda>m. m\<lparr>am_sate_id := val\<rparr>)"
definition set_beam_id :: "i32 \<Rightarrow> access_object \<Rightarrow> access_object" where
  "set_beam_id val = apfst (\<lambda>m. m\<lparr>am_beam_id := val\<rparr>)"
definition set_level :: "i32 \<Rightarrow> access_object \<Rightarrow> access_object" where
  "set_level val = apfst (\<lambda>m. m\<lparr>am_level := val\<rparr>)"
definition set_content :: "bytes \<Rightarrow> access_object \<Rightarrow> access_object" where
  "set_content val = apfst (\<lambda>m. m\<lparr>am_content := val\<rparr>)"

definition AccessMessage_eq :: "access_object \<Rightarrow> access_object \<Rightarrow> bool" where
  "AccessMessage_eq a b =
     (if \<not> am_uid (fst a) = am_uid (fst b) then False
      else if \<not> am_sate_id (fst a) = am_sate_id (fst b) then False
      else if \<not> am_beam_id (fst a) = am_beam_id (fst b) then False
      else if \<not> am_level (fst a) = am_level (fst b) then False
      else if \<not> am_content (fst a) = am_content (fst b) then False
      else True)"

definition AccessMessage_field ::
  "protocol \<Rightarrow> int \<Rightarrow> ttype \<Rightarrow> access_object \<Rightarrow> wire \<Rightarrow> access_object io option" where
  "AccessMessage_field P fid ftype = (\<lambda>(m, i) s. Some (
     if fid = 1 then
       if ftype = T_I32 then into (\<lambda>v. (m\<lparr>am_uid := v\<rparr>, i\<lparr>isset_uid := True\<rparr>)) (read_i32 P s)
       else skipped P ftype (m, i) s
     else if fid = 2 then
       if ftype = T_I32 then into (\<lambda>v. (m\<lparr>am_sate_id := v\<rparr>, i\<lparr>isset_sate_id := True\<rparr>)) (read_i32 P s)
       else skipped P ftype (m, i) s
     else if fid = 3 then
       if ftype = T_I32 then into (\<lambda>v. (m\<lparr>am_beam_id := v\<rparr>, i\<lparr>isset_beam_id := True\<rparr>)) (read_i32 P s)
       else skipped P ftype (m, i) s
     else if fid = 4 then
       if ftype = T_I32 then into (\<lambda>v. (m\<lparr>am_level := v\<rparr>, i\<lparr>isset_level := True\<rparr>)) (read_i32 P s)
       else skipped P ftype (m, i) s
     else if fid = 5 then
       if ftype = T_STRING then into (\<lambda>v. (m\<lparr>am_content := v\<rparr>, i\<lparr>isset_content := True\<rparr>)) (read_string P s)
       else skipped P ftype (m, i) s
     else skipped P ftype (m, i) s))"

definition AccessMessage_read ::
  "protocol \<Rightarrow> nat \<Rightarrow> access_object \<Rightarrow> wire \<Rightarrow> access_object io option" where
  "AccessMessage_read P d = read_struct P d (AccessMessage_field P)"

text \<open>The items \<open>write\<close> writes, one after the other.\<close>

definition AccessMessage_items :: "AccessMessage \<Rightarrow> item list" where
  "AccessMessage_items m =
     [StructName (ascii ''AccessMessage''),
      FieldBegin (ascii ''uid'') T_I32 1, I32 (am_uid m), Mark FieldEnd,
      FieldBegin (ascii ''sate_id'') T_I32 2, I32 (am_sate_id m), Mark FieldEnd,
      FieldBegin (ascii ''beam_id'') T_I32 3, I32 (am_beam_id m), Mark FieldEnd,
      FieldBegin (ascii ''level'') T_I32 4, I32 (am_level m), Mark FieldEnd,
      FieldBegin (ascii ''content'') T_STRING 5, Str (am_content m), Mark FieldEnd,
      FieldStop, Mark StructEnd]"

definition AccessMessage_write :: "protocol \<Rightarrow> nat \<Rightarrow> access_object \<Rightarrow> wire \<Rightarrow> unit io" where
  "AccessMessage_write P d m s =
     (if depth_ok P (d + 1) then writes P (AccessMessage_items (fst m)) s else Inl ProtocolError)"

section \<open>Arguments and results of the two calls\<close>

type_synonym AccessToLogic_args = "bytes \<times> bool"
type_synonym LogicToAccess_args = "access_object \<times> bool"

definition AccessToLogic_args_field ::
  "protocol \<Rightarrow> int \<Rightarrow> ttype \<Rightarrow> AccessToLogic_args \<Rightarrow> wire \<Rightarrow> AccessToLogic_args io option" where
  "AccessToLogic_args_field P fid ftype args s = Some (
     if fid = 1 then
       if ftype = T_STRING then into (\<lambda>v. (v, True)) (read_string P s)
       else skipped P ftype args s
     else skipped P ftype args s)"

definition AccessToLogic_args_read ::
  "protocol \<Rightarrow> nat \<Rightarrow> AccessToLogic_args \<Rightarrow> wire \<Rightarrow> AccessToLogic_args io option" where
  "AccessToLogic_args_read P d = read_struct P d (AccessToLogic_args_field P)"

definition AccessToLogic_args_write :: "protocol \<Rightarrow> nat \<Rightarrow> AccessToLogic_args \<Rightarrow> wire \<Rightarrow> unit io" where
  "AccessToLogic_args_write P d args s =
     (if depth_ok P (d + 1)
      then writes P [StructName (ascii ''LogicInterface_AccessToLogic_args''),
        FieldBegin (ascii ''request'') T_STRING 1, Str (fst args), Mark FieldEnd,
        FieldStop, Mark StructEnd] s
      else Inl ProtocolError)"

definition AccessToLogic_pargs_write :: "protocol \<Rightarrow> nat \<Rightarrow> bytes \<Rightarrow> wire \<Rightarrow> unit io" where
  "AccessToLogic_pargs_write P d request s =
     (if depth_ok P (d + 1)
      then writes P [StructName (ascii ''LogicInterface_AccessToLogic_pargs''),
        FieldBegin (ascii ''request'') T_STRING 1, Str request, Mark FieldEnd,
        FieldStop, Mark StructEnd] s
      else Inl ProtocolError)"

text \<open>A result has no fields: \<open>read\<close> skips whatever there is.\<close>

definition result_field :: "protocol \<Rightarrow> int \<Rightarrow> ttype \<Rightarrow> unit \<Rightarrow> wire \<Rightarrow> unit io option" where
  "result_field P fid ftype u s = Some (skipped P ftype u s)"

definition AccessToLogic_result_read :: "protocol \<Rightarrow> nat \<Rightarrow> wire \<Rightarrow> unit io option" where
  "AccessToLogic_result_read P d = read_struct P d (result_field P) ()"

definition AccessToLogic_result_write :: "protocol \<Rightarrow> wire \<Rightarrow> unit io" where
  "AccessToLogic_result_write P =
     writes P [StructName (ascii ''LogicInterface_AccessToLogic_result''), FieldStop, Mark StructEnd]"

definition AccessToLogic_presult_read :: "protocol \<Rightarrow> nat \<Rightarrow> wire \<Rightarrow> unit io option" where
  "AccessToLogic_presult_read P d = read_struct P d (result_field P) ()"

definition LogicToAccess_args_field ::
  "protocol \<Rightarrow> nat \<Rightarrow> int \<Rightarrow> ttype \<Rightarrow> LogicToAccess_args \<Rightarrow> wire \<Rightarrow> LogicToAccess_args io option" where
  "LogicToAccess_args_field P d fid ftype args s =
     (if fid = 1 then
        if ftype = T_STRUCT then map_option (into (\<lambda>v. (v, True))) (AccessMessage_read P (d + 1) (fst args) s)
        else Some (skipped P ftype args s)
      else Some (skipped P ftype args s))"

definition LogicToAccess_args_read ::
  "protocol \<Rightarrow> nat \<Rightarrow> LogicToAccess_args \<Rightarrow> wire \<Rightarrow> LogicToAccess_args io option" where
  "LogicToAccess_args_read P d = read_struct P d (LogicToAccess_args_field P d)"

definition LogicToAccess_args_write :: "protocol \<Rightarrow> nat \<Rightarrow> LogicToAccess_args \<Rightarrow> wire \<Rightarrow> unit io" where
  "LogicToAccess_args_write P d args s =
     (if depth_ok P (d + 1)
      then bindT (writes P [StructName (ascii ''LogicInterface_LogicToAccess_args''),
          FieldBegin (ascii ''response'') T_STRUCT 1] s) (\<lambda>_ s.
        bindT (AccessMessage_write P (d + 1) (fst args) s) (\<lambda>_ s.
        writes P [Mark FieldEnd, FieldStop, Mark StructEnd] s))
      else Inl ProtocolError)"

definition LogicToAccess_pargs_write :: "protocol \<Rightarrow> nat \<Rightarrow> access_object \<Rightarrow> wire \<Rightarrow> unit io" where
  "LogicToAccess_pargs_write P d response s =
     (if depth_ok P (d + 1)
      then bindT (writes P [StructName (ascii ''LogicInterface_LogicToAccess_pargs''),
          FieldBegin (ascii ''response'') T_STRUCT 1] s) (\<lambda>_ s.
        bindT (AccessMessage_write P (d + 1) response s) (\<lambda>_ s.
        writes P [Mark FieldEnd, FieldStop, Mark StructEnd] s))
      else Inl ProtocolError)"

definition LogicToAccess_result_read :: "protocol \<Rightarrow> nat \<Rightarrow> wire \<Rightarrow> unit io option" where
  "LogicToAccess_result_read P d = read_struct P d (result_field P) ()"

definition LogicToAccess_result_write :: "protocol \<Rightarrow> wire \<Rightarrow> unit io" where
  "LogicToAccess_result_write P =
     writes P [StructName (ascii ''LogicInterface_LogicToAccess_result''), FieldStop, Mark StructEnd]"

definition LogicToAccess_presult_read :: "protocol \<Rightarrow> nat \<Rightarrow> wire \<Rightarrow> unit io option" where
  "LogicToAccess_presult_read P d = read_struct P d (result_field P) ()"

section \<open>The client\<close>

definition send_AccessToLogic :: "protocol \<Rightarrow> bytes \<Rightarrow> wire \<Rightarrow> unit io" where
  "send_AccessToLogic P request s =
     bindT (write_item P (MessageBegin (ascii ''AccessToLogic'') T_CALL 0) s) (\<lambda>_ s.
     bindT (AccessToLogic_pargs_write P 0 request s) (\<lambda>_ s.
     writes P [Mark MessageEnd, Mark TransportEnd, Flush] s))"

definition send_LogicToAccess :: "protocol \<Rightarrow> access_object \<Rightarrow> wire \<Rightarrow> unit io" where
  "send_LogicToAccess P response s =
     bindT (write_item P (MessageBegin (ascii ''LogicToAccess'') T_CALL 0) s) (\<lambda>_ s.
     bindT (LogicToAccess_pargs_write P 0 response s) (\<lambda>_ s.
     writes P [Mark MessageEnd, Mark TransportEnd, Flush] s))"

text \<open>The end of a message that was read, and a message whose struct is not wanted.\<close>

definition read_end :: "protocol \<Rightarrow> wire \<Rightarrow> unit io" where
  "read_end P s = bindT (read_mark P MessageEnd s) (\<lambda>_ s. read_mark P TransportEnd s)"

definition discard :: "protocol \<Rightarrow> wire \<Rightarrow> unit io" where
  "discard P s = bindT (skip_value P T_STRUCT s) (\<lambda>_ s. read_end P s)"

text \<open>
  The answer. After a message of the wrong kind or name, which is discarded, the code goes on
  and reads the result from what comes next.
\<close>

definition recv_reply :: "protocol \<Rightarrow> bytes \<Rightarrow> (wire \<Rightarrow> unit io option) \<Rightarrow> wire \<Rightarrow> unit io option" where
  "recv_reply P called presult_read s =
     bindO (Some (read_message_begin P s)) (\<lambda>(fname, mtype, rseqid) s.
     if mtype = T_EXCEPTION
     then bindO (Some (read_app_exception P s)) (\<lambda>x s.
          bindO (Some (read_end P s)) (\<lambda>_ s. Some (Inl (ApplicationError x))))
     else
       bindO (Some (if mtype \<noteq> T_REPLY then discard P s else Inr ((), 0, s))) (\<lambda>_ s.
       bindO (Some (if fname \<noteq> called then discard P s else Inr ((), 0, s))) (\<lambda>_ s.
       bindO (presult_read s) (\<lambda>_ s. Some (read_end P s)))))"

definition recv_AccessToLogic :: "protocol \<Rightarrow> wire \<Rightarrow> unit io option" where
  "recv_AccessToLogic P = recv_reply P (ascii ''AccessToLogic'') (AccessToLogic_presult_read P 0)"

definition recv_LogicToAccess :: "protocol \<Rightarrow> wire \<Rightarrow> unit io option" where
  "recv_LogicToAccess P = recv_reply P (ascii ''LogicToAccess'') (LogicToAccess_presult_read P 0)"

section \<open>The dispatch of the server\<close>

text \<open>
  \<open>LogicInterfaceIf\<close> on the state \<open>'w\<close> of the handler: \<open>Some what\<close> is a \<open>std::exception\<close>.
\<close>

record 'w iface =
  if_AccessToLogic :: "bytes \<Rightarrow> 'w \<Rightarrow> (bytes option \<times> 'w) res"
  if_LogicToAccess :: "access_object \<Rightarrow> 'w \<Rightarrow> (bytes option \<times> 'w) res"

text \<open>What one call comes to: no end, a crash of the handler, or an exception or the wire, and the handler's state.\<close>

type_synonym 'w served = "((texn + wire) \<times> 'w) res option"

definition after_write :: "unit io \<Rightarrow> texn + wire" where
  "after_write r = map_sum id (\<lambda>(u, n, s). s) r"

definition write_exception :: "protocol \<Rightarrow> bytes \<Rightarrow> i32 \<Rightarrow> bytes \<Rightarrow> wire \<Rightarrow> unit io" where
  "write_exception P fname seqid what =
     writes P [MessageBegin fname T_EXCEPTION seqid, AppException what, Mark MessageEnd, Mark TransportEnd, Flush]"

definition process_call ::
  "protocol \<Rightarrow> bytes \<Rightarrow> (wire \<Rightarrow> 'a io option) \<Rightarrow> ('a \<Rightarrow> 'w \<Rightarrow> (bytes option \<times> 'w) res) \<Rightarrow> (wire \<Rightarrow> unit io) \<Rightarrow>
   i32 \<Rightarrow> wire \<Rightarrow> 'w \<Rightarrow> 'w served" where
  "process_call P called args_read handler result_write seqid s w =
     (case bindO (args_read s) (\<lambda>args s. bindO (Some (read_end P s)) (\<lambda>_ s. Some (Inr (args, 0, s)))) of
        None \<Rightarrow> None
      | Some (Inl e) \<Rightarrow> Some (Ret (Inl e, w))
      | Some (Inr (args, n, s)) \<Rightarrow> Some (
          bindR (handler args w) (\<lambda>(thrown, w).
          Ret (after_write (case thrown of
              Some what \<Rightarrow> write_exception P called seqid what s
            | None \<Rightarrow>
                bindT (write_item P (MessageBegin called T_REPLY seqid) s) (\<lambda>_ s.
                bindT (result_write s) (\<lambda>_ s.
                writes P [Mark MessageEnd, Mark TransportEnd, Flush] s))), w))))"

definition process_AccessToLogic :: "protocol \<Rightarrow> 'w iface \<Rightarrow> i32 \<Rightarrow> wire \<Rightarrow> 'w \<Rightarrow> 'w served" where
  "process_AccessToLogic P F =
     process_call P (ascii ''AccessToLogic'') (AccessToLogic_args_read P 0 ([], False))
       (if_AccessToLogic F \<circ> fst) (AccessToLogic_result_write P)"

definition process_LogicToAccess :: "protocol \<Rightarrow> 'w iface \<Rightarrow> i32 \<Rightarrow> wire \<Rightarrow> 'w \<Rightarrow> 'w served" where
  "process_LogicToAccess P F =
     process_call P (ascii ''LogicToAccess'') (LogicToAccess_args_read P 0 (AccessMessage_new, False))
       (if_LogicToAccess F \<circ> fst) (LogicToAccess_result_write P)"

definition processMap :: "protocol \<Rightarrow> 'w iface \<Rightarrow> (bytes \<times> (i32 \<Rightarrow> wire \<Rightarrow> 'w \<Rightarrow> 'w served)) list" where
  "processMap P F =
     [(ascii ''AccessToLogic'', process_AccessToLogic P F), (ascii ''LogicToAccess'', process_LogicToAccess P F)]"

definition dispatchCall :: "protocol \<Rightarrow> 'w iface \<Rightarrow> bytes \<Rightarrow> i32 \<Rightarrow> wire \<Rightarrow> 'w \<Rightarrow> 'w served" where
  "dispatchCall P F fname seqid s w =
     (case map_of (processMap P F) fname of
        None \<Rightarrow> Some (Ret (after_write (bindT (discard P s) (\<lambda>_ s.
          write_exception P fname seqid (ascii ''Invalid method name: '' @ ascii [CHR 0x27] @ fname @ ascii [CHR 0x27]) s)), w))
      | Some pfn \<Rightarrow> pfn seqid s w)"

end
