(* ===== verification/ThriftFacts.thy ===== *)
theory ThriftFacts
  imports Thrift
begin

text \<open>
  What the generated code relies on from the Thrift library, as the interface
  \<open>thrift_protocol\<close> (what was written is read back, and an unwanted value is skipped whole),
  and what follows for the structs and for the two calls. The interface is interpreted
  in \<open>BinaryProtocol\<close> on the documented encoding of \<open>TBinaryProtocol\<close>.
\<close>

declare writes.simps [simp del]

section \<open>Reading and writing\<close>

definition reads :: "(wire \<Rightarrow> 'a io option) \<Rightarrow> bytes \<Rightarrow> 'a \<Rightarrow> bool" where
  "reads f v x \<longleftrightarrow> (\<forall>s r. unread s = v @ r \<longrightarrow> (\<exists>n. f s = Some (Inr (x, n, s\<lparr>unread := r\<rparr>))))"

definition emits :: "(wire \<Rightarrow> unit io) \<Rightarrow> bytes \<Rightarrow> bool" where
  "emits f v \<longleftrightarrow> (\<forall>s. \<exists>n. f s = Inr ((), n, s\<lparr>written := written s @ v\<rparr>))"

lemma readsI:
  assumes "\<And>s r. unread s = v @ r \<Longrightarrow> \<exists>n. f s = Some (Inr (x, n, s\<lparr>unread := r\<rparr>))"
  shows "reads f v x"
  using assms by (simp add: reads_def)

lemma readsE:
  assumes "reads f v x" "unread s = v @ r"
  obtains n where "f s = Some (Inr (x, n, s\<lparr>unread := r\<rparr>))"
  using assms by (auto simp: reads_def)

lemma emitsE:
  assumes "emits f v"
  obtains n where "f s = Inr ((), n, s\<lparr>written := written s @ v\<rparr>)"
  using assms by (auto simp: emits_def)

lemma counted_zero [simp]: "counted 0 = id"
proof
  show "counted 0 r = id r" for r :: "'a io" by (cases r) auto
qed

lemma bindO_zero [simp]: "bindO (Some (Inr (a, 0, s))) f = f a s"
  by (simp add: option.map_id)

declare bindO.simps(3) [simp del]

lemma reads_return: "reads (\<lambda>s. Some (Inr (x, 0, s))) [] x"
  by (rule readsI) simp

lemma reads_bindO:
  assumes "reads f v x" "reads (g x) v' y"
  shows "reads (\<lambda>s. bindO (f s) g) (v @ v') y"
proof (rule readsI)
  fix s :: wire and r assume s: "unread s = (v @ v') @ r"
  then obtain n where n: "f s = Some (Inr (x, n, s\<lparr>unread := v' @ r\<rparr>))"
    using assms(1) by (auto elim: readsE)
  obtain k where "g x (s\<lparr>unread := v' @ r\<rparr>) = Some (Inr (y, k, s\<lparr>unread := r\<rparr>))"
    using assms(2) by (rule readsE [where s = "s\<lparr>unread := v' @ r\<rparr>" and r = r]) auto
  with n show "\<exists>n. bindO (f s) g = Some (Inr (y, n, s\<lparr>unread := r\<rparr>))"
    by (auto simp: bindO.simps(3))
qed

lemma reads_bindO_last: "reads f v x \<Longrightarrow> reads (g x) [] y \<Longrightarrow> reads (\<lambda>s. bindO (f s) g) v y"
  using reads_bindO [of f v x g "[]" y] by simp

lemma reads_bindT:
  assumes "reads (\<lambda>s. Some (f s)) v x" "reads (\<lambda>s. Some (g x s)) v' y"
  shows "reads (\<lambda>s. Some (bindT (f s) g)) (v @ v') y"
proof -
  have "Some (bindT (f s) g) = bindO (Some (f s)) (\<lambda>a s. Some (g a s))" for s
    by (cases "f s") (auto simp: bindO.simps(3))
  with reads_bindO [where f = "\<lambda>s. Some (f s)" and g = "\<lambda>a s. Some (g a s)", OF assms] show ?thesis by simp
qed

lemma reads_into: "reads (\<lambda>s. Some (f s)) v x \<Longrightarrow> reads (\<lambda>s. Some (into h (f s))) v (h x)"
  unfolding into_def using reads_bindT [of f v x "\<lambda>v s. Inr (h v, 0, s)" "[]" "h x"]
  by (simp add: reads_return)

lemma reads_map_into: "reads f v x \<Longrightarrow> reads (\<lambda>s. map_option (into h) (f s)) v (h x)"
  unfolding reads_def into_def by fastforce

lemma reads_skipped: "reads (\<lambda>s. Some (skip_value P t s)) v () \<Longrightarrow> reads (\<lambda>s. Some (skipped P t m s)) v m"
  unfolding skipped_def using reads_bindT [of "skip_value P t" v "()" "\<lambda>_ s. Inr (m, 0, s)" "[]" m]
  by (simp add: reads_return)

lemma emits_bindT:
  assumes "emits f v" "emits (g ()) v'"
  shows "emits (\<lambda>s. bindT (f s) g) (v @ v')"
  unfolding emits_def
proof
  fix s
  obtain n where n: "f s = Inr ((), n, s\<lparr>written := written s @ v\<rparr>)" using assms(1) by (rule emitsE)
  obtain k where "g () (s\<lparr>written := written s @ v\<rparr>) = Inr ((), k, s\<lparr>written := written s @ v @ v'\<rparr>)"
    using assms(2) by (rule emitsE [where s = "s\<lparr>written := written s @ v\<rparr>"]) simp
  with n show "\<exists>n. bindT (f s) g = Inr ((), n, s\<lparr>written := written s @ v @ v'\<rparr>)" by simp
qed

lemma emits_Nil: "emits (\<lambda>s. Inr ((), 0, s)) []"
  by (simp add: emits_def)

section \<open>The loop over the fields\<close>

lemma reads_fields_stop:
  assumes "reads (\<lambda>s. Some (read_field_begin P s)) v (T_STOP, k)"
  shows "reads (read_fields P field m) v m"
proof (rule readsI)
  fix s :: wire and r assume "unread s = v @ r"
  then obtain n where "Some (read_field_begin P s) = Some (Inr ((T_STOP, k), n, s\<lparr>unread := r\<rparr>))"
    using assms by (auto elim: readsE)
  then show "\<exists>n. read_fields P field m s = Some (Inr (m, n, s\<lparr>unread := r\<rparr>))"
    by (subst read_fields.simps) simp
qed

lemma reads_fields_next:
  assumes "reads (\<lambda>s. Some (read_field_begin P s)) h (ty, k)" "ty \<noteq> T_STOP"
    and "reads (field k ty m) v m'"
    and "reads (\<lambda>s. Some (read_mark P FieldEnd s)) e ()"
    and "reads (read_fields P field m') vs x"
  shows "reads (read_fields P field m) (h @ v @ e @ vs) x"
proof (rule readsI)
  fix s :: wire and r assume s: "unread s = (h @ v @ e @ vs) @ r"
  obtain n1 where n1: "Some (read_field_begin P s) = Some (Inr ((ty, k), n1, s\<lparr>unread := v @ e @ vs @ r\<rparr>))"
    using assms(1) by (rule readsE [where s = s and r = "v @ e @ vs @ r"]) (use s in auto)
  obtain n2 where n2: "field k ty m (s\<lparr>unread := v @ e @ vs @ r\<rparr>) = Some (Inr (m', n2, s\<lparr>unread := e @ vs @ r\<rparr>))"
    using assms(3) by (rule readsE [where s = "s\<lparr>unread := v @ e @ vs @ r\<rparr>" and r = "e @ vs @ r"]) auto
  obtain n3 where n3: "Some (read_mark P FieldEnd (s\<lparr>unread := e @ vs @ r\<rparr>)) = Some (Inr ((), n3, s\<lparr>unread := vs @ r\<rparr>))"
    using assms(4) by (rule readsE [where s = "s\<lparr>unread := e @ vs @ r\<rparr>" and r = "vs @ r"]) auto
  obtain n4 where n4: "read_fields P field m' (s\<lparr>unread := vs @ r\<rparr>) = Some (Inr (x, n4, s\<lparr>unread := r\<rparr>))"
    using assms(5) by (rule readsE [where s = "s\<lparr>unread := vs @ r\<rparr>" and r = r]) auto
  show "\<exists>n. read_fields P field m s = Some (Inr (x, n, s\<lparr>unread := r\<rparr>))"
    using n1 n2 n3 n4 assms(2) by (subst read_fields.simps) simp
qed

lemma reads_struct:
  assumes "depth_ok P (d + 1)"
    and "reads (\<lambda>s. Some (read_mark P StructBegin s)) b ()"
    and "reads (read_fields P field m) v x"
    and "reads (\<lambda>s. Some (read_mark P StructEnd s)) e ()"
  shows "reads (read_struct P d field m) (b @ v @ e) x"
proof -
  have "reads (\<lambda>s. bindO (Some (read_mark P StructEnd s)) (\<lambda>_ s. Some (Inr (x, 0, s)))) e x"
    by (rule reads_bindO_last [OF assms(4)]) (rule reads_return)
  then have "reads (\<lambda>s. bindO (read_fields P field m s) (\<lambda>m s.
      bindO (Some (read_mark P StructEnd s)) (\<lambda>_ s. Some (Inr (m, 0, s))))) (v @ e) x"
    using assms(3) by (rule reads_bindO [rotated])
  then have "reads (\<lambda>s. bindO (Some (read_mark P StructBegin s)) (\<lambda>_ s.
      bindO (read_fields P field m s) (\<lambda>m s.
      bindO (Some (read_mark P StructEnd s)) (\<lambda>_ s. Some (Inr (m, 0, s)))))) (b @ v @ e) x"
    using assms(2) by (rule reads_bindO [rotated])
  moreover have "read_struct P d field m = (\<lambda>s. bindO (Some (read_mark P StructBegin s)) (\<lambda>_ s.
      bindO (read_fields P field m s) (\<lambda>m s.
      bindO (Some (read_mark P StructEnd s)) (\<lambda>_ s. Some (Inr (m, 0, s))))))"
    using assms(1) by (simp add: fun_eq_iff read_struct_def tracked_def)
  ultimately show ?thesis by (simp only:)
qed

section \<open>The interface\<close>

text \<open>What fits the wire: numbers of 32 bits and strings whose length is one.\<close>

definition short :: "bytes \<Rightarrow> bool" where
  "short b \<longleftrightarrow> length b < 2 ^ 31"

fun fits :: "item \<Rightarrow> bool" where
  "fits (MessageBegin nm t k) \<longleftrightarrow> short nm \<and> in32 k"
| "fits (FieldBegin nm ty k) \<longleftrightarrow> ty \<in> {T_I32, T_STRING, T_STRUCT} \<and> 0 \<le> k \<and> k < 0x8000"
| "fits (I32 v) \<longleftrightarrow> in32 v"
| "fits (Str b) \<longleftrightarrow> short b"
| "fits (AppException b) \<longleftrightarrow> short b"
| "fits _ \<longleftrightarrow> True"

text \<open>The values without structure, and their types.\<close>

fun type_of :: "item \<Rightarrow> ttype" where
  "type_of (I32 v) = T_I32"
| "type_of _ = T_STRING"

fun flat :: "item \<Rightarrow> bool" where
  "flat (I32 v) = in32 v"
| "flat (Str b) = short b"
| "flat _ = False"

text \<open>A field on the wire: its name, type and number, and the bytes of its value.\<close>

type_synonym field = "bytes \<times> ttype \<times> int \<times> bytes"

definition encs :: "(item \<Rightarrow> bytes) \<Rightarrow> item list \<Rightarrow> bytes" where
  "encs enc is = concat (map enc is)"

lemma encs_simps [simp]:
  "encs enc [] = []" "encs enc (i # is) = enc i @ encs enc is" "encs enc (is @ js) = encs enc is @ encs enc js"
  by (simp_all add: encs_def)

definition field_bytes :: "(item \<Rightarrow> bytes) \<Rightarrow> field \<Rightarrow> bytes" where
  "field_bytes enc f = (case f of (nm, ty, k, v) \<Rightarrow> enc (FieldBegin nm ty k) @ v @ enc (Mark FieldEnd))"

lemma field_bytes_simp:
  "field_bytes enc (nm, ty, k, v) = enc (FieldBegin nm ty k) @ v @ enc (Mark FieldEnd)"
  by (simp add: field_bytes_def)

definition struct_bytes :: "(item \<Rightarrow> bytes) \<Rightarrow> bytes \<Rightarrow> field list \<Rightarrow> bytes" where
  "struct_bytes enc nm fs =
     enc (StructName nm) @ (concat (map (field_bytes enc) fs) @ enc FieldStop) @ enc (Mark StructEnd)"

definition flat_field :: "(item \<Rightarrow> bytes) \<Rightarrow> bytes \<times> int \<times> item \<Rightarrow> field" where
  "flat_field enc f = (case f of (nm, k, i) \<Rightarrow> (nm, type_of i, k, enc i))"

definition numbered :: "bytes \<times> int \<times> item \<Rightarrow> bool" where
  "numbered f \<longleftrightarrow> (case f of (nm, k, i) \<Rightarrow> 0 \<le> k \<and> k < 0x8000 \<and> flat i)"

locale thrift_protocol =
  fixes P :: protocol and enc :: "item \<Rightarrow> bytes"
  assumes depth: "depth_ok P 1" "depth_ok P 2"
    and emits_item: "fits i \<Longrightarrow> emits (write_item P i) (enc i)"
    and reads_message: "fits (MessageBegin nm t k) \<Longrightarrow>
      reads (\<lambda>s. Some (read_message_begin P s)) (enc (MessageBegin nm t k)) (nm, t, k)"
    and reads_field_begin: "fits (FieldBegin nm ty k) \<Longrightarrow>
      reads (\<lambda>s. Some (read_field_begin P s)) (enc (FieldBegin nm ty k)) (ty, k)"
    and reads_stop: "\<exists>k. reads (\<lambda>s. Some (read_field_begin P s)) (enc FieldStop) (T_STOP, k)"
    and reads_i32: "in32 v \<Longrightarrow> reads (\<lambda>s. Some (read_i32 P s)) (enc (I32 v)) v"
    and reads_string: "short b \<Longrightarrow> reads (\<lambda>s. Some (read_string P s)) (enc (Str b)) b"
    and reads_exception: "short b \<Longrightarrow> reads (\<lambda>s. Some (read_app_exception P s)) (enc (AppException b)) b"
    and reads_mark: "m \<noteq> StructBegin \<Longrightarrow> reads (\<lambda>s. Some (read_mark P m s)) (enc (Mark m)) ()"
    and reads_struct_begin: "reads (\<lambda>s. Some (read_mark P StructBegin s)) (enc (StructName nm)) ()"
    and enc_Flush: "enc Flush = []"
    and skips_flat: "flat i \<Longrightarrow> reads (\<lambda>s. Some (skip_value P (type_of i) s)) (enc i) ()"
    and skips_struct: "list_all numbered fs \<Longrightarrow>
      reads (\<lambda>s. Some (skip_value P T_STRUCT s)) (struct_bytes enc nm (map (flat_field enc) fs)) ()"
begin

lemma emits_writes: "list_all fits is \<Longrightarrow> emits (writes P is) (encs enc is)"
proof (induction "is")
  case Nil
  then show ?case by (simp add: emits_def writes.simps)
next
  case (Cons i "is")
  then show ?case
    using emits_bindT [of "write_item P i" "enc i" "\<lambda>_. writes P is"] emits_item
    by (simp add: writes.simps)
qed

text \<open>A struct is read field by field, whatever the fields, their order and their number.\<close>

lemma reads_fields:
  assumes "\<And>f m nm ty k v. f \<in> set fs \<Longrightarrow> onwire f = (nm, ty, k, v) \<Longrightarrow>
      fits (FieldBegin nm ty k) \<and> reads (field k ty m) v (g f m)"
  shows "reads (read_fields P field m) (concat (map (field_bytes enc) (map onwire fs)) @ enc FieldStop)
    (fold g fs m)"
  using assms
proof (induction fs arbitrary: m)
  case Nil
  obtain k where "reads (\<lambda>s. Some (read_field_begin P s)) (enc FieldStop) (T_STOP, k)" using reads_stop ..
  then show ?case using reads_fields_stop by simp
next
  case (Cons f fs)
  obtain nm ty k v where f: "onwire f = (nm, ty, k, v)" by (cases "onwire f") auto
  have ok: "fits (FieldBegin nm ty k)" "reads (field k ty m) v (g f m)"
    using Cons.prems [OF _ f] by auto
  have "reads (read_fields P field m)
      (enc (FieldBegin nm ty k) @ v @ enc (Mark FieldEnd) @
       (concat (map (field_bytes enc) (map onwire fs)) @ enc FieldStop))
      (fold g fs (g f m))"
  proof (rule reads_fields_next [where ty = ty and k = k and m' = "g f m"])
    show "reads (\<lambda>s. Some (read_mark P FieldEnd s)) (enc (Mark FieldEnd)) ()"
      by (rule reads_mark) simp
    show "reads (read_fields P field (g f m)) (concat (map (field_bytes enc) (map onwire fs)) @ enc FieldStop)
        (fold g fs (g f m))"
      by (rule Cons.IH) (rule Cons.prems, auto)
  qed (use ok reads_field_begin in auto)
  then show ?case by (simp add: f field_bytes_simp)
qed

lemma reads_whole_struct:
  assumes "depth_ok P (d + 1)"
    and "\<And>f m nm ty k v. f \<in> set fs \<Longrightarrow> onwire f = (nm, ty, k, v) \<Longrightarrow>
      fits (FieldBegin nm ty k) \<and> reads (field k ty m) v (g f m)"
  shows "reads (read_struct P d field m) (struct_bytes enc nm (map onwire fs)) (fold g fs m)"
  unfolding struct_bytes_def
  by (intro reads_struct assms(1) reads_struct_begin reads_mark reads_fields assms(2)) simp_all

end

section \<open>\<open>AccessMessage\<close> on the wire\<close>

text \<open>What one field does to the object: the known ones set it, the others leave it.\<close>

fun put_field :: "int \<Rightarrow> item \<Rightarrow> access_object \<Rightarrow> access_object" where
  "put_field k (I32 v) (m, i) =
     (if k = 1 then (m\<lparr>am_uid := v\<rparr>, i\<lparr>isset_uid := True\<rparr>)
      else if k = 2 then (m\<lparr>am_sate_id := v\<rparr>, i\<lparr>isset_sate_id := True\<rparr>)
      else if k = 3 then (m\<lparr>am_beam_id := v\<rparr>, i\<lparr>isset_beam_id := True\<rparr>)
      else if k = 4 then (m\<lparr>am_level := v\<rparr>, i\<lparr>isset_level := True\<rparr>)
      else (m, i))"
| "put_field k (Str b) (m, i) =
     (if k = 5 then (m\<lparr>am_content := b\<rparr>, i\<lparr>isset_content := True\<rparr>) else (m, i))"
| "put_field k x mi = mi"

definition all_set :: AccessMessage_isset where
  "all_set = \<lparr>isset_uid = True, isset_sate_id = True, isset_beam_id = True, isset_level = True,
     isset_content = True\<rparr>"

definition fits_message :: "AccessMessage \<Rightarrow> bool" where
  "fits_message m \<longleftrightarrow> in32 (am_uid m) \<and> in32 (am_sate_id m) \<and> in32 (am_beam_id m) \<and>
     in32 (am_level m) \<and> short (am_content m)"

definition message_fields :: "AccessMessage \<Rightarrow> (bytes \<times> int \<times> item) list" where
  "message_fields m =
     [(ascii ''uid'', 1, I32 (am_uid m)), (ascii ''sate_id'', 2, I32 (am_sate_id m)),
      (ascii ''beam_id'', 3, I32 (am_beam_id m)), (ascii ''level'', 4, I32 (am_level m)),
      (ascii ''content'', 5, Str (am_content m))]"

definition message_bytes :: "(item \<Rightarrow> bytes) \<Rightarrow> AccessMessage \<Rightarrow> bytes" where
  "message_bytes enc m = struct_bytes enc (ascii ''AccessMessage'') (map (flat_field enc) (message_fields m))"

lemma message_items: "encs enc (AccessMessage_items m) = message_bytes enc m"
  by (simp add: AccessMessage_items_def message_bytes_def struct_bytes_def message_fields_def
      flat_field_def field_bytes_simp)

lemma message_fields_fit: "fits_message m \<Longrightarrow> list_all numbered (message_fields m)"
  by (simp add: message_fields_def fits_message_def numbered_def)

lemma short_ascii [simp]: "length s < 2 ^ 31 \<Longrightarrow> short (ascii s)"
  by (simp add: short_def ascii_def)

lemma fold_message_fields: "fold (\<lambda>(nm, k, i). put_field k i) (message_fields m) (m0, i0) = (m, all_set)"
  by (simp add: message_fields_def all_set_def)

context thrift_protocol
begin

lemma reads_flat:
  assumes "flat i"
  shows "i = I32 v \<Longrightarrow> reads (\<lambda>s. Some (read_i32 P s)) (enc i) v"
    and "i = Str b \<Longrightarrow> reads (\<lambda>s. Some (read_string P s)) (enc i) b"
    and "reads (\<lambda>s. Some (skip_value P (type_of i) s)) (enc i) ()"
  using assms reads_i32 reads_string skips_flat by auto

lemma AccessMessage_field_reads:
  assumes "flat i"
  shows "reads (AccessMessage_field P k (type_of i) m) (enc i) (put_field k i m)"
proof (cases m)
  case (Pair a b)
  have skip: "reads (\<lambda>s. Some (skipped P (type_of i) (a, b) s)) (enc i) (a, b)"
    by (rule reads_skipped) (rule reads_flat(3) [OF assms])
  show ?thesis
  proof (cases i)
    case (I32 v)
    have set: "reads (\<lambda>s. Some (into h (read_i32 P s))) (enc i) (h v)" for h :: "i32 \<Rightarrow> access_object"
      by (rule reads_into) (rule reads_flat(1) [OF assms I32])
    note sets = set [of "\<lambda>v. (a\<lparr>am_uid := v\<rparr>, b\<lparr>isset_uid := True\<rparr>)"]
      set [of "\<lambda>v. (a\<lparr>am_sate_id := v\<rparr>, b\<lparr>isset_sate_id := True\<rparr>)"]
      set [of "\<lambda>v. (a\<lparr>am_beam_id := v\<rparr>, b\<lparr>isset_beam_id := True\<rparr>)"]
      set [of "\<lambda>v. (a\<lparr>am_level := v\<rparr>, b\<lparr>isset_level := True\<rparr>)"] skip
    consider "k = 1" | "k = 2" | "k = 3" | "k = 4" | "k = 5"
      | "k \<noteq> 1" "k \<noteq> 2" "k \<noteq> 3" "k \<noteq> 4" "k \<noteq> 5" by blast
    then show ?thesis
      using sets by cases (simp_all add: Pair AccessMessage_field_def I32)
  next
    case (Str c)
    have set: "reads (\<lambda>s. Some (into h (read_string P s))) (enc i) (h c)" for h :: "bytes \<Rightarrow> access_object"
      by (rule reads_into) (rule reads_flat(2) [OF assms Str])
    show ?thesis
      using skip set [of "\<lambda>v. (a\<lparr>am_content := v\<rparr>, b\<lparr>isset_content := True\<rparr>)"]
      by (auto simp: Pair AccessMessage_field_def Str cong: if_cong)
  qed (use assms in auto)
qed

text \<open>
  \<open>read\<close> takes the fields in any order and skips those it does not know, by number or type.
\<close>

lemma AccessMessage_reads_fields:
  assumes "depth_ok P (d + 1)" "list_all numbered fs"
  shows "reads (AccessMessage_read P d m) (struct_bytes enc nm (map (flat_field enc) fs))
    (fold (\<lambda>(nm, k, i). put_field k i) fs m)"
  unfolding AccessMessage_read_def
proof (rule reads_whole_struct [where onwire = "flat_field enc", OF assms(1)])
  fix f m nm ty k v assume f: "f \<in> set fs" "flat_field enc f = (nm, ty, k, v)"
  then obtain i where i: "f = (nm, k, i)" "ty = type_of i" "v = enc i"
    by (auto simp: flat_field_def split: prod.splits)
  with f assms(2) have "0 \<le> k" "k < 0x8000" "flat i" by (auto simp: list_all_iff numbered_def)
  then show "fits (FieldBegin nm ty k) \<and>
      reads (AccessMessage_field P k ty m) v ((case f of (nm, k, i) \<Rightarrow> put_field k i) m)"
    using AccessMessage_field_reads [of i k m] i by (cases i) simp_all
qed

end

section \<open>The two calls on the wire\<close>

definition request_bytes :: "(item \<Rightarrow> bytes) \<Rightarrow> bytes \<Rightarrow> bytes \<Rightarrow> bytes" where
  "request_bytes enc nm request = struct_bytes enc nm [(ascii ''request'', T_STRING, 1, enc (Str request))]"

definition response_bytes :: "(item \<Rightarrow> bytes) \<Rightarrow> bytes \<Rightarrow> AccessMessage \<Rightarrow> bytes" where
  "response_bytes enc nm m = struct_bytes enc nm [(ascii ''response'', T_STRUCT, 1, message_bytes enc m)]"

text \<open>A message around the bytes of a struct.\<close>

definition call_bytes :: "(item \<Rightarrow> bytes) \<Rightarrow> bytes \<Rightarrow> mtype \<Rightarrow> i32 \<Rightarrow> bytes \<Rightarrow> bytes" where
  "call_bytes enc fname t seqid body =
     enc (MessageBegin fname t seqid) @ body @ enc (Mark MessageEnd) @ enc (Mark TransportEnd)"

context thrift_protocol
begin

lemma depths [simp]: "depth_ok P (Suc 0)" "depth_ok P (Suc (Suc 0))"
  using depth by (simp_all add: numeral_2_eq_2)

lemma AccessMessage_reads:
  "depth_ok P (d + 1) \<Longrightarrow> fits_message m \<Longrightarrow>
   reads (AccessMessage_read P d mi) (message_bytes enc m) (m, all_set)"
  using AccessMessage_reads_fields [OF _ message_fields_fit [of m], of d mi "ascii ''AccessMessage''"]
  by (cases mi) (simp add: message_bytes_def fold_message_fields)

lemma AccessMessage_emits:
  "depth_ok P (d + 1) \<Longrightarrow> fits_message (fst mi) \<Longrightarrow>
   emits (AccessMessage_write P d mi) (message_bytes enc (fst mi))"
proof -
  assume ok: "depth_ok P (d + 1)" "fits_message (fst mi)"
  have "list_all fits (AccessMessage_items (fst mi))"
    using ok(2) by (simp add: AccessMessage_items_def fits_message_def)
  moreover have "AccessMessage_write P d mi = writes P (AccessMessage_items (fst mi))"
    using ok(1) by (simp add: fun_eq_iff AccessMessage_write_def)
  ultimately show ?thesis using emits_writes [of "AccessMessage_items (fst mi)"] by (simp add: message_items)
qed

lemma AccessToLogic_args_reads:
  assumes "short request"
  shows "reads (AccessToLogic_args_read P 0 args) (request_bytes enc nm request) (request, True)"
proof -
  have field: "reads (AccessToLogic_args_field P 1 T_STRING m) (enc (Str request)) (request, True)" for m
  proof -
    have "reads (\<lambda>s. Some (into (\<lambda>v. (v, True)) (read_string P s))) (enc (Str request)) (request, True)"
      by (rule reads_into) (rule reads_string [OF assms])
    then show ?thesis by (simp add: AccessToLogic_args_field_def [abs_def])
  qed
  let ?f = "(ascii ''request'', T_STRING, 1 :: int, enc (Str request))"
  have "reads (read_struct P 0 (AccessToLogic_args_field P) args) (struct_bytes enc nm (map id [?f]))
      (fold (\<lambda>f m. (request, True)) [?f] args)"
    by (rule reads_whole_struct) (use depth field in auto)
  then show ?thesis by (simp add: AccessToLogic_args_read_def request_bytes_def)
qed

lemma LogicToAccess_args_reads:
  assumes "fits_message m"
  shows "reads (LogicToAccess_args_read P 0 args) (response_bytes enc nm m) ((m, all_set), True)"
proof -
  have field: "reads (LogicToAccess_args_field P 0 1 T_STRUCT mi) (message_bytes enc m) ((m, all_set), True)" for mi
  proof -
    have "reads (\<lambda>s. map_option (into (\<lambda>v. (v, True))) (AccessMessage_read P (0 + 1) (fst mi) s))
        (message_bytes enc m) ((m, all_set), True)"
      by (rule reads_map_into) (rule AccessMessage_reads [OF _ assms], use depth in simp)
    then show ?thesis by (simp add: LogicToAccess_args_field_def [abs_def])
  qed
  let ?f = "(ascii ''response'', T_STRUCT, 1 :: int, message_bytes enc m)"
  have "reads (read_struct P 0 (LogicToAccess_args_field P 0) args) (struct_bytes enc nm (map id [?f]))
      (fold (\<lambda>f a. ((m, all_set), True)) [?f] args)"
    by (rule reads_whole_struct) (use depth field in auto)
  then show ?thesis by (simp add: LogicToAccess_args_read_def response_bytes_def)
qed

lemma result_reads: "reads (read_struct P 0 (result_field P) ()) (struct_bytes enc nm []) ()"
proof -
  have "reads (read_struct P 0 (result_field P) ()) (struct_bytes enc nm (map id ([] :: field list)))
      (fold (\<lambda>f m. m) ([] :: field list) ())"
    by (rule reads_whole_struct) simp_all
  then show ?thesis by simp
qed

lemma AccessToLogic_pargs_emits:
  assumes "short request"
  shows "emits (AccessToLogic_pargs_write P 0 request)
    (request_bytes enc (ascii ''LogicInterface_AccessToLogic_pargs'') request)"
proof -
  let ?is = "[StructName (ascii ''LogicInterface_AccessToLogic_pargs''),
    FieldBegin (ascii ''request'') T_STRING 1, Str request, Mark FieldEnd, FieldStop, Mark StructEnd]"
  have "AccessToLogic_pargs_write P 0 request = writes P ?is"
    using depth by (simp only: fun_eq_iff AccessToLogic_pargs_write_def) simp
  moreover have "emits (writes P ?is) (encs enc ?is)" by (rule emits_writes) (use assms in simp)
  ultimately show ?thesis by (simp only:) (simp add: request_bytes_def struct_bytes_def field_bytes_simp)
qed

lemma LogicToAccess_pargs_emits:
  assumes "fits_message (fst mi)"
  shows "emits (LogicToAccess_pargs_write P 0 mi)
    (response_bytes enc (ascii ''LogicInterface_LogicToAccess_pargs'') (fst mi))"
proof -
  let ?a = "[StructName (ascii ''LogicInterface_LogicToAccess_pargs''), FieldBegin (ascii ''response'') T_STRUCT 1]"
  let ?b = "[Mark FieldEnd, FieldStop, Mark StructEnd]"
  have "emits (\<lambda>s. bindT (writes P ?a s) (\<lambda>_ s. bindT (AccessMessage_write P (0 + 1) mi s) (\<lambda>_ s. writes P ?b s)))
      (encs enc ?a @ message_bytes enc (fst mi) @ encs enc ?b)"
    by (intro emits_bindT emits_writes AccessMessage_emits assms) (use depth in simp_all)
  then show ?thesis
    using depth
    by (simp add: LogicToAccess_pargs_write_def [abs_def] response_bytes_def struct_bytes_def field_bytes_simp)
qed

text \<open>A message is written around its struct, and read back in the same pieces.\<close>

lemma emits_message:
  assumes "short fname" "in32 seqid" "emits body b"
  shows "emits (\<lambda>s. bindT (write_item P (MessageBegin fname t seqid) s) (\<lambda>_ s.
      bindT (body s) (\<lambda>_ s. writes P [Mark MessageEnd, Mark TransportEnd, Flush] s)))
    (call_bytes enc fname t seqid b)"
proof -
  have "emits (\<lambda>s. bindT (write_item P (MessageBegin fname t seqid) s) (\<lambda>_ s.
      bindT (body s) (\<lambda>_ s. writes P [Mark MessageEnd, Mark TransportEnd, Flush] s)))
    (enc (MessageBegin fname t seqid) @ b @ encs enc [Mark MessageEnd, Mark TransportEnd, Flush])"
    by (intro emits_bindT emits_item emits_writes assms) (use assms in simp_all)
  then show ?thesis by (simp add: call_bytes_def enc_Flush)
qed

lemma reads_end: "reads (\<lambda>s. Some (read_end P s)) (enc (Mark MessageEnd) @ enc (Mark TransportEnd)) ()"
  unfolding read_end_def
  by (rule reads_bindT [where f = "read_mark P MessageEnd" and x = "()"]; rule reads_mark) simp_all

end

section \<open>Serving a call and reading its answer\<close>

text \<open>What the server answers, by what the handler did.\<close>

definition answer_bytes :: "(item \<Rightarrow> bytes) \<Rightarrow> bytes \<Rightarrow> i32 \<Rightarrow> bytes \<Rightarrow> bytes option \<Rightarrow> bytes" where
  "answer_bytes enc called seqid result thrown =
     (case thrown of
        None \<Rightarrow> call_bytes enc called T_REPLY seqid result
      | Some what \<Rightarrow> call_bytes enc called T_EXCEPTION seqid (enc (AppException what)))"

text \<open>
  The bytes \<open>call\<close> are one whole call, for which the server runs the handler from \<open>w\<close> to \<open>w'\<close>
  and answers \<open>reply\<close>.
\<close>

definition serves :: "protocol \<Rightarrow> 'w iface \<Rightarrow> bytes \<Rightarrow> 'w \<Rightarrow> bytes \<Rightarrow> 'w \<Rightarrow> bool" where
  "serves P F call w reply w' \<longleftrightarrow>
     (\<forall>s r. unread s = call @ r \<longrightarrow> (\<exists>fname seqid n t.
        read_message_begin P s = Inr ((fname, T_CALL, seqid), n, t) \<and>
        dispatchCall P F fname seqid t w =
          Some (Ret (Inr (s\<lparr>unread := r, written := written s @ reply\<rparr>), w'))))"

context thrift_protocol
begin

lemma emits_exception:
  assumes "short fname" "in32 seqid" "short what"
  shows "emits (write_exception P fname seqid what)
    (call_bytes enc fname T_EXCEPTION seqid (enc (AppException what)))"
proof -
  let ?is = "[MessageBegin fname T_EXCEPTION seqid, AppException what, Mark MessageEnd, Mark TransportEnd, Flush]"
  have "emits (writes P ?is) (encs enc ?is)" by (rule emits_writes) (use assms in simp)
  moreover have "write_exception P fname seqid what = writes P ?is" by (simp add: fun_eq_iff write_exception_def)
  ultimately show ?thesis by (simp add: call_bytes_def enc_Flush)
qed

lemma after_write_emits: "emits f v \<Longrightarrow> after_write (f s) = Inr (s\<lparr>written := written s @ v\<rparr>)"
  by (auto simp: after_write_def elim!: emitsE [of f v s])

lemma process_call_answers:
  assumes args: "reads args_read body args" and s: "unread s = body @ enc (Mark MessageEnd) @ enc (Mark TransportEnd) @ r"
    and handler: "handler args w = Ret (thrown, w')" "pred_option short thrown"
    and result: "emits result_write result" and called: "short called" "in32 seqid"
  shows "process_call P called args_read handler result_write seqid s w =
    Some (Ret (Inr (s\<lparr>unread := r, written := written s @ answer_bytes enc called seqid result thrown\<rparr>), w'))"
proof -
  have "reads (\<lambda>s. bindO (args_read s) (\<lambda>args s. bindO (Some (read_end P s)) (\<lambda>_ s. Some (Inr (args, 0, s)))))
      (body @ enc (Mark MessageEnd) @ enc (Mark TransportEnd)) args"
    by (rule reads_bindO [OF args]) (rule reads_bindO_last [OF reads_end reads_return])
  then obtain n where read: "bindO (args_read s) (\<lambda>args s. bindO (Some (read_end P s)) (\<lambda>_ s. Some (Inr (args, 0, s)))) =
      Some (Inr (args, n, s\<lparr>unread := r\<rparr>))"
    by (rule readsE [where s = s and r = r]) (use s in auto)
  let ?t = "s\<lparr>unread := r\<rparr>"
  show ?thesis
  proof (cases thrown)
    case None
    from after_write_emits [OF emits_message [OF called result], of T_REPLY ?t] None read handler(1) show ?thesis
      by (simp add: process_call_def answer_bytes_def)
  next
    case (Some what)
    with handler(2) have "short what" by simp
    from after_write_emits [OF emits_exception [OF called this], of ?t] Some read handler(1) show ?thesis
      by (simp add: process_call_def answer_bytes_def)
  qed
qed

lemma recv_reply_reads:
  assumes "short called" "in32 k" "reads presult_read result ()"
  shows "reads (recv_reply P called presult_read) (call_bytes enc called T_REPLY k result) ()"
proof -
  have "reads (\<lambda>s. bindO (presult_read s) (\<lambda>_ s. Some (read_end P s)))
      (result @ enc (Mark MessageEnd) @ enc (Mark TransportEnd)) ()"
    by (rule reads_bindO [OF assms(3) reads_end])
  then have "reads (\<lambda>s. bindO (Some (read_message_begin P s)) (\<lambda>(fname, mtype, rseqid) s.
      if mtype = T_EXCEPTION
      then bindO (Some (read_app_exception P s)) (\<lambda>x s.
           bindO (Some (read_end P s)) (\<lambda>_ s. Some (Inl (ApplicationError x))))
      else
        bindO (Some (if mtype \<noteq> T_REPLY then discard P s else Inr ((), 0, s))) (\<lambda>_ s.
        bindO (Some (if fname \<noteq> called then discard P s else Inr ((), 0, s))) (\<lambda>_ s.
        bindO (presult_read s) (\<lambda>_ s. Some (read_end P s))))))
      (enc (MessageBegin called T_REPLY k) @ result @ enc (Mark MessageEnd) @ enc (Mark TransportEnd)) ()"
    by (intro reads_bindO [OF reads_message]) (use assms in \<open>auto simp: reads_def\<close>)
  then show ?thesis by (simp add: recv_reply_def [abs_def] call_bytes_def)
qed

lemma recv_reply_throws:
  assumes "short fname" "in32 k" "short what"
    and "unread s = call_bytes enc fname T_EXCEPTION k (enc (AppException what)) @ r"
  shows "recv_reply P called presult_read s = Some (Inl (ApplicationError what))"
proof -
  let ?e = "enc (Mark MessageEnd) @ enc (Mark TransportEnd) @ r"
  have "fits (MessageBegin fname T_EXCEPTION k)" using assms by simp
  from reads_message [OF this] obtain n where
    1: "Some (read_message_begin P s) = Some (Inr ((fname, T_EXCEPTION, k), n, s\<lparr>unread := enc (AppException what) @ ?e\<rparr>))"
    by (rule readsE [where s = s and r = "enc (AppException what) @ ?e"]) (use assms in \<open>auto simp: call_bytes_def\<close>)
  from reads_exception [OF assms(3)] obtain m where
    2: "Some (read_app_exception P (s\<lparr>unread := enc (AppException what) @ ?e\<rparr>)) = Some (Inr (what, m, s\<lparr>unread := ?e\<rparr>))"
    by (rule readsE [where s = "s\<lparr>unread := enc (AppException what) @ ?e\<rparr>" and r = ?e]) auto
  from reads_end obtain j where 3: "Some (read_end P (s\<lparr>unread := ?e\<rparr>)) = Some (Inr ((), j, s\<lparr>unread := r\<rparr>))"
    by (rule readsE [where s = "s\<lparr>unread := ?e\<rparr>" and r = r]) auto
  from 1 2 3 show ?thesis by (simp add: recv_reply_def bindO.simps(3))
qed

end

section \<open>A call from end to end\<close>

text \<open>What the client of a call sees, by what the handler did.\<close>

definition client_sees :: "(wire \<Rightarrow> unit io option) \<Rightarrow> bytes \<Rightarrow> bytes option \<Rightarrow> bool" where
  "client_sees recv reply thrown \<longleftrightarrow>
     (case thrown of
        None \<Rightarrow> reads recv reply ()
      | Some what \<Rightarrow> (\<forall>s r. unread s = reply @ r \<longrightarrow> recv s = Some (Inl (ApplicationError what))))"

lemma method_names:
  "ascii ''LogicToAccess'' \<noteq> ascii ''AccessToLogic''" "ascii ''AccessToLogic'' \<noteq> ascii ''LogicToAccess''"
  by (simp_all add: ascii_def)

context thrift_protocol
begin

lemma recv_client_sees:
  assumes "short called" "in32 k" "pred_option short thrown" "reads presult_read result ()"
  shows "client_sees (recv_reply P called presult_read) (answer_bytes enc called k result thrown) thrown"
  using assms recv_reply_reads recv_reply_throws
  by (cases thrown) (auto simp: client_sees_def answer_bytes_def)

lemma call_served:
  assumes call: "call = call_bytes enc called T_CALL k body" "short called" "in32 k"
    and pfn: "map_of (processMap P F) called = Some (process_call P called args_read handler result_write)"
    and parts: "reads args_read body args" "emits result_write result"
    and run: "handler args w = Ret (thrown, w')" "pred_option short thrown"
  shows "serves P F call w (answer_bytes enc called k result thrown) w'"
  unfolding serves_def
proof (intro allI impI)
  fix s :: wire and r assume s: "unread s = call @ r"
  let ?rest = "body @ enc (Mark MessageEnd) @ enc (Mark TransportEnd) @ r"
  have "fits (MessageBegin called T_CALL k)" using call by simp
  from reads_message [OF this] obtain n where
    n: "Some (read_message_begin P s) = Some (Inr ((called, T_CALL, k), n, s\<lparr>unread := ?rest\<rparr>))"
    by (rule readsE [where s = s and r = ?rest]) (use s call in \<open>auto simp: call_bytes_def\<close>)
  have "process_call P called args_read handler result_write k (s\<lparr>unread := ?rest\<rparr>) w =
      Some (Ret (Inr (s\<lparr>unread := ?rest\<rparr>\<lparr>unread := r, written := written (s\<lparr>unread := ?rest\<rparr>) @
        answer_bytes enc called k result thrown\<rparr>), w'))"
    by (rule process_call_answers [where args = args and body = body and result = result])
      (simp_all add: parts run call)
  then have "dispatchCall P F called k (s\<lparr>unread := ?rest\<rparr>) w =
      Some (Ret (Inr (s\<lparr>unread := r, written := written s @ answer_bytes enc called k result thrown\<rparr>), w'))"
    by (simp add: dispatchCall_def pfn)
  with n show "\<exists>fname seqid n t. read_message_begin P s = Inr ((fname, T_CALL, seqid), n, t) \<and>
      dispatchCall P F fname seqid t w =
        Some (Ret (Inr (s\<lparr>unread := r, written := written s @ answer_bytes enc called k result thrown\<rparr>), w'))"
    by blast
qed

lemma AccessToLogic_served:
  assumes "short request" "in32 k" "if_AccessToLogic F request w = Ret (thrown, w')" "pred_option short thrown"
  shows "serves P F
    (call_bytes enc (ascii ''AccessToLogic'') T_CALL k
       (request_bytes enc (ascii ''LogicInterface_AccessToLogic_pargs'') request)) w
    (answer_bytes enc (ascii ''AccessToLogic'') k
       (encs enc [StructName (ascii ''LogicInterface_AccessToLogic_result''), FieldStop, Mark StructEnd]) thrown) w'"
proof -
  let ?is = "[StructName (ascii ''LogicInterface_AccessToLogic_result''), FieldStop, Mark StructEnd]"
  have "emits (AccessToLogic_result_write P) (encs enc ?is)"
    unfolding AccessToLogic_result_write_def by (rule emits_writes) simp
  then show ?thesis
    by (intro call_served [OF refl, where args = "(request, True)" and handler = "if_AccessToLogic F \<circ> fst"
          and args_read = "AccessToLogic_args_read P 0 ([], False)"])
      (simp_all add: processMap_def process_AccessToLogic_def assms AccessToLogic_args_reads)
qed

lemma LogicToAccess_served:
  assumes "fits_message (fst m)" "in32 k" "if_LogicToAccess F (fst m, all_set) w = Ret (thrown, w')"
    "pred_option short thrown"
  shows "serves P F
    (call_bytes enc (ascii ''LogicToAccess'') T_CALL k
       (response_bytes enc (ascii ''LogicInterface_LogicToAccess_pargs'') (fst m))) w
    (answer_bytes enc (ascii ''LogicToAccess'') k
       (encs enc [StructName (ascii ''LogicInterface_LogicToAccess_result''), FieldStop, Mark StructEnd]) thrown) w'"
proof -
  let ?is = "[StructName (ascii ''LogicInterface_LogicToAccess_result''), FieldStop, Mark StructEnd]"
  have "emits (LogicToAccess_result_write P) (encs enc ?is)"
    unfolding LogicToAccess_result_write_def by (rule emits_writes) simp
  then show ?thesis
    by (intro call_served [OF refl, where args = "((fst m, all_set), True)"
          and handler = "if_LogicToAccess F \<circ> fst"
          and args_read = "LogicToAccess_args_read P 0 (AccessMessage_new, False)"])
      (simp_all add: processMap_def process_LogicToAccess_def method_names assms LogicToAccess_args_reads)
qed

lemma AccessToLogic_call:
  assumes "short request" "if_AccessToLogic F request w = Ret (thrown, w')" "pred_option short thrown"
  shows "\<exists>call reply. emits (send_AccessToLogic P request) call \<and> serves P F call w reply w' \<and>
    client_sees (recv_AccessToLogic P) reply thrown"
proof (intro exI conjI)
  let ?nm = "ascii ''AccessToLogic''"
  let ?call = "call_bytes enc ?nm T_CALL 0 (request_bytes enc (ascii ''LogicInterface_AccessToLogic_pargs'') request)"
  let ?result = "encs enc [StructName (ascii ''LogicInterface_AccessToLogic_result''), FieldStop, Mark StructEnd]"
  have z: "in32 0" by (simp add: in32_def)
  show "emits (send_AccessToLogic P request) ?call"
    unfolding send_AccessToLogic_def
    by (rule emits_message) (simp_all add: z AccessToLogic_pargs_emits assms)
  show "serves P F ?call w (answer_bytes enc ?nm 0 ?result thrown) w'"
    by (rule AccessToLogic_served [OF assms(1) z assms(2,3)])
  show "client_sees (recv_AccessToLogic P) (answer_bytes enc ?nm 0 ?result thrown) thrown"
    unfolding recv_AccessToLogic_def AccessToLogic_presult_read_def
    using result_reads [of "ascii ''LogicInterface_AccessToLogic_result''"]
    by (intro recv_client_sees assms) (simp_all add: z struct_bytes_def)
qed

lemma LogicToAccess_call:
  assumes "fits_message (fst m)" "if_LogicToAccess F (fst m, all_set) w = Ret (thrown, w')"
    "pred_option short thrown"
  shows "\<exists>call reply. emits (send_LogicToAccess P m) call \<and> serves P F call w reply w' \<and>
    client_sees (recv_LogicToAccess P) reply thrown"
proof (intro exI conjI)
  let ?nm = "ascii ''LogicToAccess''"
  let ?call = "call_bytes enc ?nm T_CALL 0 (response_bytes enc (ascii ''LogicInterface_LogicToAccess_pargs'') (fst m))"
  let ?result = "encs enc [StructName (ascii ''LogicInterface_LogicToAccess_result''), FieldStop, Mark StructEnd]"
  have z: "in32 0" by (simp add: in32_def)
  show "emits (send_LogicToAccess P m) ?call"
    unfolding send_LogicToAccess_def
    by (rule emits_message) (simp_all add: z LogicToAccess_pargs_emits assms)
  show "serves P F ?call w (answer_bytes enc ?nm 0 ?result thrown) w'"
    by (rule LogicToAccess_served [OF assms(1) z assms(2,3)])
  show "client_sees (recv_LogicToAccess P) (answer_bytes enc ?nm 0 ?result thrown) thrown"
    unfolding recv_LogicToAccess_def LogicToAccess_presult_read_def
    using result_reads [of "ascii ''LogicInterface_LogicToAccess_result''"]
    by (intro recv_client_sees assms) (simp_all add: z struct_bytes_def)
qed

text \<open>A call of a method the service does not have.\<close>

lemma unknown_method:
  assumes "fname \<noteq> ascii ''AccessToLogic''" "fname \<noteq> ascii ''LogicToAccess''" "length fname < 1000" "in32 k"
    and "list_all numbered fs"
    and "unread s = struct_bytes enc nm (map (flat_field enc) fs) @ enc (Mark MessageEnd) @ enc (Mark TransportEnd) @ r"
  shows "\<exists>what. dispatchCall P F fname k s w = Some (Ret (Inr (s\<lparr>unread := r, written := written s @
    call_bytes enc fname T_EXCEPTION k (enc (AppException what))\<rparr>), w))"
proof -
  let ?what = "ascii ''Invalid method name: '' @ ascii [CHR 0x27] @ fname @ ascii [CHR 0x27]"
  have len: "short fname" "short ?what" using assms(3) by (simp_all add: short_def ascii_def)
  have "reads (\<lambda>s. Some (discard P s))
      (struct_bytes enc nm (map (flat_field enc) fs) @ (enc (Mark MessageEnd) @ enc (Mark TransportEnd))) ()"
    unfolding discard_def by (rule reads_bindT [OF skips_struct [OF assms(5)]]) (rule reads_end)
  then obtain n where n: "Some (discard P s) = Some (Inr ((), n, s\<lparr>unread := r\<rparr>))"
    by (rule readsE [where s = s and r = r]) (use assms in auto)
  obtain j where "write_exception P fname k ?what (s\<lparr>unread := r\<rparr>) = Inr ((), j, s\<lparr>unread := r,
      written := written s @ call_bytes enc fname T_EXCEPTION k (enc (AppException ?what))\<rparr>)"
    using emits_exception [OF len(1) assms(4) len(2)] by (rule emitsE [where s = "s\<lparr>unread := r\<rparr>"]) simp
  with n assms(1,2) show ?thesis
    by (auto simp: dispatchCall_def processMap_def after_write_def)
qed

end

end
