(* ===== verification/BinaryProtocol.thy ===== *)
theory BinaryProtocol
  imports ThriftFacts
begin

text \<open>
  An instance of the Thrift library's interface: the documented encoding of \<open>TBinaryProtocol\<close>,
  which \<open>controller.cpp\<close> and \<open>send_helper.cpp\<close> choose. Numbers are big-endian, a string is its
  length and its bytes, a field is its type and its number, a struct ends with a zero
  byte, and a message starts with the version and the kind in one word. It shows that the
  interface can hold, and the witnesses run on it. A transport that ends too soon is \<open>TransportError\<close>.
\<close>

section \<open>Encoding\<close>

definition be16 :: "int \<Rightarrow> bytes" where
  "be16 k = bytes16 (htons (word_of_int k))"

definition be32 :: "int \<Rightarrow> bytes" where
  "be32 k = bytes32 (htonl (word_of_int k))"

definition be_string :: "bytes \<Rightarrow> bytes" where
  "be_string b = be32 (int (length b)) @ b"

fun ttype_code :: "ttype \<Rightarrow> u8" where
  "ttype_code T_STOP = 0"
| "ttype_code T_I32 = 8"
| "ttype_code T_STRING = 11"
| "ttype_code T_STRUCT = 12"
| "ttype_code (T_other c) = c"

definition ttype_of :: "u8 \<Rightarrow> ttype" where
  "ttype_of c = (if c = 0 then T_STOP else if c = 8 then T_I32 else if c = 11 then T_STRING
     else if c = 12 then T_STRUCT else T_other c)"

fun mtype_code :: "mtype \<Rightarrow> int" where
  "mtype_code T_CALL = 1"
| "mtype_code T_REPLY = 2"
| "mtype_code T_EXCEPTION = 3"
| "mtype_code T_ONEWAY = 4"

definition mtype_of :: "int \<Rightarrow> mtype option" where
  "mtype_of c = (if c = 1 then Some T_CALL else if c = 2 then Some T_REPLY
     else if c = 3 then Some T_EXCEPTION else if c = 4 then Some T_ONEWAY else None)"

definition version_1 :: int where "version_1 = - 0x7FFF0000"

text \<open>An exception is a struct with the message (field 1) and the kind (field 2, here 0).\<close>

fun binary_item :: "item \<Rightarrow> bytes" where
  "binary_item (MessageBegin nm t k) = be32 (version_1 + mtype_code t) @ be_string nm @ be32 k"
| "binary_item (StructName nm) = []"
| "binary_item (FieldBegin nm ty k) = ttype_code ty # be16 k"
| "binary_item FieldStop = [0]"
| "binary_item (I32 v) = be32 v"
| "binary_item (Str b) = be_string b"
| "binary_item (AppException b) =
     ttype_code T_STRING # be16 1 @ be_string b @ ttype_code T_I32 # be16 2 @ be32 0 @ [0]"
| "binary_item (Mark m) = []"
| "binary_item Flush = []"

section \<open>Decoding\<close>

definition binary_i32 :: "wire \<Rightarrow> i32 io" where
  "binary_i32 s =
     (case unread s of
        a # b # c # d # r \<Rightarrow> Inr (sint (ntohl (le32 a b c d)), 4, s\<lparr>unread := r\<rparr>)
      | _ \<Rightarrow> Inl TransportError)"

definition binary_i16 :: "wire \<Rightarrow> int io" where
  "binary_i16 s =
     (case unread s of
        a # b # r \<Rightarrow> Inr (sint (ntohs (le16 a b)), 2, s\<lparr>unread := r\<rparr>)
      | _ \<Rightarrow> Inl TransportError)"

definition binary_byte :: "wire \<Rightarrow> u8 io" where
  "binary_byte s = (case unread s of a # r \<Rightarrow> Inr (a, 1, s\<lparr>unread := r\<rparr>) | _ \<Rightarrow> Inl TransportError)"

definition binary_string :: "wire \<Rightarrow> bytes io" where
  "binary_string s = bindT (binary_i32 s) (\<lambda>n s.
     if n < 0 then Inl ProtocolError
     else if nat n \<le> length (unread s)
     then Inr (take (nat n) (unread s), word_of_int n, s\<lparr>unread := drop (nat n) (unread s)\<rparr>)
     else Inl TransportError)"

definition binary_field_begin :: "wire \<Rightarrow> (ttype \<times> int) io" where
  "binary_field_begin s = bindT (binary_byte s) (\<lambda>c s.
     if c = 0 then Inr ((T_STOP, 0), 0, s)
     else bindT (binary_i16 s) (\<lambda>k s. Inr ((ttype_of c, k), 0, s)))"

definition binary_message_begin :: "wire \<Rightarrow> (bytes \<times> mtype \<times> i32) io" where
  "binary_message_begin s = bindT (binary_i32 s) (\<lambda>v s.
     case mtype_of (v - version_1) of
       None \<Rightarrow> Inl ProtocolError
     | Some t \<Rightarrow> bindT (binary_string s) (\<lambda>nm s. bindT (binary_i32 s) (\<lambda>k s. Inr ((nm, t, k), 0, s))))"

text \<open>\<open>skip\<close>, for the three types and for structs of structs up to the depth given.\<close>

fun binary_fields :: "nat \<Rightarrow> (ttype \<Rightarrow> wire \<Rightarrow> unit io) \<Rightarrow> wire \<Rightarrow> unit io" where
  "binary_fields 0 skip s = Inl ProtocolError"
| "binary_fields (Suc n) skip s = bindT (binary_field_begin s) (\<lambda>(ty, k) s.
     if ty = T_STOP then Inr ((), 0, s)
     else bindT (skip ty s) (\<lambda>_ s. binary_fields n skip s))"

fun binary_skip :: "nat \<Rightarrow> ttype \<Rightarrow> wire \<Rightarrow> unit io" where
  "binary_skip d T_I32 s = bindT (binary_i32 s) (\<lambda>_ s. Inr ((), 0, s))"
| "binary_skip d T_STRING s = bindT (binary_string s) (\<lambda>_ s. Inr ((), 0, s))"
| "binary_skip (Suc d) T_STRUCT s = binary_fields (length (unread s)) (binary_skip d) s"
| "binary_skip d ty s = Inl ProtocolError"

definition binary_exception :: "wire \<Rightarrow> bytes io" where
  "binary_exception s = bindT (binary_field_begin s) (\<lambda>_ s. bindT (binary_string s) (\<lambda>b s.
     bindT (binary_fields (length (unread s)) (binary_skip 1) s) (\<lambda>_ s. Inr (b, 0, s))))"

definition binary_protocol :: protocol where
  "binary_protocol =
     \<lparr>write_item = (\<lambda>i s. Inr ((), word_of_nat (length (binary_item i)), s\<lparr>written := written s @ binary_item i\<rparr>)),
      read_message_begin = binary_message_begin,
      read_field_begin = binary_field_begin,
      read_i32 = binary_i32,
      read_string = binary_string,
      read_app_exception = binary_exception,
      read_mark = (\<lambda>m s. Inr ((), 0, s)),
      skip_value = binary_skip 64,
      depth_ok = (\<lambda>d. d \<le> 64)\<rparr>"

section \<open>Reading back\<close>

lemma sint_word_of_int32: "in32 v \<Longrightarrow> sint (word_of_int v :: u32) = v"
  by (simp add: in32_def signed_of_int signed_take_bit_int_eq_self)

lemma sint_word_of_int16: "0 \<le> k \<Longrightarrow> k < 0x8000 \<Longrightarrow> sint (word_of_int k :: u16) = k"
  by (simp add: signed_of_int signed_take_bit_int_eq_self)

lemma reads_total: "(\<And>s r. unread s = v @ r \<Longrightarrow> \<exists>n. f s = Inr (x, n, s\<lparr>unread := r\<rparr>)) \<Longrightarrow> reads (\<lambda>s. Some (f s)) v x"
  by (rule readsI) simp

lemma binary_i32_reads: "in32 v \<Longrightarrow> reads (\<lambda>s. Some (binary_i32 s)) (be32 v) v"
  by (rule reads_total)
    (simp add: be32_def bytes32_def binary_i32_def bswap32_def sint_word_of_int32)

lemma binary_i16_reads: "0 \<le> k \<Longrightarrow> k < 0x8000 \<Longrightarrow> reads (\<lambda>s. Some (binary_i16 s)) (be16 k) k"
  by (rule reads_total)
    (simp add: be16_def bytes16_def binary_i16_def bswap16_def sint_word_of_int16)

lemma binary_byte_reads: "reads (\<lambda>s. Some (binary_byte s)) [c] c"
  by (rule reads_total) (simp add: binary_byte_def)

lemma in32_length: "short b \<Longrightarrow> in32 (int (length b))"
  by (simp add: short_def in32_def)

lemma binary_string_reads: "short b \<Longrightarrow> reads (\<lambda>s. Some (binary_string s)) (be_string b) b"
  unfolding binary_string_def be_string_def
  by (rule reads_bindT [OF binary_i32_reads [OF in32_length]]) (auto intro: reads_total)

lemma binary_field_reads:
  assumes "ty \<in> {T_I32, T_STRING, T_STRUCT}" "0 \<le> k" "k < 0x8000"
  shows "reads (\<lambda>s. Some (binary_field_begin s)) (ttype_code ty # be16 k) (ty, k)"
proof -
  have "reads (\<lambda>s. Some (bindT (binary_i16 s) (\<lambda>k s. Inr ((ty, k), 0, s)))) (be16 k @ []) (ty, k)"
    by (rule reads_bindT [OF binary_i16_reads]) (use assms reads_return in auto)
  then have "reads (\<lambda>s. Some (binary_field_begin s)) ([ttype_code ty] @ be16 k) (ty, k)"
    unfolding binary_field_begin_def
    by (intro reads_bindT [OF binary_byte_reads]) (use assms in \<open>auto simp: ttype_of_def\<close>)
  then show ?thesis by simp
qed

lemma binary_stop_reads: "reads (\<lambda>s. Some (binary_field_begin s)) [0] (T_STOP, 0)"
proof -
  have "reads (\<lambda>s. Some (binary_field_begin s)) ([0] @ []) (T_STOP, 0)"
    unfolding binary_field_begin_def
    by (rule reads_bindT [OF binary_byte_reads]) (simp add: reads_return)
  then show ?thesis by simp
qed

lemma mtype_of_code: "mtype_of (mtype_code t) = Some t"
  by (cases t) (simp_all add: mtype_of_def)

lemma in32_version: "in32 (version_1 + mtype_code t)"
  by (cases t) (simp_all add: version_1_def in32_def)

lemma binary_message_reads:
  assumes "short nm" "in32 k"
  shows "reads (\<lambda>s. Some (binary_message_begin s)) (binary_item (MessageBegin nm t k)) (nm, t, k)"
proof -
  have "reads (\<lambda>s. Some (bindT (binary_i32 s) (\<lambda>k s. Inr ((nm, t, k), 0, s)))) (be32 k @ []) (nm, t, k)"
    by (rule reads_bindT [OF binary_i32_reads [OF assms(2)] reads_return])
  then have "reads (\<lambda>s. Some (bindT (binary_string s) (\<lambda>nm s. bindT (binary_i32 s) (\<lambda>k s. Inr ((nm, t, k), 0, s)))))
      (be_string nm @ be32 k) (nm, t, k)"
    by (intro reads_bindT [OF binary_string_reads [OF assms(1)]]) simp
  then show ?thesis
    unfolding binary_message_begin_def binary_item.simps
    by (intro reads_bindT [OF binary_i32_reads [OF in32_version]]) (simp add: mtype_of_code)
qed

section \<open>Skipping\<close>

lemma binary_flat_skips:
  assumes "flat i"
  shows "reads (\<lambda>s. Some (binary_skip d (type_of i) s)) (binary_item i) ()"
proof -
  have i32: "reads (\<lambda>s. Some (bindT (binary_i32 s) (\<lambda>_ s. Inr ((), 0, s)))) (be32 v @ []) ()" if "in32 v" for v
    by (rule reads_bindT [OF binary_i32_reads [OF that] reads_return])
  have str: "reads (\<lambda>s. Some (bindT (binary_string s) (\<lambda>_ s. Inr ((), 0, s)))) (be_string b @ []) ()" if "short b" for b
    by (rule reads_bindT [OF binary_string_reads [OF that] reads_return])
  from assms i32 str show ?thesis by (cases i) auto
qed

lemma flat_field_simp: "flat_field enc (nm, k, i) = (nm, type_of i, k, enc i)"
  by (simp add: flat_field_def)

lemma binary_fields_skip:
  assumes "list_all numbered fs" "length fs < n"
  shows "reads (\<lambda>s. Some (binary_fields n (binary_skip d) s))
    (concat (map (field_bytes binary_item) (map (flat_field binary_item) fs)) @ [0]) ()"
  using assms
proof (induction fs arbitrary: n)
  case Nil
  then obtain m where "n = Suc m" by (cases n) auto
  moreover have "reads (\<lambda>s. Some (binary_fields (Suc m) (binary_skip d) s)) ([0] @ []) ()"
    unfolding binary_fields.simps by (rule reads_bindT [OF binary_stop_reads]) (simp add: reads_return)
  ultimately show ?case by simp
next
  case (Cons f fs)
  obtain m where n: "n = Suc m" using Cons.prems by (cases n) auto
  obtain nm k i where f: "f = (nm, k, i)" "flat i" "0 \<le> k" "k < 0x8000"
    using Cons.prems by (cases f) (auto simp: numbered_def)
  have ty: "type_of i \<in> {T_I32, T_STRING, T_STRUCT}" "type_of i \<noteq> T_STOP" by (cases i; simp)+
  have "reads (\<lambda>s. Some (binary_fields (Suc m) (binary_skip d) s))
      ((ttype_code (type_of i) # be16 k) @ binary_item i @
       concat (map (field_bytes binary_item) (map (flat_field binary_item) fs)) @ [0]) ()"
    unfolding binary_fields.simps
  proof (rule reads_bindT [OF binary_field_reads [OF ty(1) f(3,4)]])
    have "reads (\<lambda>s. Some (bindT (binary_skip d (type_of i) s) (\<lambda>_ s. binary_fields m (binary_skip d) s)))
        (binary_item i @ (concat (map (field_bytes binary_item) (map (flat_field binary_item) fs)) @ [0])) ()"
      by (rule reads_bindT [OF binary_flat_skips [OF f(2)]]) (use Cons n in simp)
    then show "reads (\<lambda>s. Some ((case (type_of i, k) of (ty, k) \<Rightarrow> (\<lambda>s. if ty = T_STOP then Inr ((), 0, s)
        else bindT (binary_skip d ty s) (\<lambda>_. binary_fields m (binary_skip d)))) s))
        (binary_item i @ concat (map (field_bytes binary_item) (map (flat_field binary_item) fs)) @ [0]) ()"
      using ty(2) by simp
  qed
  then show ?case by (simp add: n f(1) flat_field_simp field_bytes_simp)
qed


lemma length_flat_fields:
  "length fs \<le> length (concat (map (field_bytes binary_item) (map (flat_field binary_item) fs)))"
  by (induction fs) (auto simp: field_bytes_simp flat_field_def split: prod.splits)

lemma binary_struct_skips:
  assumes "list_all numbered fs"
  shows "reads (\<lambda>s. Some (binary_skip (Suc d) T_STRUCT s))
    (struct_bytes binary_item nm (map (flat_field binary_item) fs)) ()"
proof (rule readsI)
  let ?v = "concat (map (field_bytes binary_item) (map (flat_field binary_item) fs)) @ [0]"
  fix s :: wire and r assume "unread s = struct_bytes binary_item nm (map (flat_field binary_item) fs) @ r"
  then have s: "unread s = ?v @ r" by (simp add: struct_bytes_def)
  then have "length fs < length (unread s)" using length_flat_fields [of fs] by simp
  from readsE [OF binary_fields_skip [OF assms this] s]
  show "\<exists>n. Some (binary_skip (Suc d) T_STRUCT s) = Some (Inr ((), n, s\<lparr>unread := r\<rparr>))"
    unfolding binary_skip.simps by blast
qed

lemma binary_exception_reads:
  assumes "short b"
  shows "reads (\<lambda>s. Some (binary_exception s)) (binary_item (AppException b)) b"
proof -
  let ?v = "ttype_code T_I32 # be16 2 @ be32 0 @ [0]"
  have "reads (\<lambda>s. Some (binary_fields (length (unread s)) (binary_skip 1) s)) ?v ()"
  proof (rule readsI)
    fix s :: wire and r assume s: "unread s = ?v @ r"
    have "list_all numbered [([], 2, I32 0)]" by (simp add: numbered_def in32_def)
    moreover have "length [([] :: bytes, 2 :: int, I32 0)] < length (unread s)" by (simp add: s)
    ultimately have "reads (\<lambda>t. Some (binary_fields (length (unread s)) (binary_skip 1) t)) ?v ()"
      using binary_fields_skip [of "[([], 2, I32 0)]" "length (unread s)" 1]
      by (simp add: flat_field_def field_bytes_simp)
    from readsE [OF this s]
    show "\<exists>n. Some (binary_fields (length (unread s)) (binary_skip 1) s) = Some (Inr ((), n, s\<lparr>unread := r\<rparr>))"
      by blast
  qed
  from reads_bindT [OF this reads_return]
  have rest: "reads (\<lambda>s. Some (bindT (binary_fields (length (unread s)) (binary_skip 1) s) (\<lambda>_ s. Inr (b, 0, s)))) (?v @ []) b" .
  have "reads (\<lambda>s. Some (bindT (binary_string s) (\<lambda>b s.
      bindT (binary_fields (length (unread s)) (binary_skip 1) s) (\<lambda>_ s. Inr (b, 0, s))))) (be_string b @ (?v @ [])) b"
    by (rule reads_bindT [OF binary_string_reads [OF assms]]) (rule rest)
  then have "reads (\<lambda>s. Some (binary_exception s)) ((ttype_code T_STRING # be16 1) @ (be_string b @ (?v @ []))) b"
    unfolding binary_exception_def
    by (intro reads_bindT [OF binary_field_reads]) simp_all
  then show ?thesis by simp
qed

interpretation binary: thrift_protocol binary_protocol binary_item
proof unfold_locales
  show "emits (write_item binary_protocol i) (binary_item i)" for i
    by (simp add: emits_def binary_protocol_def)
  show "reads (\<lambda>s. Some (read_field_begin binary_protocol s)) (binary_item (FieldBegin nm ty k)) (ty, k)"
    if "fits (FieldBegin nm ty k)" for nm ty k
    using that binary_field_reads [of ty k] by (simp add: binary_protocol_def)
  show "\<exists>k. reads (\<lambda>s. Some (read_field_begin binary_protocol s)) (binary_item FieldStop) (T_STOP, k)"
    using binary_stop_reads by (auto simp: binary_protocol_def)
  show "reads (\<lambda>s. Some (skip_value binary_protocol T_STRUCT s))
      (struct_bytes binary_item nm (map (flat_field binary_item) fs)) ()" if "list_all numbered fs" for nm fs
    using binary_struct_skips [OF that, of 63] by (simp add: binary_protocol_def)
  show "reads (\<lambda>s. Some (skip_value binary_protocol (type_of i) s)) (binary_item i) ()" if "flat i" for i
    using binary_flat_skips [OF that, of 64] by (simp add: binary_protocol_def)
  show "reads (\<lambda>s. Some (read_app_exception binary_protocol s)) (binary_item (AppException b)) b" if "short b" for b
    using binary_exception_reads [OF that] unfolding binary_protocol_def protocol.select_convs .
qed (auto simp: binary_protocol_def reads_return binary_i32_reads binary_string_reads
  binary_message_reads simp del: binary_item.simps(1))

end
