(* ===== verification/Service.thy ===== *)
theory Service
  imports BinaryProtocol Controller
begin

text \<open>
  The Thrift service of the server: \<open>Controller::Run\<close> of \<open>src/workmanager/controller.cpp\<close> gives
  \<open>LogicInterfaceHandler\<close> to the generated processor. Here the handler of \<open>Handler\<close> is put
  behind the dispatch of \<open>Thrift\<close>, and the two calls are followed from the client to the
  handler and back, over any library that keeps the interface \<open>thrift_protocol\<close>. The witnesses use
  the binary protocol.
\<close>

section \<open>The handler behind the processor\<close>

text \<open>The handler's methods throw nothing: their exceptions are caught inside (see \<open>Database\<close>).\<close>

definition server_iface ::
  "'s environment \<Rightarrow> schedule \<Rightarrow> MessageItem \<times> time_t \<Rightarrow> 's world iface" where
  "server_iface E sh junk =
     \<lparr>if_AccessToLogic = (\<lambda>request w. bindR (AccessToLogic E sh junk request w) (\<lambda>w. Ret (None, w))),
      if_LogicToAccess = (\<lambda>response w. bindR (LogicToAccess (fst response) w) (\<lambda>w. Ret (None, w)))\<rparr>"

text \<open>The message that \<open>SendMessage\<close> builds with the setters, and its comparison.\<close>

lemma access_message_setters:
  "fst (set_content buf (set_level l (set_beam_id b (set_sate_id s (set_uid (sint u) AccessMessage_new))))) =
   access_message u buf s b l"
  by (simp add: set_content_def set_level_def set_beam_id_def set_sate_id_def set_uid_def
      AccessMessage_new_def access_message_def)

lemma AccessMessage_eq_iff: "AccessMessage_eq a b \<longleftrightarrow> fst a = fst b"
  by (auto simp: AccessMessage_eq_def)

section \<open>Properties\<close>

text \<open>
  A request sent by the client runs the handler of the server once, on exactly the bytes that were sent,
  the answer is written after the handler is done, and the client reads it as success; the calls
  the handler makes are the calls of that request, and nothing of the stream is lost or left.
\<close>

theorem request_over_the_wire:
  assumes "thrift_protocol P enc" and "short request"
    and "AccessToLogic E sh junk request w = Ret w'"
  shows "\<exists>call reply. emits (send_AccessToLogic P request) call \<and>
    serves P (server_iface E sh junk) call w reply w' \<and> reads (recv_AccessToLogic P) reply ()"
proof -
  have "if_AccessToLogic (server_iface E sh junk) request w = Ret (None, w')"
    using assms(3) by (simp add: server_iface_def)
  from thrift_protocol.AccessToLogic_call [OF assms(1,2) this] show ?thesis
    by (simp add: client_sees_def)
qed

theorem request_over_the_wire_witness:
  "\<exists>w' call reply. emits (send_AccessToLogic binary_protocol (head_bytes (demo_frame 0x40 [72, 105]))) call \<and>
    serves binary_protocol (server_iface demo_env demo_schedule demo_junk) call demo_world reply w' \<and>
    reads (recv_AccessToLogic binary_protocol) reply ()"
proof -
  have "returns (AccessToLogic demo_env demo_schedule demo_junk
      (head_bytes (demo_frame 0x40 [72, 105])) demo_world)" by code_simp
  then obtain w' where r: "AccessToLogic demo_env demo_schedule demo_junk
      (head_bytes (demo_frame 0x40 [72, 105])) demo_world = Ret w'" by (rule returnsE)
  have "short (head_bytes (demo_frame 0x40 [72, 105]))" by (simp add: short_def demo_frame_def head_bytes_def)
  from request_over_the_wire [OF binary.thrift_protocol_axioms this r] show ?thesis by blast
qed

text \<open>
  C35: A message sent to an access server arrives there field for field, every field marked as set, and the
  client returns normally or, when the access server's handler threw, throws with the same text.
\<close>

theorem message_over_the_wire:
  assumes "thrift_protocol P enc" and "fits_message (fst m)"
    and "if_LogicToAccess F (fst m, all_set) w = Ret (thrown, w')" and "pred_option short thrown"
  shows "\<exists>call reply. emits (send_LogicToAccess P m) call \<and> serves P F call w reply w' \<and>
    client_sees (recv_LogicToAccess P) reply thrown"
  using thrift_protocol.LogicToAccess_call [OF assms] .

definition demo_access_server :: "access_object list iface" where
  "demo_access_server = \<lparr>if_AccessToLogic = (\<lambda>r w. Ret (Some [110, 111], w)),
     if_LogicToAccess = (\<lambda>m w. Ret (None, w @ [m]))\<rparr>"

definition demo_message :: AccessMessage where
  "demo_message = \<lparr>am_uid = 7, am_sate_id = 1, am_beam_id = -1, am_level = 3, am_content = [0, 255, 10]\<rparr>"

theorem message_over_the_wire_witness:
  "\<exists>call reply. emits (send_LogicToAccess binary_protocol (demo_message, snd AccessMessage_new)) call \<and>
    serves binary_protocol demo_access_server call [] reply [(demo_message, all_set)] \<and>
    client_sees (recv_LogicToAccess binary_protocol) reply None"
proof -
  have "fits_message (fst (demo_message, snd AccessMessage_new))"
    by (simp add: demo_message_def fits_message_def in32_def short_def)
  moreover have "if_LogicToAccess demo_access_server (fst (demo_message, snd AccessMessage_new), all_set) [] =
      Ret (None, [(demo_message, all_set)])"
    by (simp add: demo_access_server_def)
  ultimately show ?thesis
    using message_over_the_wire [OF binary.thrift_protocol_axioms] by fastforce
qed

text \<open>
  C36: \<open>AccessMessage::read\<close> takes the fields in any order, sets each that it knows by number and type, the
  last one of a number winning, and skips every other field; what \<open>write\<close> wrote is read back as it was.
\<close>

theorem AccessMessage_read_fields:
  assumes "thrift_protocol P enc" and "list_all numbered fs" and "fits_message m"
  shows "reads (AccessMessage_read P 0 mi) (struct_bytes enc nm (map (flat_field enc) fs))
      (fold (\<lambda>(nm, k, i). put_field k i) fs mi) \<and>
    emits (AccessMessage_write P 0 (m, b)) (message_bytes enc m) \<and>
    reads (AccessMessage_read P 0 mi) (message_bytes enc m) (m, all_set)"
proof -
  note laws = thrift_protocol.AccessMessage_reads_fields [OF assms(1)]
    thrift_protocol.AccessMessage_emits [OF assms(1)] thrift_protocol.AccessMessage_reads [OF assms(1)]
    thrift_protocol.depth(1) [OF assms(1)]
  from laws(1) [of 0] laws(2) [of 0 "(m, b)"] laws(3) [of 0] laws(4) assms(2,3) show ?thesis by simp
qed

theorem AccessMessage_read_fields_witness:
  "reads (AccessMessage_read binary_protocol 0 AccessMessage_new)
     (struct_bytes binary_item [] (map (flat_field binary_item)
       [([], 9, I32 5), ([], 5, Str [1]), ([], 1, Str [2]), ([], 4, I32 8)]))
     (\<lparr>am_uid = 0, am_sate_id = 0, am_beam_id = 0, am_level = 8, am_content = [1]\<rparr>,
      \<lparr>isset_uid = False, isset_sate_id = False, isset_beam_id = False, isset_level = True, isset_content = True\<rparr>)"
proof -
  have "list_all numbered [([], 9, I32 5), ([], 5, Str [1]), ([], 1, Str [2]), ([], 4, I32 8)]"
    by (simp add: numbered_def in32_def short_def)
  moreover have "fits_message demo_message"
    by (simp add: demo_message_def fits_message_def in32_def short_def)
  ultimately show ?thesis
    using AccessMessage_read_fields [OF binary.thrift_protocol_axioms, of "[([], 9, I32 5), ([], 5, Str [1]), ([], 1, Str [2]), ([], 4, I32 8)]"
      demo_message AccessMessage_new "[]"]
    by (simp add: AccessMessage_new_def)
qed

text \<open>
  C37: A call of a method the service does not have is read to its end and answered with an exception that
  carries its name and number; the handler is not run.
\<close>

theorem unknown_method_answered:
  assumes "thrift_protocol P enc" and "fname \<notin> {ascii ''AccessToLogic'', ascii ''LogicToAccess''}"
    and "length fname < 1000" and "in32 seqid" and "list_all numbered fs"
    and "unread s = struct_bytes enc nm (map (flat_field enc) fs) @ enc (Mark MessageEnd) @ enc (Mark TransportEnd) @ r"
  shows "\<exists>what. dispatchCall P F fname seqid s w = Some (Ret (Inr (s\<lparr>unread := r, written := written s @
    call_bytes enc fname T_EXCEPTION seqid (enc (AppException what))\<rparr>), w))"
  using thrift_protocol.unknown_method [OF assms(1) _ _ assms(3-6)] assms(2) by simp

theorem unknown_method_answered_witness:
  "\<exists>what. dispatchCall binary_protocol demo_access_server [120] 4
      \<lparr>unread = struct_bytes binary_item [] (map (flat_field binary_item) [([], 1, I32 6)]), written = []\<rparr> [] =
    Some (Ret (Inr \<lparr>unread = [], written = call_bytes binary_item [120] T_EXCEPTION 4
      (binary_item (AppException what))\<rparr>, []))"
  using unknown_method_answered [OF binary.thrift_protocol_axioms, of "[120]" 4 "[([], 1, I32 6)]"
      "\<lparr>unread = struct_bytes binary_item [] (map (flat_field binary_item) [([], 1, I32 6)]), written = []\<rparr>"
      "[]" "[]" demo_access_server "[]"]
  by (simp add: ascii_def in32_def numbered_def del: binary_item.simps(1,7))

end
