(* ===== verification/Concurrent.thy ===== *)
theory Concurrent
  imports BinaryProtocol
begin

text \<open>
  \<open>LogicInterfaceConcurrentClient\<close> of \<open>src/thrift/LogicInterface.cpp\<close>: threads that share a connection,
  whose answers come in any order. The object \<open>sync_\<close> (\<open>TConcurrentClientSyncInfo\<close> and its sentries) is not in
  the repository: it is the parameter \<open>Y\<close> on a state \<open>'y\<close>, with the interface \<open>concurrent_sync\<close> for
  what the client relies on. A thread holds the read mutex from its entry, or its return from \<open>waitForWork\<close>, to
  its end or its next \<open>waitForWork\<close>; that is one step here, and the steps of the threads are interleaved.
\<close>

section \<open>The synchronisation object\<close>

type_synonym header = "bytes \<times> mtype \<times> i32"

text \<open>
  \<open>send_begin\<close> and \<open>send_end\<close> are the constructor and destructor of \<open>TConcurrentSendSentry\<close>, \<open>recv_begin\<close> and
  \<open>recv_end\<close> those of \<open>TConcurrentRecvSentry\<close>; the flag is whether \<open>commit\<close> was called. \<open>waitForWork\<close> says
  of a thread that waits what becomes of its call: \<open>None\<close> it goes on waiting, \<open>Some None\<close> it returns,
  \<open>Some (Some e)\<close> it throws.
\<close>

record 'y sync =
  generateSeqId :: "'y \<Rightarrow> texn + i32 \<times> 'y"
  send_begin :: "'y \<Rightarrow> 'y"
  send_end :: "bool \<Rightarrow> 'y \<Rightarrow> 'y"
  recv_begin :: "i32 \<Rightarrow> 'y \<Rightarrow> 'y"
  recv_end :: "bool \<Rightarrow> i32 \<Rightarrow> 'y \<Rightarrow> 'y"
  getPending :: "'y \<Rightarrow> texn + header option \<times> 'y"
  updatePending :: "header \<Rightarrow> 'y \<Rightarrow> texn option \<times> 'y"
  waitForWork :: "i32 \<Rightarrow> 'y \<Rightarrow> texn option option"

section \<open>Sending\<close>

definition concurrent_send ::
  "protocol \<Rightarrow> 'y sync \<Rightarrow> bytes \<Rightarrow> (wire \<Rightarrow> unit io) \<Rightarrow> wire \<Rightarrow> 'y \<Rightarrow> (texn + i32 \<times> wire) \<times> 'y" where
  "concurrent_send P Y called pargs_write s y =
     (case generateSeqId Y y of
        Inl e \<Rightarrow> (Inl e, y)
      | Inr (cseqid, y) \<Rightarrow>
        let y = send_begin Y y in
        (case bindT (write_item P (MessageBegin called T_CALL cseqid) s) (\<lambda>_ s.
              bindT (pargs_write s) (\<lambda>_ s.
              writes P [Mark MessageEnd, Mark TransportEnd, Flush] s)) of
           Inl e \<Rightarrow> (Inl e, send_end Y False y)
         | Inr (u, n, s) \<Rightarrow> (Inr (cseqid, s), send_end Y True y)))"

definition concurrent_send_AccessToLogic ::
  "protocol \<Rightarrow> 'y sync \<Rightarrow> bytes \<Rightarrow> wire \<Rightarrow> 'y \<Rightarrow> (texn + i32 \<times> wire) \<times> 'y" where
  "concurrent_send_AccessToLogic P Y request =
     concurrent_send P Y (ascii ''AccessToLogic'') (AccessToLogic_pargs_write P 0 request)"

definition concurrent_send_LogicToAccess ::
  "protocol \<Rightarrow> 'y sync \<Rightarrow> access_object \<Rightarrow> wire \<Rightarrow> 'y \<Rightarrow> (texn + i32 \<times> wire) \<times> 'y" where
  "concurrent_send_LogicToAccess P Y response =
     concurrent_send P Y (ascii ''LogicToAccess'') (LogicToAccess_pargs_write P 0 response)"

section \<open>Receiving\<close>

text \<open>
  The answer with the caller's own number, after its header. \<open>Inr (thrown, \<dots>)\<close> is a result that was
  committed, what it throws included; \<open>Inl\<close> is thrown without \<open>commit\<close>.
\<close>

definition own_reply ::
  "protocol \<Rightarrow> bytes \<Rightarrow> (wire \<Rightarrow> unit io option) \<Rightarrow> bytes \<Rightarrow> mtype \<Rightarrow> wire \<Rightarrow> texn option io option" where
  "own_reply P called presult_read fname mtype s =
     (if mtype = T_EXCEPTION
      then bindO (Some (read_app_exception P s)) (\<lambda>x s.
           bindO (Some (read_end P s)) (\<lambda>_ s. Some (Inr (Some (ApplicationError x), 0, s))))
      else
        bindO (Some (if mtype \<noteq> T_REPLY then discard P s else Inr ((), 0, s))) (\<lambda>_ s.
        if fname \<noteq> called
        then bindO (Some (discard P s)) (\<lambda>_ s. Some (Inl ProtocolError))
        else bindO (presult_read s) (\<lambda>_ s.
             bindO (Some (read_end P s)) (\<lambda>_ s. Some (Inr (None, 0, s))))))"

datatype progress = Ended "texn option" | Waits

text \<open>
  The body of the \<open>while (true)\<close>, from \<open>getPending\<close> to \<open>waitForWork\<close> or the end, where the sentry is
  destroyed. After an exception that was not committed the position on the wire is not known, and nobody
  reads from it again; the wire given back is then one from before the exception.
\<close>

definition recv_pass ::
  "protocol \<Rightarrow> 'y sync \<Rightarrow> bytes \<Rightarrow> (wire \<Rightarrow> unit io option) \<Rightarrow> i32 \<Rightarrow> wire \<Rightarrow> 'y \<Rightarrow>
   (progress \<times> wire \<times> 'y) option" where
  "recv_pass P Y called presult_read seqid s y =
     (case getPending Y y of
        Inl e \<Rightarrow> Some (Ended (Some e), s, recv_end Y False seqid y)
      | Inr (found, y) \<Rightarrow>
        (case (case found of Some h \<Rightarrow> Inr (h, 0, s) | None \<Rightarrow> read_message_begin P s) of
           Inl e \<Rightarrow> Some (Ended (Some e), s, recv_end Y False seqid y)
         | Inr ((fname, mtype, rseqid), n, s) \<Rightarrow>
           if seqid = rseqid
           then map_option (\<lambda>r. case r of
                  Inl e \<Rightarrow> (Ended (Some e), s, recv_end Y False seqid y)
                | Inr (thrown, k, s) \<Rightarrow> (Ended thrown, s, recv_end Y True seqid y))
                (own_reply P called presult_read fname mtype s)
           else (case updatePending Y (fname, mtype, rseqid) y of
               (Some e, y) \<Rightarrow> Some (Ended (Some e), s, recv_end Y False seqid y)
             | (None, y) \<Rightarrow> Some (Waits, s, y))))"

definition concurrent_recv_AccessToLogic ::
  "protocol \<Rightarrow> 'y sync \<Rightarrow> i32 \<Rightarrow> wire \<Rightarrow> 'y \<Rightarrow> (progress \<times> wire \<times> 'y) option" where
  "concurrent_recv_AccessToLogic P Y = recv_pass P Y (ascii ''AccessToLogic'') (AccessToLogic_presult_read P 0)"

definition concurrent_recv_LogicToAccess ::
  "protocol \<Rightarrow> 'y sync \<Rightarrow> i32 \<Rightarrow> wire \<Rightarrow> 'y \<Rightarrow> (progress \<times> wire \<times> 'y) option" where
  "concurrent_recv_LogicToAccess P Y = recv_pass P Y (ascii ''LogicToAccess'') (LogicToAccess_presult_read P 0)"

datatype called = CallAccessToLogic | CallLogicToAccess

fun concurrent_recv ::
  "protocol \<Rightarrow> 'y sync \<Rightarrow> called \<Rightarrow> i32 \<Rightarrow> wire \<Rightarrow> 'y \<Rightarrow> (progress \<times> wire \<times> 'y) option" where
  "concurrent_recv P Y CallAccessToLogic = concurrent_recv_AccessToLogic P Y"
| "concurrent_recv P Y CallLogicToAccess = concurrent_recv_LogicToAccess P Y"

section \<open>The threads\<close>

text \<open>A thread that has sent its call, one in \<open>waitForWork\<close>, and one whose call returned or threw.\<close>

datatype phase = Sent | Waiting | Finished "texn option"

record 'y client =
  cl_wire :: wire
  cl_sync :: 'y
  cl_calls :: "i32 \<Rightarrow> (called \<times> phase) option"

fun phase_after :: "progress \<Rightarrow> phase" where
  "phase_after (Ended thrown) = Finished thrown"
| "phase_after Waits = Waiting"

definition after_pass :: "'y client \<Rightarrow> i32 \<Rightarrow> called \<Rightarrow> progress \<times> wire \<times> 'y \<Rightarrow> 'y client" where
  "after_pass c k m r = (case r of (p, s, y) \<Rightarrow>
     \<lparr>cl_wire = s, cl_sync = y, cl_calls = (cl_calls c)(k \<mapsto> (m, phase_after p))\<rparr>)"

inductive cstep :: "protocol \<Rightarrow> 'y sync \<Rightarrow> 'y client \<Rightarrow> 'y client \<Rightarrow> bool" for P Y where
  enter: "cl_calls c k = Some (m, Sent) \<Longrightarrow>
     concurrent_recv P Y m k (cl_wire c) (recv_begin Y k (cl_sync c)) = Some r \<Longrightarrow>
     cstep P Y c (after_pass c k m r)"
| resume: "cl_calls c k = Some (m, Waiting) \<Longrightarrow> waitForWork Y k (cl_sync c) = Some None \<Longrightarrow>
     concurrent_recv P Y m k (cl_wire c) (cl_sync c) = Some r \<Longrightarrow>
     cstep P Y c (after_pass c k m r)"
| give_up: "cl_calls c k = Some (m, Waiting) \<Longrightarrow> waitForWork Y k (cl_sync c) = Some (Some e) \<Longrightarrow>
     cstep P Y c (after_pass c k m (Ended (Some e), cl_wire c, recv_end Y False k (cl_sync c)))"

section \<open>What the client relies on\<close>

text \<open>
  What the synchronisation object holds: whether the connection is still good, the numbers of the calls that
  have not ended, the header somebody read for another thread, and whether a waiting thread is to take
  over the reading. \<open>woken\<close> is what the destructor of a committed receive leaves.
\<close>

record sync_view =
  vw_good :: bool
  vw_calls :: "i32 set"
  vw_pending :: "header option"
  vw_woken :: bool

locale concurrent_sync =
  fixes Y :: "'y sync" and view :: "'y \<Rightarrow> sync_view"
  assumes seqid: "generateSeqId Y y = Inr (k, y') \<Longrightarrow> in32 k \<and> k \<notin> vw_calls (view y) \<and>
        view y' = (view y)\<lparr>vw_calls := insert k (vw_calls (view y))\<rparr>"
    and send_sentry: "view (send_begin Y y) = view y"
        "view (send_end Y ok y) = (view y)\<lparr>vw_good := vw_good (view y) \<and> ok\<rparr>"
    and recv_sentry: "view (recv_begin Y k y) = view y"
        "view (recv_end Y ok k y) = (view y)\<lparr>vw_good := vw_good (view y) \<and> ok,
           vw_calls := vw_calls (view y) - {k}, vw_woken := vw_woken (view y) \<or> ok\<rparr>"
    and getPending_good: "vw_good (view y) \<Longrightarrow> \<exists>y'. getPending Y y = Inr (vw_pending (view y), y') \<and>
        view y' = (view y)\<lparr>vw_pending := None, vw_woken := False\<rparr>"
    and getPending_bad: "\<not> vw_good (view y) \<Longrightarrow> \<exists>e. getPending Y y = Inl e"
    and updatePending: "updatePending Y h y = (thrown, y') \<Longrightarrow> view y' = (view y)\<lparr>vw_pending := Some h\<rparr>"
        "updatePending Y h y = (thrown, y') \<Longrightarrow> thrown = None \<longleftrightarrow> snd (snd h) \<in> vw_calls (view y)"
    and waitForWork_good: "vw_good (view y) \<Longrightarrow> waitForWork Y k y =
        (if vw_woken (view y) \<or> (\<exists>h. vw_pending (view y) = Some h \<and> snd (snd h) = k) then Some None else None)"
    and waitForWork_bad: "\<not> vw_good (view y) \<Longrightarrow> \<exists>e. waitForWork Y k y = Some (Some e)"

section \<open>Answers on the wire\<close>

text \<open>The answer to the call number \<open>k\<close> of a method, by what the handler threw.\<close>

type_synonym answer = "i32 \<times> called \<times> bytes option"

fun called_name :: "called \<Rightarrow> bytes" where
  "called_name CallAccessToLogic = ascii ''AccessToLogic''"
| "called_name CallLogicToAccess = ascii ''LogicToAccess''"

fun result_name :: "called \<Rightarrow> bytes" where
  "result_name CallAccessToLogic = ascii ''LogicInterface_AccessToLogic_result''"
| "result_name CallLogicToAccess = ascii ''LogicInterface_LogicToAccess_result''"

fun answer_header :: "answer \<Rightarrow> header" where
  "answer_header (k, m, None) = (called_name m, T_REPLY, k)"
| "answer_header (k, m, Some what) = (called_name m, T_EXCEPTION, k)"

fun answer_body :: "(item \<Rightarrow> bytes) \<Rightarrow> answer \<Rightarrow> bytes" where
  "answer_body enc (k, m, None) = struct_bytes enc (result_name m) [] @ enc (Mark MessageEnd) @ enc (Mark TransportEnd)"
| "answer_body enc (k, m, Some what) = enc (AppException what) @ enc (Mark MessageEnd) @ enc (Mark TransportEnd)"

definition answer_on_wire :: "(item \<Rightarrow> bytes) \<Rightarrow> answer \<Rightarrow> bytes" where
  "answer_on_wire enc a = (case answer_header a of (nm, t, k) \<Rightarrow> enc (MessageBegin nm t k)) @ answer_body enc a"

definition outcome :: "answer \<Rightarrow> texn option" where
  "outcome a = map_option ApplicationError (snd (snd a))"

definition sendable :: "answer \<Rightarrow> bool" where
  "sendable a \<longleftrightarrow> in32 (fst a) \<and> pred_option short (snd (snd a))"

lemma answer_on_wire_server:
  "answer_on_wire enc (k, m, thrown) =
     answer_bytes enc (called_name m) k (struct_bytes enc (result_name m) []) thrown"
  by (cases thrown) (simp_all add: answer_on_wire_def answer_bytes_def call_bytes_def)

lemma short_called_name [simp]: "short (called_name m)"
  by (cases m) simp_all

lemma answer_header_number [simp]: "snd (snd (answer_header a)) = fst a"
  by (cases a rule: answer_header.cases) simp_all

context thrift_protocol
begin

lemma header_reads:
  assumes "sendable a"
  shows "reads (\<lambda>s. Some (read_message_begin P s))
    (case answer_header a of (nm, t, k) \<Rightarrow> enc (MessageBegin nm t k)) (answer_header a)"
  using assms by (cases a rule: answer_header.cases) (auto simp: sendable_def intro!: reads_message)

lemma own_reply_reads:
  assumes "reads presult_read (struct_bytes enc (result_name m) []) ()" and "sendable (k, m, thrown)"
    and "answer_header (k, m, thrown) = (nm, t, k')"
  shows "reads (own_reply P (called_name m) presult_read nm t) (answer_body enc (k, m, thrown))
    (outcome (k, m, thrown))"
proof (cases thrown)
  case None
  have "reads (\<lambda>s. bindO (presult_read s) (\<lambda>_ s. bindO (Some (read_end P s)) (\<lambda>_ s. Some (Inr (None, 0, s)))))
      (answer_body enc (k, m, None)) (None :: texn option)"
    unfolding answer_body.simps
    by (rule reads_bindO [OF assms(1)]) (rule reads_bindO_last [OF reads_end reads_return])
  then show ?thesis using None assms(3) by (auto simp: own_reply_def [abs_def] outcome_def)
next
  case (Some what)
  have "short what" using Some assms(2) by (simp add: sendable_def)
  have "reads (\<lambda>s. bindO (Some (read_app_exception P s)) (\<lambda>x s.
      bindO (Some (read_end P s)) (\<lambda>_ s. Some (Inr (Some (ApplicationError x), 0, s)))))
      (answer_body enc (k, m, Some what)) (Some (ApplicationError what))"
    unfolding answer_body.simps
    by (rule reads_bindO [OF reads_exception [OF \<open>short what\<close>]])
      (rule reads_bindO_last [OF reads_end reads_return])
  then show ?thesis using Some assms(3) by (auto simp: own_reply_def [abs_def] outcome_def)
qed

end

section \<open>A step of the loop\<close>

text \<open>
  The client between two steps: the answers \<open>as\<close> are still to be read, the header of the first one
  perhaps already by somebody it is not for.
\<close>

definition awaiting ::
  "('y \<Rightarrow> sync_view) \<Rightarrow> (item \<Rightarrow> bytes) \<Rightarrow> answer list \<Rightarrow> bytes \<Rightarrow> wire \<Rightarrow> 'y \<Rightarrow> bool" where
  "awaiting view enc as rest s y \<longleftrightarrow>
     vw_good (view y) \<and> vw_calls (view y) = fst ` set as \<and> distinct (map fst as) \<and> list_all sendable as \<and>
     (case vw_pending (view y) of
        None \<Rightarrow> unread s = concat (map (answer_on_wire enc) as) @ rest
      | Some h \<Rightarrow> (\<exists>a as'. as = a # as' \<and> h = answer_header a \<and>
          unread s = answer_body enc a @ concat (map (answer_on_wire enc) as') @ rest))"

locale concurrent_client = thrift_protocol P enc + concurrent_sync Y view
  for P enc and Y :: "'y sync" and view
begin

lemma presult_reads:
  "reads (AccessToLogic_presult_read P 0) (struct_bytes enc nm []) ()"
  "reads (LogicToAccess_presult_read P 0) (struct_bytes enc nm []) ()"
  using result_reads by (simp_all add: AccessToLogic_presult_read_def LogicToAccess_presult_read_def)

lemma concurrent_recv_pass:
  obtains presult_read where "concurrent_recv P Y m = recv_pass P Y (called_name m) presult_read"
    and "\<And>nm. reads presult_read (struct_bytes enc nm []) ()"
  using presult_reads that
  by (cases m) (simp_all add: concurrent_recv_AccessToLogic_def concurrent_recv_LogicToAccess_def)

text \<open>Whoever reads comes to the header of the first answer, with the rest of it still on the wire.\<close>

lemma next_header:
  assumes "awaiting view enc (a # as) rest s y"
  shows "\<exists>found y' n. getPending Y y = Inr (found, y') \<and>
    view y' = (view y)\<lparr>vw_pending := None, vw_woken := False\<rparr> \<and>
    (case found of Some h \<Rightarrow> Inr (h, 0, s) | None \<Rightarrow> read_message_begin P s) =
      Inr (answer_header a, n, s\<lparr>unread := answer_body enc a @ concat (map (answer_on_wire enc) as) @ rest\<rparr>)"
proof -
  let ?u = "answer_body enc a @ concat (map (answer_on_wire enc) as) @ rest"
  have ok: "vw_good (view y)" "sendable a" using assms by (auto simp: awaiting_def)
  from getPending_good [OF ok(1)] obtain y' where
    y': "getPending Y y = Inr (vw_pending (view y), y')" "view y' = (view y)\<lparr>vw_pending := None, vw_woken := False\<rparr>"
    by blast
  show ?thesis
  proof (cases "vw_pending (view y)")
    case None
    then have "unread s = (case answer_header a of (nm, t, k) \<Rightarrow> enc (MessageBegin nm t k)) @ ?u"
      using assms by (simp add: awaiting_def answer_on_wire_def)
    with header_reads [OF ok(2)] obtain n where
      "Some (read_message_begin P s) = Some (Inr (answer_header a, n, s\<lparr>unread := ?u\<rparr>))" by (rule readsE)
    with y' None show ?thesis by auto
  next
    case (Some h)
    then have "h = answer_header a" "unread s = ?u" using assms by (auto simp: awaiting_def)
    with y' Some show ?thesis by auto
  qed
qed

lemma pass_own:
  assumes "awaiting view enc ((k, m, thrown) # as) rest s y"
  shows "\<exists>s' y'. concurrent_recv P Y m k s y = Some (Ended (outcome (k, m, thrown)), s', y') \<and>
    awaiting view enc as rest s' y' \<and> vw_woken (view y') \<and> vw_pending (view y') = None"
proof -
  let ?a = "(k, m, thrown)" and ?t = "s\<lparr>unread := concat (map (answer_on_wire enc) as) @ rest\<rparr>"
  from next_header [OF assms] obtain found y1 n where
    1: "getPending Y y = Inr (found, y1)" "view y1 = (view y)\<lparr>vw_pending := None, vw_woken := False\<rparr>"
      "(case found of Some h \<Rightarrow> Inr (h, 0, s) | None \<Rightarrow> read_message_begin P s) =
        Inr (answer_header ?a, n, s\<lparr>unread := answer_body enc ?a @ concat (map (answer_on_wire enc) as) @ rest\<rparr>)"
    by blast
  obtain presult where 2: "concurrent_recv P Y m = recv_pass P Y (called_name m) presult"
    "reads presult (struct_bytes enc (result_name m) []) ()" by (rule concurrent_recv_pass [of m]) blast
  obtain nm t where h: "answer_header ?a = (nm, t, k)" by (cases thrown) simp_all
  have "sendable ?a" using assms by (simp add: awaiting_def)
  from own_reply_reads [OF 2(2) this h] obtain j where
    3: "own_reply P (called_name m) presult nm t
      (s\<lparr>unread := answer_body enc ?a @ concat (map (answer_on_wire enc) as) @ rest\<rparr>) =
      Some (Inr (outcome ?a, j, ?t))"
    by (rule readsE [where r = "concat (map (answer_on_wire enc) as) @ rest"
          and s = "s\<lparr>unread := answer_body enc ?a @ concat (map (answer_on_wire enc) as) @ rest\<rparr>"]) simp_all
  let ?y = "recv_end Y True k y1"
  have "concurrent_recv P Y m k s y = Some (Ended (outcome ?a), ?t, ?y)"
    using 1 3 by (simp add: 2(1) recv_pass_def h)
  moreover have "awaiting view enc as rest ?t ?y \<and> vw_woken (view ?y) \<and> vw_pending (view ?y) = None"
    using assms 1(2) by (auto simp: awaiting_def recv_sentry)
  ultimately show ?thesis by blast
qed

lemma pass_foreign:
  assumes "awaiting view enc (a # as) rest s y" and "k \<noteq> fst a"
  shows "\<exists>s' y'. concurrent_recv P Y m k s y = Some (Waits, s', y') \<and>
    awaiting view enc (a # as) rest s' y' \<and> \<not> vw_woken (view y') \<and> vw_pending (view y') = Some (answer_header a)"
proof -
  let ?t = "s\<lparr>unread := answer_body enc a @ concat (map (answer_on_wire enc) as) @ rest\<rparr>"
  from next_header [OF assms(1)] obtain found y1 n where
    1: "getPending Y y = Inr (found, y1)" "view y1 = (view y)\<lparr>vw_pending := None, vw_woken := False\<rparr>"
      "(case found of Some h \<Rightarrow> Inr (h, 0, s) | None \<Rightarrow> read_message_begin P s) = Inr (answer_header a, n, ?t)"
    by blast
  obtain presult where 2: "concurrent_recv P Y m = recv_pass P Y (called_name m) presult"
    by (rule concurrent_recv_pass)
  obtain nm t k0 where h: "answer_header a = (nm, t, k0)" by (cases "answer_header a")
  then have k0: "k0 = fst a" using answer_header_number [of a] by simp
  obtain thrown y2 where u: "updatePending Y (answer_header a) y1 = (thrown, y2)" by fastforce
  have "fst a \<in> vw_calls (view y1)" using assms(1) 1(2) by (simp add: awaiting_def)
  with updatePending [OF u] have y2: "thrown = None" "view y2 = (view y1)\<lparr>vw_pending := Some (answer_header a)\<rparr>"
    by simp_all
  have "concurrent_recv P Y m k s y = Some (Waits, ?t, y2)"
    using 1 u y2(1) assms(2) by (simp add: 2 recv_pass_def h k0)
  moreover have "awaiting view enc (a # as) rest ?t y2"
    using assms(1) 1(2) y2(2) by (auto simp: awaiting_def)
  ultimately show ?thesis using 1(2) y2(2) by auto
qed

end

section \<open>The threads together\<close>

text \<open>
  The calls of \<open>ended\<close> have ended with their own answers, those of \<open>as\<close> are on their way, and somebody
  who waits is not forgotten.
\<close>

definition in_progress ::
  "('y \<Rightarrow> sync_view) \<Rightarrow> (item \<Rightarrow> bytes) \<Rightarrow> answer list \<Rightarrow> answer list \<Rightarrow> bytes \<Rightarrow> 'y client \<Rightarrow> bool" where
  "in_progress view enc ended as rest c \<longleftrightarrow>
     awaiting view enc as rest (cl_wire c) (cl_sync c) \<and> distinct (map fst (ended @ as)) \<and>
     dom (cl_calls c) = fst ` set (ended @ as) \<and>
     (\<forall>a \<in> set ended. cl_calls c (fst a) = Some (fst (snd a), Finished (outcome a))) \<and>
     (\<forall>a \<in> set as. \<exists>p \<in> {Sent, Waiting}. cl_calls c (fst a) = Some (fst (snd a), p)) \<and>
     ((\<exists>k m. cl_calls c k = Some (m, Waiting)) \<longrightarrow>
        vw_woken (view (cl_sync c)) \<or> vw_pending (view (cl_sync c)) \<noteq> None)"

text \<open>What bounds the number of steps: who has to end, who has to enter, and whether one was woken.\<close>

definition just_sent :: "'y client \<Rightarrow> answer \<Rightarrow> bool" where
  "just_sent c a \<longleftrightarrow> (\<exists>m. cl_calls c (fst a) = Some (m, Sent))"

definition weight :: "('y \<Rightarrow> sync_view) \<Rightarrow> answer list \<Rightarrow> 'y client \<Rightarrow> nat" where
  "weight view as c = 2 * length as + length (filter (just_sent c) as) + of_bool (vw_woken (view (cl_sync c)))"

lemma after_pass_simps [simp]:
  "cl_wire (after_pass c k m (p, s, y)) = s" "cl_sync (after_pass c k m (p, s, y)) = y"
  "cl_calls (after_pass c k m (p, s, y)) = (cl_calls c)(k \<mapsto> (m, phase_after p))"
  by (simp_all add: after_pass_def)

lemma in_progress_call:
  assumes "in_progress view enc ended as rest c" and "cl_calls c k = Some (m, p)" and "p \<in> {Sent, Waiting}"
  obtains thrown where "(k, m, thrown) \<in> set as"
proof -
  have "k \<in> fst ` set (ended @ as)" using assms(1,2) unfolding in_progress_def by blast
  then obtain a where a: "a \<in> set (ended @ as)" "fst a = k" by auto
  with assms have "a \<in> set as" "fst (snd a) = m" by (force simp: in_progress_def)+
  with a(2) show thesis by (cases a) (auto intro: that)
qed

lemma in_progress_own:
  assumes "in_progress view enc ended ((k, m, thrown) # as) rest c" and "awaiting view enc as rest s y"
    and "vw_woken (view y)"
  shows "in_progress view enc (ended @ [(k, m, thrown)]) as rest (after_pass c k m (Ended (outcome (k, m, thrown)), s, y))"
proof -
  have new: "k \<notin> fst ` set ended" "k \<notin> fst ` set as" and k: "k \<in> dom (cl_calls c)"
    using assms(1) by (auto simp: in_progress_def)
  have other: "fst a \<noteq> k" if "a \<in> set ended \<or> a \<in> set as" for a using that new by auto
  have "dom ((cl_calls c)(k \<mapsto> v)) = fst ` set ((ended @ [(k, m, thrown)]) @ as)" for v
    using assms(1) by (auto simp: in_progress_def)
  with assms other show ?thesis by (simp add: in_progress_def)
qed

lemma weight_own:
  assumes "distinct (map fst ((k, m, thrown) # as))"
  shows "weight view as (after_pass c k m (Ended r, s, y)) < weight view ((k, m, thrown) # as) c"
proof -
  have "filter (just_sent (after_pass c k m (Ended r, s, y))) as = filter (just_sent c) as"
    using assms by (intro filter_cong) (auto simp: just_sent_def)
  then show ?thesis by (simp add: weight_def)
qed

lemma in_progress_foreign:
  assumes "in_progress view enc ended as rest c" and "(k, m, thrown) \<in> set as"
    and "awaiting view enc as rest s y" and "vw_pending (view y) \<noteq> None"
  shows "in_progress view enc ended as rest (after_pass c k m (Waits, s, y))"
proof -
  have dist: "distinct (map fst as)" "k \<notin> fst ` set ended"
    using assms(1,2) by (force simp: in_progress_def)+
  have same: "fst (snd a) = m" if "a \<in> set as" "fst a = k" for a
  proof -
    have "(k, snd a) \<in> set as" using that by (cases a) auto
    from eq_key_imp_eq_value [OF dist(1) assms(2) this] show ?thesis by (metis fst_conv)
  qed
  have other: "fst a \<noteq> k" if "a \<in> set ended" for a using that dist(2) by auto
  note inv = assms(1) [unfolded in_progress_def]
  show ?thesis
    unfolding in_progress_def after_pass_simps phase_after.simps
  proof (intro conjI ballI impI)
    have "k \<in> fst ` set (ended @ as)" using assms(2) by force
    moreover have "dom (cl_calls c) = fst ` set (ended @ as)" using inv by blast
    ultimately show "dom ((cl_calls c)(k \<mapsto> (m, Waiting))) = fst ` set (ended @ as)" by auto
    show "((cl_calls c)(k \<mapsto> (m, Waiting))) (fst a) = Some (fst (snd a), Finished (outcome a))"
      if "a \<in> set ended" for a
      using inv other that by simp
    show "\<exists>p\<in>{Sent, Waiting}. ((cl_calls c)(k \<mapsto> (m, Waiting))) (fst a) = Some (fst (snd a), p)"
      if "a \<in> set as" for a
      using inv same that by (cases "fst a = k") auto
  qed (use inv assms(3,4) in blast)+
qed

lemma weight_foreign:
  assumes "(k, m, thrown) \<in> set as" and "\<not> vw_woken (view y)"
    and "cl_calls c k = Some (m, Sent) \<or> vw_woken (view (cl_sync c))"
  shows "weight view as (after_pass c k m (Waits, s, y)) < weight view as c"
proof -
  let ?c = "after_pass c k m (Waits, s, y)"
  have sub: "just_sent c a" if "just_sent ?c a" for a using that by (auto simp: just_sent_def split: if_splits)
  then have le: "length (filter (just_sent ?c) as) \<le> length (filter (just_sent c) as)"
    by (induction as) auto
  show ?thesis
  proof (cases "cl_calls c k = Some (m, Sent)")
    case True
    then have "just_sent c (k, m, thrown)" "\<not> just_sent ?c (k, m, thrown)" by (simp_all add: just_sent_def)
    with sub assms(1) have "length (filter (just_sent ?c) as) < length (filter (just_sent c) as)"
    proof (induction as)
      case (Cons a as)
      have "length (filter (just_sent ?c) as) \<le> length (filter (just_sent c) as)"
        using sub by (induction as) auto
      with Cons show ?case by auto
    qed simp
    then show ?thesis using assms(2) by (simp add: weight_def)
  next
    case False
    then show ?thesis using assms(2,3) le by (simp add: weight_def)
  qed
qed

context concurrent_client
begin

lemma pass_progress:
  assumes "in_progress view enc ended as rest c" and "(k, m, thrown) \<in> set as"
    and "view y = view (cl_sync c)" and "cl_calls c k = Some (m, Sent) \<or>
      vw_woken (view (cl_sync c)) \<or> (\<exists>h. vw_pending (view (cl_sync c)) = Some h \<and> snd (snd h) = k)"
  shows "\<exists>r. concurrent_recv P Y m k (cl_wire c) y = Some r \<and> (\<exists>ended' as'. ended' @ as' = ended @ as \<and>
    in_progress view enc ended' as' rest (after_pass c k m r) \<and> weight view as' (after_pass c k m r) < weight view as c)"
proof -
  obtain a as1 where as: "as = a # as1" using assms(2) by (cases as) auto
  have aw: "awaiting view enc as rest (cl_wire c) y" using assms(1,3) by (simp add: in_progress_def awaiting_def)
  show ?thesis
  proof (cases "k = fst a")
    case True
    have "distinct (map fst as)" using aw by (simp add: awaiting_def)
    with assms(2) as True have a: "a = (k, m, thrown)" by (cases a) force
    from pass_own [OF aw [unfolded as a]] obtain s' y' where
      p: "concurrent_recv P Y m k (cl_wire c) y = Some (Ended (outcome a), s', y')"
         "awaiting view enc as1 rest s' y'" "vw_woken (view y')" unfolding a by blast
    have "in_progress view enc (ended @ [a]) as1 rest (after_pass c k m (Ended (outcome a), s', y'))"
      unfolding a by (rule in_progress_own) (use assms(1) p(2,3) as a in simp_all)
    moreover have "weight view as1 (after_pass c k m (Ended (outcome a), s', y')) < weight view as c"
      unfolding as a by (rule weight_own) (use aw as a in \<open>auto simp: awaiting_def\<close>)
    ultimately show ?thesis using p(1) as by (intro exI conjI) auto
  next
    case False
    from pass_foreign [OF aw [unfolded as] False, of m] obtain s' y' where
      p: "concurrent_recv P Y m k (cl_wire c) y = Some (Waits, s', y')" "awaiting view enc as rest s' y'"
         "\<not> vw_woken (view y')" "vw_pending (view y') \<noteq> None" unfolding as by blast
    have "snd (snd h) = fst a" if "vw_pending (view (cl_sync c)) = Some h" for h
      using that aw assms(3) as by (auto simp: awaiting_def)
    with assms(4) False have "cl_calls c k = Some (m, Sent) \<or> vw_woken (view (cl_sync c))" by fastforce
    then have "weight view as (after_pass c k m (Waits, s', y')) < weight view as c"
      by (rule weight_foreign [where view = view, OF assms(2) p(3)])
    with in_progress_foreign [OF assms(1,2) p(2,4)] p(1) show ?thesis by (intro exI conjI) auto
  qed
qed

lemma client_step:
  assumes "in_progress view enc ended as rest c" and "cstep P Y c c'"
  shows "\<exists>ended' as'. ended' @ as' = ended @ as \<and> in_progress view enc ended' as' rest c' \<and>
    weight view as' c' < weight view as c"
proof -
  have good: "vw_good (view (cl_sync c))" using assms(1) by (simp add: in_progress_def awaiting_def)
  from assms(2) show ?thesis
  proof cases
    case (enter k m r)
    from in_progress_call [OF assms(1) enter(2)] obtain thrown where "(k, m, thrown) \<in> set as" by auto
    from pass_progress [OF assms(1) this, of "recv_begin Y k (cl_sync c)"] enter show ?thesis
      by (auto simp: recv_sentry)
  next
    case (resume k m r)
    from in_progress_call [OF assms(1) resume(2)] obtain thrown where "(k, m, thrown) \<in> set as" by auto
    from pass_progress [OF assms(1) this refl] resume waitForWork_good [OF good, of k] show ?thesis
      by (auto split: if_splits)
  next
    case (give_up k m e)
    then show ?thesis using waitForWork_good [OF good, of k] by (auto split: if_splits)
  qed
qed

lemma client_steps:
  assumes "in_progress view enc ended as rest c" and "(cstep P Y ^^ n) c c'"
  shows "\<exists>ended' as'. ended' @ as' = ended @ as \<and> in_progress view enc ended' as' rest c' \<and>
    n + weight view as' c' \<le> weight view as c"
  using assms
proof (induction n arbitrary: c ended as)
  case 0
  then show ?case by auto
next
  case (Suc n)
  then obtain c1 where c1: "cstep P Y c c1" "(cstep P Y ^^ n) c1 c'" by (metis relpowp_Suc_D2)
  from client_step [OF Suc.prems(1) c1(1)] Suc.IH [OF _ c1(2)] show ?case by fastforce
qed

text \<open>The thread that the first answer is for can always go on.\<close>

lemma can_step:
  assumes "in_progress view enc ended (a # as) rest c"
  shows "\<exists>c'. cstep P Y c c'"
proof -
  obtain k m thrown where a: "a = (k, m, thrown)" by (cases a)
  have mem: "(k, m, thrown) \<in> set (a # as)" by (simp add: a)
  from assms obtain p where p: "cl_calls c k = Some (m, p)" "p = Sent \<or> p = Waiting"
    by (auto simp: in_progress_def a)
  have good: "vw_good (view (cl_sync c))" using assms by (simp add: in_progress_def awaiting_def)
  from p(2) show ?thesis
  proof
    assume "p = Sent"
    with p(1) pass_progress [OF assms mem, of "recv_begin Y k (cl_sync c)"] show ?thesis
      by (auto simp: recv_sentry intro: cstep.enter)
  next
    assume "p = Waiting"
    with p(1) have "vw_woken (view (cl_sync c)) \<or> vw_pending (view (cl_sync c)) \<noteq> None"
      using assms by (auto simp: in_progress_def)
    moreover have "snd (snd h) = k" if "vw_pending (view (cl_sync c)) = Some h" for h
      using that assms by (auto simp: in_progress_def awaiting_def a)
    ultimately have w: "vw_woken (view (cl_sync c)) \<or> (\<exists>h. vw_pending (view (cl_sync c)) = Some h \<and> snd (snd h) = k)"
      by auto
    with p(1) \<open>p = Waiting\<close> pass_progress [OF assms mem refl] waitForWork_good [OF good, of k] show ?thesis
      by (auto intro: cstep.resume)
  qed
qed

text \<open>What is written for a call, and the answer of the server to it.\<close>

lemma concurrent_send_emits:
  assumes "concurrent_send P Y called pargs_write s y = (Inr (k, s'), y')"
    and "emits pargs_write body" and "short called"
  shows "in32 k" "k \<notin> vw_calls (view y)" "view y' = (view y)\<lparr>vw_calls := insert k (vw_calls (view y))\<rparr>"
    "s' = s\<lparr>written := written s @ call_bytes enc called T_CALL k body\<rparr>"
proof -
  from assms(1) obtain y1 where g: "generateSeqId Y y = Inr (k, y1)"
    by (auto simp: concurrent_send_def Let_def split: sum.splits prod.splits)
  note laws = seqid [OF g]
  then have "in32 k" by simp
  from emits_message [OF assms(3) this assms(2), of T_CALL] obtain n where
    "bindT (write_item P (MessageBegin called T_CALL k) s) (\<lambda>_ s. bindT (pargs_write s) (\<lambda>_ s.
       writes P [Mark MessageEnd, Mark TransportEnd, Flush] s)) =
     Inr ((), n, s\<lparr>written := written s @ call_bytes enc called T_CALL k body\<rparr>)" by (rule emitsE)
  with assms(1) g have "y' = send_end Y True (send_begin Y y1)"
    and s': "s' = s\<lparr>written := written s @ call_bytes enc called T_CALL k body\<rparr>"
    by (auto simp: concurrent_send_def)
  with laws show "in32 k" "k \<notin> vw_calls (view y)" "view y' = (view y)\<lparr>vw_calls := insert k (vw_calls (view y))\<rparr>"
    "s' = s\<lparr>written := written s @ call_bytes enc called T_CALL k body\<rparr>"
    by (simp_all add: send_sentry)
qed

lemma AccessToLogic_answered:
  assumes "concurrent_send_AccessToLogic P Y request s y = (Inr (k, s'), y')" and "short request"
    and "if_AccessToLogic F request w = Ret (thrown, w')" and "pred_option short thrown"
  shows "k \<notin> vw_calls (view y) \<and> view y' = (view y)\<lparr>vw_calls := insert k (vw_calls (view y))\<rparr> \<and>
    (\<exists>call. s' = s\<lparr>written := written s @ call\<rparr> \<and>
       serves P F call w (answer_on_wire enc (k, CallAccessToLogic, thrown)) w')"
proof -
  note sent = concurrent_send_emits [OF assms(1) [unfolded concurrent_send_AccessToLogic_def]
    AccessToLogic_pargs_emits [OF assms(2)]]
  with AccessToLogic_served [OF assms(2) _ assms(3,4), of k] show ?thesis
    by (auto simp: answer_on_wire_server struct_bytes_def)
qed

lemma LogicToAccess_answered:
  assumes "concurrent_send_LogicToAccess P Y m s y = (Inr (k, s'), y')" and "fits_message (fst m)"
    and "if_LogicToAccess F (fst m, all_set) w = Ret (thrown, w')" and "pred_option short thrown"
  shows "k \<notin> vw_calls (view y) \<and> view y' = (view y)\<lparr>vw_calls := insert k (vw_calls (view y))\<rparr> \<and>
    (\<exists>call. s' = s\<lparr>written := written s @ call\<rparr> \<and>
       serves P F call w (answer_on_wire enc (k, CallLogicToAccess, thrown)) w')"
proof -
  note sent = concurrent_send_emits [OF assms(1) [unfolded concurrent_send_LogicToAccess_def]
    LogicToAccess_pargs_emits [OF assms(2)]]
  with LogicToAccess_served [OF assms(2) _ assms(3,4), of k] show ?thesis
    by (auto simp: answer_on_wire_server struct_bytes_def)
qed

text \<open>Once a receive was not committed, nobody reads: whoever comes gets an exception.\<close>

lemma bad_connection:
  assumes "\<not> vw_good (view (cl_sync c))" and "cstep P Y c c'"
  shows "\<not> vw_good (view (cl_sync c')) \<and> cl_wire c' = cl_wire c \<and>
    (\<exists>k m p e. cl_calls c k = Some (m, p) \<and> p \<in> {Sent, Waiting} \<and>
       cl_calls c' = (cl_calls c)(k \<mapsto> (m, Finished (Some e))))"
proof -
  have pass: "\<exists>e. concurrent_recv P Y m k s y = Some (Ended (Some e), s, recv_end Y False k y)"
    if "\<not> vw_good (view y)" for m k s y
  proof -
    obtain presult where "concurrent_recv P Y m = recv_pass P Y (called_name m) presult"
      by (rule concurrent_recv_pass)
    with getPending_bad [OF that] show ?thesis by (auto simp: recv_pass_def)
  qed
  from assms(2) show ?thesis
  proof cases
    case (enter k m r)
    with pass [of "recv_begin Y k (cl_sync c)" m k "cl_wire c"] assms(1) show ?thesis
      by (fastforce simp: recv_sentry)
  next
    case (resume k m r)
    with waitForWork_bad [OF assms(1), of k] show ?thesis by auto
  next
    case (give_up k m e)
    with assms(1) show ?thesis by (fastforce simp: recv_sentry)
  qed
qed

text \<open>An answer under the name of the other method is skipped, and the receive not committed.\<close>

lemma pass_wrong_name:
  assumes "vw_good (view y)" and "vw_pending (view y) = None" and "in32 k" and "m \<noteq> m'"
    and "unread s = answer_on_wire enc (k, m', None) @ r"
  shows "\<exists>s' y'. concurrent_recv P Y m k s y = Some (Ended (Some ProtocolError), s', y') \<and> \<not> vw_good (view y')"
proof -
  let ?a = "(k, m', None)" and ?t = "s\<lparr>unread := answer_body enc (k, m', None) @ r\<rparr>"
  from getPending_good [OF assms(1)] assms(2) obtain y1 where
    y1: "getPending Y y = Inr (None, y1)" by auto
  have "sendable ?a" using assms(3) by (simp add: sendable_def)
  from header_reads [OF this] obtain n where
    n: "Some (read_message_begin P s) = Some (Inr (answer_header ?a, n, ?t))"
    by (rule readsE [where s = s and r = "answer_body enc ?a @ r"]) (use assms(5) in \<open>simp_all add: answer_on_wire_def\<close>)
  obtain presult where recv: "concurrent_recv P Y m = recv_pass P Y (called_name m) presult"
    by (rule concurrent_recv_pass)
  have "reads (\<lambda>s. Some (discard P s)) (answer_body enc ?a) ()"
    unfolding discard_def answer_body.simps
    by (rule reads_bindT [OF skips_struct [of "[]", simplified]]) (rule reads_end)
  then obtain j where "Some (discard P ?t) = Some (Inr ((), j, s\<lparr>unread := r\<rparr>))"
    by (rule readsE [where s = ?t and r = r]) simp_all
  moreover have "called_name m' \<noteq> called_name m"
    using assms(4) method_names by (cases m; cases m') auto
  ultimately have "own_reply P (called_name m) presult (called_name m') T_REPLY ?t = Some (Inl ProtocolError)"
    by (simp add: own_reply_def bindO.simps(3))
  with y1 n have "concurrent_recv P Y m k s y = Some (Ended (Some ProtocolError), ?t, recv_end Y False k y1)"
    by (simp add: recv recv_pass_def)
  then show ?thesis by (auto simp: recv_sentry)
qed

end

section \<open>A synchronisation object\<close>

text \<open>The object with what it holds written out, and numbers counted up.\<close>

record sync_state = sync_view +
  st_next :: i32

definition simple_sync :: "sync_state sync" where
  "simple_sync =
     \<lparr>generateSeqId = \<lambda>y.
        (if in32 (st_next y) \<and> st_next y \<notin> vw_calls y
         then Inr (st_next y, y\<lparr>vw_calls := insert (st_next y) (vw_calls y), st_next := st_next y + 1\<rparr>)
         else Inl (ApplicationError (ascii ''about to repeat a seqid''))),
      send_begin = \<lambda>y. y, send_end = \<lambda>ok y. y\<lparr>vw_good := vw_good y \<and> ok\<rparr>,
      recv_begin = \<lambda>k y. y,
      recv_end = \<lambda>ok k y. y\<lparr>vw_good := vw_good y \<and> ok, vw_calls := vw_calls y - {k},
        vw_woken := vw_woken y \<or> ok\<rparr>,
      getPending = \<lambda>y. (if vw_good y then Inr (vw_pending y, y\<lparr>vw_pending := None, vw_woken := False\<rparr>)
        else Inl TransportError),
      updatePending = \<lambda>h y. (if snd (snd h) \<in> vw_calls y then None else Some (ApplicationError (ascii ''bad seqid'')),
        y\<lparr>vw_pending := Some h\<rparr>),
      waitForWork = \<lambda>k y. (if \<not> vw_good y then Some (Some TransportError)
        else if vw_woken y \<or> (case vw_pending y of None \<Rightarrow> False | Some h \<Rightarrow> snd (snd h) = k) then Some None
        else None)\<rparr>"

interpretation simple: concurrent_sync simple_sync sync_view.truncate
  by unfold_locales
    (auto simp: simple_sync_def sync_view.truncate_def split: if_splits option.splits)

interpretation simple_client: concurrent_client binary_protocol binary_item simple_sync sync_view.truncate
  by unfold_locales

section \<open>Properties\<close>

text \<open>The client when every call was sent and none was received; \<open>as\<close> are the answers in the order they come in.\<close>

definition all_sent :: "('y \<Rightarrow> sync_view) \<Rightarrow> answer list \<Rightarrow> 'y client \<Rightarrow> bool" where
  "all_sent view as c \<longleftrightarrow>
     vw_good (view (cl_sync c)) \<and> vw_pending (view (cl_sync c)) = None \<and>
     vw_calls (view (cl_sync c)) = fst ` set as \<and> distinct (map fst as) \<and> list_all sendable as \<and>
     cl_calls c = map_of (map (\<lambda>(k, m, thrown). (k, (m, Sent))) as)"

lemma all_sent_call:
  "distinct (map fst as) \<Longrightarrow> a \<in> set as \<Longrightarrow>
   map_of (map (\<lambda>(k, m, thrown). (k, (m, Sent))) as) (fst a) = Some (fst (snd a), Sent)"
  by (induction as) (auto split: prod.splits)

lemma all_sent_in_progress:
  assumes "all_sent view as c" and "unread (cl_wire c) = concat (map (answer_on_wire enc) as) @ rest"
  shows "in_progress view enc [] as rest c" and "weight view as c \<le> 3 * length as + 1"
proof -
  have "dom (cl_calls c) = fst ` set as"
    using assms(1) by (auto simp: all_sent_def dom_map_of_conv_image_fst image_image split_def)
  moreover have "cl_calls c k \<noteq> Some (m, Waiting)" for k m
    using assms(1) by (auto simp: all_sent_def dest!: map_of_SomeD)
  moreover have "\<forall>a \<in> set as. cl_calls c (fst a) = Some (fst (snd a), Sent)"
    using assms(1) all_sent_call by (auto simp: all_sent_def)
  ultimately show "in_progress view enc [] as rest c"
    using assms by (simp add: in_progress_def awaiting_def all_sent_def)
  show "weight view as c \<le> 3 * length as + 1"
    using length_filter_le [of "just_sent c" as] by (simp add: weight_def le_SucI)
qed

text \<open>
  C11: Threads that share a connection each get the answer to their own call, in whatever order the answers
  come in and the threads run: a call that has ended has returned or thrown as its handler did, as long as one
  has not ended some thread can go on, and after three steps for each call and one more all have ended, with
  the answers read off the wire and nothing behind them.
\<close>

theorem concurrent_answers_delivered:
  assumes "thrift_protocol P enc" and "concurrent_sync Y view" and "all_sent view as c"
    and "unread (cl_wire c) = concat (map (answer_on_wire enc) as) @ rest" and "(cstep P Y ^^ n) c c'"
  shows "n \<le> 3 * length as + 1 \<and>
    (\<forall>(k, m, thrown) \<in> set as. \<forall>m' r. cl_calls c' k = Some (m', Finished r) \<longrightarrow>
       m' = m \<and> r = map_option ApplicationError thrown) \<and>
    ((\<exists>c''. cstep P Y c' c'') \<or> unread (cl_wire c') = rest \<and>
       (\<forall>(k, m, thrown) \<in> set as. cl_calls c' k = Some (m, Finished (map_option ApplicationError thrown))))"
proof -
  have cc: "concurrent_client P enc Y view" using assms(1,2) by (rule concurrent_client.intro)
  note start = all_sent_in_progress [OF assms(3,4)]
  from concurrent_client.client_steps [OF cc start(1) assms(5)] obtain ended left where
    split: "ended @ left = as" and inv: "in_progress view enc ended left rest c'"
    and n: "n + weight view left c' \<le> weight view as c" by auto
  have ended: "cl_calls c' k = Some (m, Finished (map_option ApplicationError thrown))"
    if "(k, m, thrown) \<in> set ended" for k m thrown
    using that inv by (fastforce simp: in_progress_def outcome_def)
  have on_way: "\<exists>p \<in> {Sent, Waiting}. cl_calls c' k = Some (m, p)" if "(k, m, thrown) \<in> set left" for k m thrown
    using that inv by (fastforce simp: in_progress_def)
  have "(\<exists>c''. cstep P Y c' c'') \<or> left = []"
    using concurrent_client.can_step [OF cc] inv by (cases left) auto
  moreover have "unread (cl_wire c') = rest" if "left = []"
    using inv that by (auto simp: in_progress_def awaiting_def split: option.splits)
  moreover have "n \<le> 3 * length as + 1" using n start(2) by linarith
  ultimately show ?thesis using ended on_way split by fastforce
qed

definition demo_answers :: "answer list" where
  "demo_answers = [(2, CallLogicToAccess, Some [110, 111]), (1, CallAccessToLogic, None)]"

definition demo_client :: "sync_state client" where
  "demo_client =
     \<lparr>cl_wire = \<lparr>unread = concat (map (answer_on_wire binary_item) demo_answers), written = []\<rparr>,
      cl_sync = \<lparr>vw_good = True, vw_calls = {1, 2}, vw_pending = None, vw_woken = False, st_next = 3\<rparr>,
      cl_calls = [1 \<mapsto> (CallAccessToLogic, Sent), 2 \<mapsto> (CallLogicToAccess, Sent)]\<rparr>"

lemma demo_client_sent: "all_sent sync_view.truncate demo_answers demo_client"
  by (auto simp: all_sent_def demo_client_def demo_answers_def sync_view.truncate_def sendable_def
      in32_def short_def fun_eq_iff)

theorem concurrent_answers_delivered_witness:
  "\<exists>c' n. (cstep binary_protocol simple_sync ^^ n) demo_client c' \<and>
     cl_calls c' 1 = Some (CallAccessToLogic, Finished None) \<and>
     cl_calls c' 2 = Some (CallLogicToAccess, Finished (Some (ApplicationError [110, 111])))"
proof -
  let ?run = "\<lambda>n. \<exists>c'. (cstep binary_protocol simple_sync ^^ n) demo_client c'"
  have "unread (cl_wire demo_client) = concat (map (answer_on_wire binary_item) demo_answers) @ []"
    by (simp add: demo_client_def)
  note facts = concurrent_answers_delivered [OF binary.thrift_protocol_axioms simple.concurrent_sync_axioms
      demo_client_sent this]
  have "?run 0" by simp
  moreover have "\<forall>n. ?run n \<longrightarrow> n \<le> 3 * length demo_answers + 1" using facts by blast
  ultimately have "\<exists>n. ?run n \<and> (\<forall>m. ?run m \<longrightarrow> m \<le> n)" by (rule Nat.ex_has_greatest_nat)
  then obtain n where n: "?run n" "\<And>m. ?run m \<Longrightarrow> m \<le> n" by blast
  then obtain c' where c': "(cstep binary_protocol simple_sync ^^ n) demo_client c'" by blast
  have "\<not> cstep binary_protocol simple_sync c' c''" for c''
    using n(2) [of "Suc n"] c' by (meson Suc_n_not_le_n relpowp_Suc_I)
  with facts [OF c'] have "\<forall>(k, m, thrown) \<in> set demo_answers.
      cl_calls c' k = Some (m, Finished (map_option ApplicationError thrown))" by blast
  with c' show ?thesis by (auto simp: demo_answers_def)
qed

text \<open>
  A call sent over a shared connection gets a number that no open call has; the server reads that one call,
  runs the handler on the bytes that were sent, and answers with the same number.
\<close>

theorem concurrent_request_answered:
  assumes "thrift_protocol P enc" and "concurrent_sync Y view" and "short request"
    and "concurrent_send_AccessToLogic P Y request s y = (Inr (k, s'), y')"
    and "if_AccessToLogic F request w = Ret (thrown, w')" and "pred_option short thrown"
  shows "k \<notin> vw_calls (view y) \<and> view y' = (view y)\<lparr>vw_calls := insert k (vw_calls (view y))\<rparr> \<and>
    (\<exists>call. s' = s\<lparr>written := written s @ call\<rparr> \<and>
       serves P F call w (answer_on_wire enc (k, CallAccessToLogic, thrown)) w')"
  using concurrent_client.AccessToLogic_answered [OF concurrent_client.intro [OF assms(1,2)] assms(4,3,5,6)] .

definition demo_handler :: "bytes list iface" where
  "demo_handler = \<lparr>if_AccessToLogic = (\<lambda>r w. Ret (None, w @ [r])), if_LogicToAccess = (\<lambda>m w. Ret (None, w))\<rparr>"

theorem concurrent_request_answered_witness:
  "\<exists>s' y' call. concurrent_send_AccessToLogic binary_protocol simple_sync [7, 8]
       \<lparr>unread = [], written = []\<rparr> (cl_sync demo_client) = (Inr (3, s'), y') \<and>
     written s' = call \<and>
     serves binary_protocol demo_handler call [] (answer_on_wire binary_item (3, CallAccessToLogic, None)) [[7, 8]]"
proof -
  let ?send = "concurrent_send_AccessToLogic binary_protocol simple_sync [7, 8]
    \<lparr>unread = [], written = []\<rparr> (cl_sync demo_client)"
  have "case ?send of (Inl e, y) \<Rightarrow> False | (Inr (k, s), y) \<Rightarrow> k = 3" by code_simp
  then obtain s' y' where sent: "?send = (Inr (3, s'), y')" by (auto split: prod.splits sum.splits)
  have "short [7, 8]" by (simp add: short_def)
  from concurrent_request_answered [OF binary.thrift_protocol_axioms simple.concurrent_sync_axioms this sent,
      of demo_handler "[]" None "[[7, 8]]"] sent show ?thesis
    by (auto simp: demo_handler_def)
qed

text \<open>
  An answer under the name of the other method ends the call with an exception, and the connection with it:
  from then on no thread reads, and every step ends a call with an exception.
\<close>

theorem wrong_name_ends_connection:
  assumes "thrift_protocol P enc" and "concurrent_sync Y view"
    and "cl_calls c k = Some (m, Sent)" and "vw_good (view (cl_sync c))" and "vw_pending (view (cl_sync c)) = None"
    and "unread (cl_wire c) = answer_on_wire enc (k, m', None) @ r" and "in32 k" and "m \<noteq> m'"
  shows "\<exists>c1. cstep P Y c c1 \<and> cl_calls c1 = (cl_calls c)(k \<mapsto> (m, Finished (Some ProtocolError))) \<and>
    (\<forall>c2 c3. (cstep P Y)\<^sup>*\<^sup>* c1 c2 \<and> cstep P Y c2 c3 \<longrightarrow> cl_wire c3 = cl_wire c1 \<and>
       (\<exists>k m p e. cl_calls c2 k = Some (m, p) \<and> p \<in> {Sent, Waiting} \<and>
          cl_calls c3 = (cl_calls c2)(k \<mapsto> (m, Finished (Some e)))))"
proof -
  have cc: "concurrent_client P enc Y view" using assms(1,2) by (rule concurrent_client.intro)
  let ?y = "recv_begin Y k (cl_sync c)"
  have view: "view ?y = view (cl_sync c)" using assms(2) by (simp add: concurrent_sync.recv_sentry)
  from concurrent_client.pass_wrong_name [OF cc _ _ assms(7,8,6), of ?y] assms(4,5) view obtain s' y' where
    p: "concurrent_recv P Y m k (cl_wire c) ?y = Some (Ended (Some ProtocolError), s', y')" "\<not> vw_good (view y')"
    by auto
  let ?c1 = "after_pass c k m (Ended (Some ProtocolError), s', y')"
  have "cstep P Y c ?c1" by (rule cstep.enter [OF assms(3) p(1)])
  moreover have bad: "\<not> vw_good (view (cl_sync c2)) \<and> cl_wire c2 = cl_wire ?c1" if "(cstep P Y)\<^sup>*\<^sup>* ?c1 c2" for c2
    using that
  proof induction
    case (step c2 c3)
    with concurrent_client.bad_connection [OF cc, of c2 c3] show ?case by simp
  qed (simp add: p(2))
  moreover have "cl_wire c3 = cl_wire ?c1 \<and> (\<exists>k m p e. cl_calls c2 k = Some (m, p) \<and> p \<in> {Sent, Waiting} \<and>
      cl_calls c3 = (cl_calls c2)(k \<mapsto> (m, Finished (Some e))))"
    if "(cstep P Y)\<^sup>*\<^sup>* ?c1 c2" "cstep P Y c2 c3" for c2 c3
    using concurrent_client.bad_connection [OF cc _ that(2)] bad [OF that(1)] by metis
  ultimately show ?thesis by (intro exI [of _ ?c1] conjI) auto
qed

theorem wrong_name_ends_connection_witness:
  "\<exists>c1. cstep binary_protocol simple_sync (demo_client\<lparr>cl_wire := \<lparr>unread =
       answer_on_wire binary_item (2, CallAccessToLogic, None), written = []\<rparr>\<rparr>) c1 \<and>
     cl_calls c1 2 = Some (CallLogicToAccess, Finished (Some ProtocolError)) \<and>
     cl_calls c1 1 = Some (CallAccessToLogic, Sent)"
proof -
  let ?c = "demo_client\<lparr>cl_wire := \<lparr>unread = answer_on_wire binary_item (2, CallAccessToLogic, None), written = []\<rparr>\<rparr>"
  from wrong_name_ends_connection [OF binary.thrift_protocol_axioms simple.concurrent_sync_axioms,
      of ?c 2 CallLogicToAccess CallAccessToLogic "[]"]
  show ?thesis by (auto simp: demo_client_def sync_view.truncate_def in32_def)
qed

end
