(* ===== verification/Multiface.thy ===== *)
theory Multiface
  imports Thrift
begin

text \<open>
  \<open>LogicInterfaceMultiface\<close> and \<open>LogicInterfaceNull\<close> of \<open>src/thrift/LogicInterface.h\<close>: an interface that passes
  each call on to a vector of interfaces, and one that does nothing. The server does not create them.
\<close>

definition null_iface :: "'w iface" where
  "null_iface = \<lparr>if_AccessToLogic = \<lambda>request w. Ret (None, w), if_LogicToAccess = \<lambda>response w. Ret (None, w)\<rparr>"

text \<open>\<open>ifaces_[i]\<close> is not checked. A handler that throws ends the loop.\<close>

definition iface_at :: "'w iface list \<Rightarrow> u64 \<Rightarrow> 'w iface res" where
  "iface_at ifaces i = (if unat i < length ifaces then Ret (ifaces ! unat i) else Fault OutOfBounds)"

lemma unat_less_step:
  fixes i n :: u64
  assumes "i < n"
  shows "unat (n - (i + 1)) < unat (n - i)"
proof -
  have nz: "n - i \<noteq> 0" using assms by simp
  then have "0 < unat (n - i)" by (simp add: unat_gt_0)
  moreover have "unat (n - (i + 1)) = unat (n - i) - 1"
    using unat_minus_one [OF nz] by (simp only: diff_diff_eq)
  ultimately show ?thesis by linarith
qed

function multiface_loop ::
  "('w iface \<Rightarrow> 'w \<Rightarrow> (bytes option \<times> 'w) res) \<Rightarrow> 'w iface list \<Rightarrow> u64 \<Rightarrow> u64 \<Rightarrow> 'w \<Rightarrow> (bytes option \<times> 'w) res" where
  "multiface_loop call ifaces sz i w =
     (if i < sz - 1
      then (case iface_at ifaces i of
          Fault f \<Rightarrow> Fault f
        | Ret iface \<Rightarrow> (case call iface w of
            Fault f \<Rightarrow> Fault f
          | Ret (Some what, w) \<Rightarrow> Ret (Some what, w)
          | Ret (None, w) \<Rightarrow> multiface_loop call ifaces sz (i + 1) w))
      else bindR (iface_at ifaces i) (\<lambda>iface. call iface w))"
  by auto

termination
  by (relation "measure (\<lambda>(call, ifaces, sz, i, w). unat (sz - 1 - i))")
    (simp, simp only: in_measure split_conv, rule unat_less_step)

declare multiface_loop.simps [simp del]

definition multiface :: "'w iface list \<Rightarrow> 'w iface" where
  "multiface ifaces = (let sz = word_of_nat (length ifaces) in
     \<lparr>if_AccessToLogic = \<lambda>request. multiface_loop (\<lambda>f. if_AccessToLogic f request) ifaces sz 0,
      if_LogicToAccess = \<lambda>response. multiface_loop (\<lambda>f. if_LogicToAccess f response) ifaces sz 0\<rparr>)"

section \<open>The calls in order\<close>

fun call_in_order :: "('i \<Rightarrow> 'w \<Rightarrow> (bytes option \<times> 'w) res) \<Rightarrow> 'i list \<Rightarrow> 'w \<Rightarrow> (bytes option \<times> 'w) res" where
  "call_in_order call [] w = Ret (None, w)"
| "call_in_order call (f # fs) w = bindR (call f w) (\<lambda>(thrown, w).
     if thrown = None then call_in_order call fs w else Ret (thrown, w))"

lemma call_in_order_single: "call_in_order call [f] w = call f w"
  by (cases "call f w") auto

lemma multiface_loop_in_order:
  assumes "n < length ifaces" and "length ifaces < 2 ^ 64"
  shows "multiface_loop call ifaces (word_of_nat (length ifaces)) (word_of_nat n) w =
    call_in_order call (drop n ifaces) w"
  using assms(1)
proof (induction "length ifaces - n" arbitrary: n w)
  case 0
  then show ?case by simp
next
  case (Suc d)
  have small: "unat (word_of_nat k :: u64) = k" if "k < 2 ^ 64" for k
    using that by (simp add: unat_of_nat)
  then have n: "unat (word_of_nat n :: u64) = n" using Suc.prems assms(2) by simp
  have last: "(word_of_nat (length ifaces) :: u64) - 1 = word_of_nat (length ifaces - 1)"
    using Suc.prems of_nat_diff [of 1 "length ifaces", where 'a = u64] by simp
  have "length ifaces - 1 < 2 ^ 64" using assms(2) by simp
  then have cond: "(word_of_nat n :: u64) < word_of_nat (length ifaces) - 1 \<longleftrightarrow> n < length ifaces - 1"
    unfolding last word_less_nat_alt by (simp only: small n)
  have at: "iface_at ifaces (word_of_nat n) = Ret (ifaces ! n)"
    using Suc.prems by (simp add: iface_at_def n)
  have drop: "drop n ifaces = ifaces ! n # drop (Suc n) ifaces"
    using Suc.prems by (rule Cons_nth_drop_Suc [symmetric])
  show ?case
  proof (cases "n < length ifaces - 1")
    case True
    have "multiface_loop call ifaces (word_of_nat (length ifaces)) (word_of_nat n + 1) v =
        call_in_order call (drop (Suc n) ifaces) v" for v
      using Suc.hyps(1) [of "Suc n" v] Suc.hyps(2) True by (simp add: add.commute)
    with True show ?thesis
      by (subst multiface_loop.simps) (simp add: cond at drop split: res.splits option.splits)
  next
    case False
    with Suc.prems have "drop n ifaces = [ifaces ! n]" by (simp add: drop)
    with False show ?thesis
      by (subst multiface_loop.simps) (simp add: cond at call_in_order_single del: call_in_order.simps)
  qed
qed

lemma multiface_loop_empty: "multiface_loop call [] 0 0 w = Fault OutOfBounds"
  by (subst multiface_loop.simps) (simp add: iface_at_def)

section \<open>Properties\<close>

text \<open>
  A multi-interface calls its interfaces in order, each once, up to the first that throws; with no
  interface at all it reads outside its vector, because the bound \<open>sz - 1\<close> wraps around.
\<close>

theorem multiface_calls_in_order:
  assumes "length ifaces < 2 ^ 64"
  shows "if_AccessToLogic (multiface ifaces) request w =
      (if ifaces = [] then Fault OutOfBounds else call_in_order (\<lambda>f. if_AccessToLogic f request) ifaces w) \<and>
    if_LogicToAccess (multiface ifaces) response w =
      (if ifaces = [] then Fault OutOfBounds else call_in_order (\<lambda>f. if_LogicToAccess f response) ifaces w)"
proof -
  have "multiface_loop call ifaces (word_of_nat (length ifaces)) 0 w =
      (if ifaces = [] then Fault OutOfBounds else call_in_order call ifaces w)" for call
    using multiface_loop_in_order [of 0 ifaces call w] assms by (simp add: multiface_loop_empty)
  then show ?thesis by (simp add: multiface_def Let_def)
qed

definition recording_iface :: "u8 \<Rightarrow> bytes option \<Rightarrow> bytes iface" where
  "recording_iface x thrown =
     \<lparr>if_AccessToLogic = \<lambda>request w. Ret (thrown, w @ x # request), if_LogicToAccess = \<lambda>response w. Ret (thrown, w)\<rparr>"

theorem multiface_calls_in_order_witness:
  "if_AccessToLogic (multiface [recording_iface 1 None, null_iface, recording_iface 2 (Some [33]), recording_iface 3 None])
     [9] [] = Ret (Some [33], [1, 9, 2, 9])"
  using multiface_calls_in_order
    [of "[recording_iface 1 None, null_iface, recording_iface 2 (Some [33]), recording_iface 3 None]" "[9]" "[]"]
  by (simp add: recording_iface_def null_iface_def)

end
