(* ===== verification/ThriftClient.thy ===== *)
theory ThriftClient
  imports Service Concurrent Multiface Meter
begin

text \<open>
  The client objects of \<open>src/thrift/LogicInterface.h\<close> with their whole calls (\<open>LogicInterface.cpp\<close>), and the
  factories of handlers and processors. A client has a protocol to read from and one to write to, often the same:
  protocols are addresses of wires. While a client waits for its answer the others run: that is the parameter
  \<open>peer\<close>, on the wires and the state \<open>'w\<close> of the server.
\<close>

section \<open>The client\<close>

record client_object =
  piprot :: nat
  poprot :: nat
  iprot :: nat
  oprot :: nat

definition setProtocol :: "nat \<Rightarrow> nat \<Rightarrow> client_object \<Rightarrow> client_object" where
  "setProtocol i out c =
     (let c = c\<lparr>piprot := i\<rparr>; c = c\<lparr>poprot := out\<rparr>; c = c\<lparr>iprot := piprot c\<rparr> in c\<lparr>oprot := poprot c\<rparr>)"

definition setProtocol_both :: "nat \<Rightarrow> client_object \<Rightarrow> client_object" where
  "setProtocol_both prot = setProtocol prot prot"

text \<open>The constructors; \<open>raw\<close> is the object before its body.\<close>

definition LogicInterfaceClient_new :: "nat \<Rightarrow> client_object \<Rightarrow> client_object" where
  "LogicInterfaceClient_new prot raw = setProtocol_both prot raw"

definition LogicInterfaceClient_new2 :: "nat \<Rightarrow> nat \<Rightarrow> client_object \<Rightarrow> client_object" where
  "LogicInterfaceClient_new2 i out raw = setProtocol i out raw"

definition getInputProtocol :: "client_object \<Rightarrow> nat" where
  "getInputProtocol c = piprot c"

definition getOutputProtocol :: "client_object \<Rightarrow> nat" where
  "getOutputProtocol c = poprot c"

type_synonym 'w peer = "(nat \<Rightarrow> wire) \<times> 'w \<Rightarrow> (nat \<Rightarrow> wire) \<times> 'w"

text \<open>
  A call: send, then receive. It ends with an exception or the wires after it; \<open>None\<close> is a
  receive that never ends.
\<close>

definition client_call ::
  "(wire \<Rightarrow> unit io) \<Rightarrow> (wire \<Rightarrow> unit io option) \<Rightarrow> 'w peer \<Rightarrow> client_object \<Rightarrow> (nat \<Rightarrow> wire) \<times> 'w \<Rightarrow>
   ((texn + (nat \<Rightarrow> wire)) \<times> 'w) option" where
  "client_call send recv peer c x =
     (case x of (ws, w) \<Rightarrow>
      case send (ws (oprot c)) of
        Inl e \<Rightarrow> Some (Inl e, w)
      | Inr (u, n, s) \<Rightarrow>
        (case peer (ws(oprot c := s), w) of (ws, w) \<Rightarrow>
         map_option (\<lambda>r. (map_sum id (\<lambda>(u, n, s). ws(iprot c := s)) r, w)) (recv (ws (iprot c)))))"

definition LogicInterfaceClient_AccessToLogic ::
  "protocol \<Rightarrow> 'w peer \<Rightarrow> bytes \<Rightarrow> client_object \<Rightarrow> (nat \<Rightarrow> wire) \<times> 'w \<Rightarrow> ((texn + (nat \<Rightarrow> wire)) \<times> 'w) option" where
  "LogicInterfaceClient_AccessToLogic P peer request =
     client_call (send_AccessToLogic P request) (recv_AccessToLogic P) peer"

definition LogicInterfaceClient_LogicToAccess ::
  "protocol \<Rightarrow> 'w peer \<Rightarrow> access_object \<Rightarrow> client_object \<Rightarrow> (nat \<Rightarrow> wire) \<times> 'w \<Rightarrow> ((texn + (nat \<Rightarrow> wire)) \<times> 'w) option" where
  "LogicInterfaceClient_LogicToAccess P peer response =
     client_call (send_LogicToAccess P response) (recv_LogicToAccess P) peer"

section \<open>The client of several threads\<close>

text \<open>
  The calls of \<open>LogicInterfaceConcurrentClient\<close> up to their receive, with the number it is called with, or the
  exception of the send; the steps of the receive are those of \<open>Concurrent\<close>.
\<close>

definition start_call ::
  "called \<Rightarrow> (wire \<Rightarrow> 'y \<Rightarrow> (texn + i32 \<times> wire) \<times> 'y) \<Rightarrow> 'y client \<Rightarrow> (texn + i32) \<times> 'y client" where
  "start_call m send c =
     (case send (cl_wire c) (cl_sync c) of
        (Inl e, y) \<Rightarrow> (Inl e, c\<lparr>cl_sync := y\<rparr>)
      | (Inr (seqid, s), y) \<Rightarrow>
        (Inr seqid, \<lparr>cl_wire = s, cl_sync = y, cl_calls = (cl_calls c)(seqid \<mapsto> (m, Sent))\<rparr>))"

definition LogicInterfaceConcurrentClient_AccessToLogic ::
  "protocol \<Rightarrow> 'y sync \<Rightarrow> bytes \<Rightarrow> 'y client \<Rightarrow> (texn + i32) \<times> 'y client" where
  "LogicInterfaceConcurrentClient_AccessToLogic P Y request =
     start_call CallAccessToLogic (concurrent_send_AccessToLogic P Y request)"

definition LogicInterfaceConcurrentClient_LogicToAccess ::
  "protocol \<Rightarrow> 'y sync \<Rightarrow> access_object \<Rightarrow> 'y client \<Rightarrow> (texn + i32) \<times> 'y client" where
  "LogicInterfaceConcurrentClient_LogicToAccess P Y response =
     start_call CallLogicToAccess (concurrent_send_LogicToAccess P Y response)"

section \<open>Factories\<close>

text \<open>\<open>LogicInterfaceIfFactory\<close> on a state \<open>'f\<close>; \<open>'c\<close> is the library's description of a connection.\<close>

record ('c, 'f, 'w) handler_factory =
  getHandler :: "'c \<Rightarrow> 'f \<Rightarrow> 'w iface \<times> 'f"
  releaseHandler :: "'w iface \<Rightarrow> 'f \<Rightarrow> 'f"

definition LogicInterfaceIfSingletonFactory :: "'w iface \<Rightarrow> ('c, 'f, 'w) handler_factory" where
  "LogicInterfaceIfSingletonFactory F =
     \<lparr>getHandler = \<lambda>connInfo f. (F, f), releaseHandler = \<lambda>handler f. f\<rparr>"

text \<open>A processor, and what runs when the last pointer to it is gone: the deleter of its handler.\<close>

record ('f, 'w) processor =
  pr_dispatch :: "bytes \<Rightarrow> i32 \<Rightarrow> wire \<Rightarrow> 'w \<Rightarrow> 'w served"
  pr_cleanup :: "'f \<Rightarrow> 'f"

definition getProcessor ::
  "protocol \<Rightarrow> ('c, 'f, 'w) handler_factory \<Rightarrow> 'c \<Rightarrow> 'f \<Rightarrow> ('f, 'w) processor \<times> 'f" where
  "getProcessor P factory connInfo f =
     (case getHandler factory connInfo f of (handler, f) \<Rightarrow>
      (\<lparr>pr_dispatch = dispatchCall P handler, pr_cleanup = releaseHandler factory handler\<rparr>, f))"

lemma getProcessor_singleton:
  "getProcessor P (LogicInterfaceIfSingletonFactory F) connInfo f =
    (\<lparr>pr_dispatch = dispatchCall P F, pr_cleanup = \<lambda>f. f\<rparr>, f)"
  by (simp add: getProcessor_def LogicInterfaceIfSingletonFactory_def)

section \<open>A connection\<close>

text \<open>Nothing is on the way on the wires of the client.\<close>

definition at_rest :: "client_object \<Rightarrow> (nat \<Rightarrow> wire) \<Rightarrow> bool" where
  "at_rest c ws \<longleftrightarrow> unread (ws (iprot c)) = [] \<and> written (ws (oprot c)) = []"

text \<open>The wires when what was written has gone out and an answer has come in.\<close>

definition delivered :: "client_object \<Rightarrow> bytes \<Rightarrow> (nat \<Rightarrow> wire) \<Rightarrow> (nat \<Rightarrow> wire)" where
  "delivered c reply ws =
     (let ws = ws(oprot c := (ws (oprot c))\<lparr>written := []\<rparr>) in
      ws(iprot c := (ws (iprot c))\<lparr>unread := unread (ws (iprot c)) @ reply\<rparr>))"

text \<open>What a client relies on: the other end is a server with the interface \<open>F\<close> that reads what was sent.\<close>

definition connected :: "protocol \<Rightarrow> 'w iface \<Rightarrow> client_object \<Rightarrow> 'w peer \<Rightarrow> bool" where
  "connected P F c peer \<longleftrightarrow>
     (\<forall>ws w reply w'. serves P F (written (ws (oprot c))) w reply w' \<longrightarrow> peer (ws, w) = (delivered c reply ws, w'))"

lemma client_call_served:
  assumes "emits send call" and "serves P F call w reply w'" and "client_sees recv reply thrown"
    and "connected P F c peer" and "at_rest c ws"
  shows "\<exists>r. client_call send recv peer c (ws, w) = Some (r, w') \<and>
    (case thrown of None \<Rightarrow> (\<exists>ws'. r = Inr ws' \<and> at_rest c ws' \<and> (\<forall>p. p \<notin> {iprot c, oprot c} \<longrightarrow> ws' p = ws p))
     | Some what \<Rightarrow> r = Inl (ApplicationError what))"
proof -
  from assms(1) obtain n where
    "send (ws (oprot c)) = Inr ((), n, (ws (oprot c))\<lparr>written := written (ws (oprot c)) @ call\<rparr>)"
    unfolding emits_def by blast
  with assms(5) have n: "send (ws (oprot c)) = Inr ((), n, (ws (oprot c))\<lparr>written := call\<rparr>)"
    by (simp add: at_rest_def)
  let ?ws = "ws(oprot c := (ws (oprot c))\<lparr>written := call\<rparr>)" and ?ws' = "delivered c reply"
  have peer: "peer (?ws, w) = (?ws' ?ws, w')"
    using assms(2,4) by (simp add: connected_def)
  have u: "unread (?ws' ?ws (iprot c)) = reply @ []"
    using assms(5) by (auto simp: delivered_def Let_def at_rest_def)
  show ?thesis
  proof (cases thrown)
    case None
    with assms(3) u obtain k where "recv (?ws' ?ws (iprot c)) = Some (Inr ((), k, (?ws' ?ws (iprot c))\<lparr>unread := []\<rparr>))"
      by (fastforce simp: client_sees_def reads_def)
    with n peer None assms(5) show ?thesis
      by (auto simp: client_call_def at_rest_def delivered_def Let_def)
  next
    case (Some what)
    with assms(3) u have "recv (?ws' ?ws (iprot c)) = Some (Inl (ApplicationError what))"
      by (simp add: client_sees_def)
    with n peer Some show ?thesis by (simp add: client_call_def)
  qed
qed

text \<open>A server at the other end that reads one call and dispatches it.\<close>

definition server_end :: "protocol \<Rightarrow> 'w iface \<Rightarrow> client_object \<Rightarrow> 'w peer" where
  "server_end P F c = (\<lambda>(ws, w).
     case read_message_begin P \<lparr>unread = written (ws (oprot c)), written = []\<rparr> of
       Inr ((fname, mtype, seqid), n, t) \<Rightarrow>
         (case dispatchCall P F fname seqid t w of
            Some (Ret (Inr s, w')) \<Rightarrow> (delivered c (written s) ws, w')
          | _ \<Rightarrow> (ws, w))
     | _ \<Rightarrow> (ws, w))"

lemma connected_server_end: "connected P F c (server_end P F c)"
  unfolding connected_def
proof (intro allI impI)
  fix ws :: "nat \<Rightarrow> wire" and w reply w'
  assume "serves P F (written (ws (oprot c))) w reply w'"
  then obtain fname seqid n t where
    "read_message_begin P \<lparr>unread = written (ws (oprot c)), written = []\<rparr> = Inr ((fname, T_CALL, seqid), n, t)"
    "dispatchCall P F fname seqid t w = Some (Ret (Inr \<lparr>unread = [], written = reply\<rparr>, w'))"
    unfolding serves_def by (metis append.right_neutral append_Nil wire.select_convs(1,2) wire.update_convs(1,2))
  then show "server_end P F c (ws, w) = (delivered c reply ws, w')" by (simp add: server_end_def)
qed

section \<open>Calls one after the other\<close>

fun client_calls ::
  "('a \<Rightarrow> (nat \<Rightarrow> wire) \<times> 'w \<Rightarrow> ((texn + (nat \<Rightarrow> wire)) \<times> 'w) option) \<Rightarrow> 'a list \<Rightarrow> (nat \<Rightarrow> wire) \<times> 'w \<Rightarrow>
   ((texn + (nat \<Rightarrow> wire)) \<times> 'w) option" where
  "client_calls call [] (ws, w) = Some (Inr ws, w)"
| "client_calls call (a # as) x = (case call a x of
     Some (Inr ws, w) \<Rightarrow> client_calls call as (ws, w)
   | r \<Rightarrow> r)"

text \<open>
  C8: The requests that a client sends one after the other run the handler of the server, each once, in the
  order they are sent and on the bytes that were sent: every call returns, the world after them is the one
  after these requests, nothing is left on the wires, and no other connection is touched.
\<close>

theorem client_requests_served:
  assumes "thrift_protocol P enc" and "connected P (server_iface E sh junk) c peer"
    and "list_all short requests" and "at_rest c ws"
    and "run_all (\<lambda>request. AccessToLogic E sh junk request) requests w = Ret w'"
  shows "\<exists>ws'. client_calls (\<lambda>request. LogicInterfaceClient_AccessToLogic P peer request c) requests (ws, w) =
      Some (Inr ws', w') \<and> at_rest c ws' \<and> (\<forall>p. p \<notin> {iprot c, oprot c} \<longrightarrow> ws' p = ws p)"
  using assms(3-)
proof (induction requests arbitrary: ws w)
  case (Cons request requests)
  then obtain w1 where w1: "AccessToLogic E sh junk request w = Ret w1"
    "run_all (\<lambda>request. AccessToLogic E sh junk request) requests w1 = Ret w'"
    by (auto simp: bindR_eq_Ret_iff)
  then have "if_AccessToLogic (server_iface E sh junk) request w = Ret (None, w1)"
    by (simp add: server_iface_def)
  from thrift_protocol.AccessToLogic_call [OF assms(1) _ this] Cons.prems(1) obtain call reply where
    "emits (send_AccessToLogic P request) call" "serves P (server_iface E sh junk) call w reply w1"
    "client_sees (recv_AccessToLogic P) reply None" by auto
  from client_call_served [OF this assms(2) Cons.prems(2)] obtain ws1 where
    "LogicInterfaceClient_AccessToLogic P peer request c (ws, w) = Some (Inr ws1, w1)" "at_rest c ws1"
    "\<forall>p. p \<notin> {iprot c, oprot c} \<longrightarrow> ws1 p = ws p"
    by (auto simp: LogicInterfaceClient_AccessToLogic_def)
  with Cons.IH [of ws1 w1] Cons.prems(1) w1(2) show ?case by auto
qed simp

definition demo_connection :: client_object where
  "demo_connection = LogicInterfaceClient_new 3 \<lparr>piprot = 0, poprot = 0, iprot = 0, oprot = 0\<rparr>"

theorem client_requests_served_witness:
  "\<exists>ws' w'. client_calls (\<lambda>request. LogicInterfaceClient_AccessToLogic binary_protocol
       (server_end binary_protocol (server_iface demo_env demo_schedule demo_junk) demo_connection) request demo_connection)
       [head_bytes (demo_frame 0x40 [72, 105]), head_bytes (demo_frame 0x60 [72])]
       (\<lambda>p. \<lparr>unread = [], written = []\<rparr>, demo_world) = Some (Inr ws', w') \<and>
     run_all (\<lambda>request. AccessToLogic demo_env demo_schedule demo_junk request)
       [head_bytes (demo_frame 0x40 [72, 105]), head_bytes (demo_frame 0x60 [72])] demo_world = Ret w' \<and>
     at_rest demo_connection ws'"
proof -
  let ?rs = "[head_bytes (demo_frame 0x40 [72, 105]), head_bytes (demo_frame 0x60 [72])]"
  have "returns (run_all (\<lambda>request. AccessToLogic demo_env demo_schedule demo_junk request) ?rs demo_world)"
    by code_simp
  then obtain w' where r: "run_all (\<lambda>request. AccessToLogic demo_env demo_schedule demo_junk request) ?rs demo_world = Ret w'"
    by (rule returnsE)
  have s: "list_all short ?rs" by (simp add: short_def demo_frame_def head_bytes_def)
  have "at_rest demo_connection (\<lambda>p. \<lparr>unread = [], written = []\<rparr>)" by (simp add: at_rest_def)
  from client_requests_served [OF binary.thrift_protocol_axioms connected_server_end s this r] r show ?thesis by blast
qed

text \<open>A message to an access server: the client returns, or throws with the text its handler threw with.\<close>

theorem client_message_served:
  assumes "thrift_protocol P enc" and "connected P F c peer" and "fits_message (fst m)" and "at_rest c ws"
    and "if_LogicToAccess F (fst m, all_set) w = Ret (thrown, w')" and "pred_option short thrown"
  shows "\<exists>r. LogicInterfaceClient_LogicToAccess P peer m c (ws, w) = Some (r, w') \<and>
    (case thrown of None \<Rightarrow> (\<exists>ws'. r = Inr ws' \<and> at_rest c ws') | Some what \<Rightarrow> r = Inl (ApplicationError what))"
proof -
  from thrift_protocol.LogicToAccess_call [OF assms(1,3,5,6)] obtain call reply where
    "emits (send_LogicToAccess P m) call" "serves P F call w reply w'"
    "client_sees (recv_LogicToAccess P) reply thrown" by auto
  from client_call_served [OF this assms(2,4)] show ?thesis
    by (auto simp: LogicInterfaceClient_LogicToAccess_def split: option.splits)
qed

section \<open>Calls side by side\<close>

text \<open>
  A call that is started on a shared connection joins those that were sent: whatever its handler will throw,
  the client is one that \<open>concurrent_answers_delivered\<close> speaks of.
\<close>

theorem started_call_sent:
  assumes "thrift_protocol P enc" and "concurrent_sync Y view" and "all_sent view as c" and "short request"
    and "LogicInterfaceConcurrentClient_AccessToLogic P Y request c = (Inr k, c')" and "pred_option short thrown"
  shows "all_sent view ((k, CallAccessToLogic, thrown) # as) c' \<and> unread (cl_wire c') = unread (cl_wire c)"
proof -
  from assms(5) obtain s' y' where
    send: "concurrent_send_AccessToLogic P Y request (cl_wire c) (cl_sync c) = (Inr (k, s'), y')"
    and c': "c' = \<lparr>cl_wire = s', cl_sync = y', cl_calls = (cl_calls c)(k \<mapsto> (CallAccessToLogic, Sent))\<rparr>"
    by (auto simp: LogicInterfaceConcurrentClient_AccessToLogic_def start_call_def split: prod.splits sum.splits)
  have cc: "concurrent_client P enc Y view" using assms(1,2) by (rule concurrent_client.intro)
  have name: "short (ascii ''AccessToLogic'')" using short_called_name [of CallAccessToLogic] by simp
  note sent = concurrent_client.concurrent_send_emits [OF cc send [unfolded concurrent_send_AccessToLogic_def]
    thrift_protocol.AccessToLogic_pargs_emits [OF assms(1,4)] name]
  from sent assms(3,6) c' show ?thesis by (auto simp: all_sent_def sendable_def)
qed

end
