(* ===== verification/ThriftObjects.thy ===== *)
theory ThriftObjects
  imports Thrift
begin

text \<open>
  The rest of the generated structures of \<open>src/thrift\<close>: the copies, \<open>swap\<close>, \<open>printTo\<close> and comparisons of
  \<open>im_types.cpp\<close>, \<open>im_types.h\<close> and \<open>LogicInterface.h\<close>. Copying works member by member on objects that are given
  by reference, so they may be the same object: an object store maps addresses to objects, and each
  statement reads and writes one member.
\<close>

section \<open>Copies of an \<open>AccessMessage\<close>\<close>

type_synonym objects = "nat \<rightharpoonup> access_object"

definition object_at :: "objects \<Rightarrow> nat \<Rightarrow> access_object res" where
  "object_at st p = (case st p of None \<Rightarrow> Fault OutOfBounds | Some x \<Rightarrow> Ret x)"

datatype member = Uid | Sate_id | Beam_id | Level | Content | Isset

text \<open>The object \<open>y\<close> with a member of \<open>x\<close>.\<close>

fun member_of :: "member \<Rightarrow> access_object \<Rightarrow> access_object \<Rightarrow> access_object" where
  "member_of Uid x y = set_uid (am_uid (fst x)) y"
| "member_of Sate_id x y = set_sate_id (am_sate_id (fst x)) y"
| "member_of Beam_id x y = set_beam_id (am_beam_id (fst x)) y"
| "member_of Level x y = set_level (am_level (fst x)) y"
| "member_of Content x y = set_content (am_content (fst x)) y"
| "member_of Isset x y = (fst y, snd x)"

text \<open>\<open>p.member = q.member\<close>, and \<open>std::swap(p.member, q.member)\<close>.\<close>

definition assign_member :: "nat \<Rightarrow> nat \<Rightarrow> member \<Rightarrow> objects \<Rightarrow> objects res" where
  "assign_member p q i st =
     bindR (object_at st q) (\<lambda>x. bindR (object_at st p) (\<lambda>y. Ret (st(p \<mapsto> member_of i x y))))"

definition swap_member :: "nat \<Rightarrow> nat \<Rightarrow> member \<Rightarrow> objects \<Rightarrow> objects res" where
  "swap_member p q i st =
     bindR (object_at st p) (\<lambda>temp.
     bindR (assign_member p q i st) (\<lambda>st.
     bindR (object_at st q) (\<lambda>y. Ret (st(q \<mapsto> member_of i temp y)))))"

fun for_members :: "(member \<Rightarrow> objects \<Rightarrow> objects res) \<Rightarrow> member list \<Rightarrow> objects \<Rightarrow> objects res" where
  "for_members act [] st = Ret st"
| "for_members act (i # is) st = bindR (act i st) (for_members act is)"

definition AccessMessage_assign :: "nat \<Rightarrow> nat \<Rightarrow> objects \<Rightarrow> (nat \<times> objects) res" where
  "AccessMessage_assign this other1 st =
     bindR (for_members (assign_member this other1) [Uid, Sate_id, Beam_id, Level, Content, Isset] st)
       (\<lambda>st. Ret (this, st))"

text \<open>The members that have a constructor are built before the body runs; \<open>junk\<close> is what the others hold.\<close>

definition AccessMessage_copy :: "AccessMessage \<Rightarrow> nat \<Rightarrow> nat \<Rightarrow> objects \<Rightarrow> objects res" where
  "AccessMessage_copy junk this other0 st =
     for_members (assign_member this other0) [Uid, Sate_id, Beam_id, Level, Content, Isset]
       (st(this \<mapsto> (junk\<lparr>am_content := []\<rparr>, snd AccessMessage_new)))"

definition AccessMessage_swap :: "nat \<Rightarrow> nat \<Rightarrow> objects \<Rightarrow> objects res" where
  "AccessMessage_swap a b = for_members (swap_member a b) [Uid, Sate_id, Beam_id, Level, Content, Isset]"

section \<open>Comparisons\<close>

definition AccessMessage_neq :: "access_object \<Rightarrow> access_object \<Rightarrow> bool" where
  "AccessMessage_neq a b = (\<not> AccessMessage_eq a b)"

definition AccessToLogic_args_eq :: "AccessToLogic_args \<Rightarrow> AccessToLogic_args \<Rightarrow> bool" where
  "AccessToLogic_args_eq a b = (if \<not> fst a = fst b then False else True)"

definition AccessToLogic_args_neq :: "AccessToLogic_args \<Rightarrow> AccessToLogic_args \<Rightarrow> bool" where
  "AccessToLogic_args_neq a b = (\<not> AccessToLogic_args_eq a b)"

definition LogicToAccess_args_eq :: "LogicToAccess_args \<Rightarrow> LogicToAccess_args \<Rightarrow> bool" where
  "LogicToAccess_args_eq a b = (if \<not> AccessMessage_eq (fst a) (fst b) then False else True)"

definition LogicToAccess_args_neq :: "LogicToAccess_args \<Rightarrow> LogicToAccess_args \<Rightarrow> bool" where
  "LogicToAccess_args_neq a b = (\<not> LogicToAccess_args_eq a b)"

section \<open>Printing\<close>

text \<open>\<open>num\<close> and \<open>str\<close> are the library's \<open>to_string\<close> of a number and of a string; \<open>out\<close> is what was printed before.\<close>

definition printTo :: "(i32 \<Rightarrow> string) \<Rightarrow> (bytes \<Rightarrow> string) \<Rightarrow> access_object \<Rightarrow> string \<Rightarrow> string" where
  "printTo num str m out =
     (let out = out @ ''AccessMessage('';
          out = out @ ''uid='' @ num (am_uid (fst m));
          out = out @ '', '' @ ''sate_id='' @ num (am_sate_id (fst m));
          out = out @ '', '' @ ''beam_id='' @ num (am_beam_id (fst m));
          out = out @ '', '' @ ''level='' @ num (am_level (fst m));
          out = out @ '', '' @ ''content='' @ str (am_content (fst m))
      in out @ '')'')"

section \<open>What they do\<close>

lemma object_at_simps [simp]:
  "object_at (st(p \<mapsto> x)) p = Ret x" "p \<noteq> q \<Longrightarrow> object_at (st(p \<mapsto> x)) q = object_at st q"
  by (simp_all add: object_at_def)

lemma member_of_all:
  "fold (\<lambda>i. member_of i x) [Uid, Sate_id, Beam_id, Level, Content, Isset] y = x"
  by (cases x; cases y) (simp add: set_uid_def set_sate_id_def set_beam_id_def set_level_def set_content_def)

lemma member_of_self [simp]: "member_of i x x = x"
  by (cases i; cases x) (simp_all add: set_uid_def set_sate_id_def set_beam_id_def set_level_def set_content_def)

text \<open>A member of one object changes nothing of the same member of another: what is swapped is what was there.\<close>

lemma member_of_member [simp]: "member_of i (member_of j x y) z = (if i = j then member_of i x z else member_of i y z)"
  by (cases i; cases j)
    (simp_all add: set_uid_def set_sate_id_def set_beam_id_def set_level_def set_content_def)

lemma for_members_assign:
  assumes "st q = Some x" and "p \<noteq> q"
  shows "for_members (assign_member p q) is (st(p \<mapsto> y)) = Ret (st(p \<mapsto> fold (\<lambda>i. member_of i x) is y))"
proof (induction "is" arbitrary: y)
  case (Cons i "is")
  have "assign_member p q i (st(p \<mapsto> y)) = Ret (st(p \<mapsto> member_of i x y))"
    using assms by (simp add: assign_member_def object_at_def)
  with Cons.IH [of "member_of i x y"] show ?case by (simp del: fun_upd_apply add: fun_upd_upd)
qed simp

lemma swap_member_step:
  assumes "p \<noteq> q"
  shows "swap_member p q i (st(p \<mapsto> x, q \<mapsto> y)) = Ret (st(p \<mapsto> member_of i y x, q \<mapsto> member_of i x y))"
  using assms by (simp add: swap_member_def assign_member_def object_at_def fun_upd_twist)

text \<open>The members of one object that are still to be swapped do not depend on those that are done.\<close>

lemma fold_member_of_done:
  assumes "i \<notin> set is"
  shows "fold (\<lambda>j. member_of j (member_of i x y)) is z = fold (\<lambda>j. member_of j y) is z"
  using assms by (induction "is" arbitrary: z) auto

lemma for_members_swap:
  assumes "p \<noteq> q" and "distinct is"
  shows "for_members (swap_member p q) is (st(p \<mapsto> x, q \<mapsto> y)) =
    Ret (st(p \<mapsto> fold (\<lambda>i. member_of i y) is x, q \<mapsto> fold (\<lambda>i. member_of i x) is y))"
  using assms(2)
  by (induction "is" arbitrary: x y) (simp_all add: swap_member_step [OF assms(1)] fold_member_of_done)

lemma for_members_self:
  assumes "st p = Some x"
  shows "for_members (assign_member p p) is st = Ret st" "for_members (swap_member p p) is st = Ret st"
proof -
  have "assign_member p p i st = Ret st" "swap_member p p i st = Ret st" for i
    using assms by (simp_all add: assign_member_def swap_member_def object_at_def fun_upd_idem)
  then show "for_members (assign_member p p) is st = Ret st" "for_members (swap_member p p) is st = Ret st"
    by (induction "is") simp_all
qed

text \<open>
  Assignment gives its left side every member of the right one, the flags included, and changes no other
  object, also when both are the same; so does the copy constructor for a new object.
\<close>

theorem AccessMessage_assign_copies:
  assumes "st q = Some x" and "st p = Some y"
  shows "AccessMessage_assign p q st = Ret (p, st(p \<mapsto> x))"
proof (cases "p = q")
  case True
  with assms show ?thesis by (simp add: AccessMessage_assign_def for_members_self fun_upd_idem del: for_members.simps)
next
  case False
  have "for_members (assign_member p q) [Uid, Sate_id, Beam_id, Level, Content, Isset] (st(p \<mapsto> y)) = Ret (st(p \<mapsto> x))"
    using for_members_assign [of st q x, OF assms(1) False, of "[Uid, Sate_id, Beam_id, Level, Content, Isset]" y]
    unfolding member_of_all .
  moreover have "st(p \<mapsto> y) = st" using assms(2) by (simp add: fun_upd_idem)
  ultimately show ?thesis by (simp add: AccessMessage_assign_def del: for_members.simps)
qed

theorem AccessMessage_copy_copies:
  assumes "st q = Some x" and "p \<noteq> q"
  shows "AccessMessage_copy junk p q st = Ret (st(p \<mapsto> x))"
  unfolding AccessMessage_copy_def for_members_assign [of st q x, OF assms] member_of_all ..

theorem AccessMessage_swap_exchanges:
  assumes "st p = Some x" and "st q = Some y"
  shows "AccessMessage_swap p q st = Ret (st(p \<mapsto> y, q \<mapsto> x))"
proof (cases "p = q")
  case True
  with assms show ?thesis by (simp add: AccessMessage_swap_def for_members_self fun_upd_idem del: for_members.simps)
next
  case False
  have "for_members (swap_member p q) [Uid, Sate_id, Beam_id, Level, Content, Isset] (st(p \<mapsto> x, q \<mapsto> y)) =
      Ret (st(p \<mapsto> y, q \<mapsto> x))"
    using for_members_swap [OF False, of "[Uid, Sate_id, Beam_id, Level, Content, Isset]" st x y]
    unfolding member_of_all by simp
  moreover have "st(p \<mapsto> x, q \<mapsto> y) = st" using assms by (simp add: fun_upd_idem)
  ultimately show ?thesis by (simp add: AccessMessage_swap_def del: for_members.simps)
qed

text \<open>The comparison does not look at the flags: messages that are equal can be told apart by what was set.\<close>

lemma args_eq_iff:
  "AccessToLogic_args_eq a b \<longleftrightarrow> fst a = fst b"
  "AccessToLogic_args_neq a b \<longleftrightarrow> fst a \<noteq> fst b"
  "LogicToAccess_args_eq c d \<longleftrightarrow> fst (fst c) = fst (fst d)"
  "LogicToAccess_args_neq c d \<longleftrightarrow> fst (fst c) \<noteq> fst (fst d)"
  "AccessMessage_neq x y \<longleftrightarrow> fst x \<noteq> fst y"
  by (auto simp: AccessToLogic_args_eq_def LogicToAccess_args_eq_def AccessToLogic_args_neq_def
      LogicToAccess_args_neq_def AccessMessage_neq_def AccessMessage_eq_def)

section \<open>What is printed\<close>

lemma append_separator_eq:
  "c \<notin> set xs \<Longrightarrow> c \<notin> set ys \<Longrightarrow> xs @ c # r = ys @ c # r' \<longleftrightarrow> xs = ys \<and> r = r'"
proof (induction xs arbitrary: ys)
  case Nil
  then show ?case by (cases ys) auto
next
  case (Cons x xs)
  then show ?case by (cases ys) auto
qed

text \<open>
  As long as numbers are printed apart and without a comma, and contents as they are or apart in some other
  way, messages that print the same are equal: the content comes last and may hold anything.
\<close>

theorem printTo_tells_apart:
  assumes "inj num" and "\<And>v. CHR '','' \<notin> set (num v)" and "inj str"
  shows "printTo num str a out = printTo num str b out \<longleftrightarrow> AccessMessage_eq a b"
  by (auto simp: printTo_def AccessMessage_eq_def append_separator_eq assms(2) inj_eq [OF assms(1)]
      inj_eq [OF assms(3)])

end
