(* ===== verification/Logger.thy ===== *)
theory Logger
  imports Bytes
begin

text \<open>
  \<open>src/tools/logger.cpp\<close>: the wrapper of log4cplus. The library is the parameter \<open>L\<close>, a record of the calls on
  its state \<open>'l\<close>. The text that \<open>vsnprintf\<close> formats from the arguments of a call is an argument here. The other
  theories leave the log lines out.
\<close>

datatype log_level = DEBUG_LEVEL | ERROR_LEVEL | FATAL_LEVEL | INFO_LEVEL | WARN_LEVEL | TRACE_LEVEL

record 'l log4cplus =
  lg_initialize :: "'l \<Rightarrow> 'l"
  lg_configure :: "string \<Rightarrow> 'l \<Rightarrow> 'l"
  lg_enabled :: "log_level \<Rightarrow> 'l \<Rightarrow> bool"
  lg_forcedLog :: "log_level \<Rightarrow> bytes \<Rightarrow> 'l \<Rightarrow> 'l"
  lg_shutdown :: "'l \<Rightarrow> 'l"

section \<open>Starting and stopping\<close>

text \<open>\<open>LOG4CPLUS_INFO\<close> logs the text when its level is enabled.\<close>

definition logger_info :: "'l log4cplus \<Rightarrow> string \<Rightarrow> 'l \<Rightarrow> 'l" where
  "logger_info L text l =
     (if lg_enabled L INFO_LEVEL l then lg_forcedLog L INFO_LEVEL (map of_char text) l else l)"

text \<open>\<open>None\<close> is the null pointer.\<close>

definition Slog_Init :: "'l log4cplus \<Rightarrow> string option \<Rightarrow> 'l \<Rightarrow> bool \<times> 'l" where
  "Slog_Init L properties_filename l =
     (case properties_filename of
        None \<Rightarrow> (False, l)
      | Some f \<Rightarrow>
        let l = lg_initialize L l; l = lg_configure L f l in
        (True, logger_info L ''Logger System start finish'' l))"

definition Slog_Stop :: "'l log4cplus \<Rightarrow> 'l \<Rightarrow> 'l" where
  "Slog_Stop L l = lg_shutdown L (logger_info L ''Logger System Stop Finish...'' l)"

definition Slog_delete :: "'l log4cplus \<Rightarrow> 'l \<Rightarrow> 'l" where
  "Slog_delete L l = Slog_Stop L l"

section \<open>Logging\<close>

text \<open>\<open>vsnprintf\<close> writes at most \<open>n - 1\<close> bytes of the text and a zero into the buffer, which was cleared.\<close>

definition vsnprintf :: "nat \<Rightarrow> bytes \<Rightarrow> bytes \<Rightarrow> bytes res" where
  "vsnprintf n text buf =
     (if n = 0 then Ret buf
      else if length buf < n then Fault OutOfBounds
      else let t = take (n - 1) text @ [0] in Ret (t @ drop (length t) buf))"

definition DO_LOGGER :: "'l log4cplus \<Rightarrow> log_level \<Rightarrow> nat \<Rightarrow> bytes \<Rightarrow> 'l \<Rightarrow> 'l res" where
  "DO_LOGGER L level bufSize text l =
     (if lg_enabled L level l
      then bindR (vsnprintf bufSize text (replicate bufSize 0)) (\<lambda>buf.
           bindR (c_str_at buf 0) (\<lambda>line. Ret (lg_forcedLog L level line l)))
      else Ret l)"

definition Slog_Debug :: "'l log4cplus \<Rightarrow> bytes \<Rightarrow> 'l \<Rightarrow> 'l res" where
  "Slog_Debug L = DO_LOGGER L DEBUG_LEVEL 1024"
definition Slog_Error :: "'l log4cplus \<Rightarrow> bytes \<Rightarrow> 'l \<Rightarrow> 'l res" where
  "Slog_Error L = DO_LOGGER L ERROR_LEVEL 256"
definition Slog_Fatal :: "'l log4cplus \<Rightarrow> bytes \<Rightarrow> 'l \<Rightarrow> 'l res" where
  "Slog_Fatal L = DO_LOGGER L FATAL_LEVEL 256"
definition Slog_Info :: "'l log4cplus \<Rightarrow> bytes \<Rightarrow> 'l \<Rightarrow> 'l res" where
  "Slog_Info L = DO_LOGGER L INFO_LEVEL 512"
definition Slog_Warn :: "'l log4cplus \<Rightarrow> bytes \<Rightarrow> 'l \<Rightarrow> 'l res" where
  "Slog_Warn L = DO_LOGGER L WARN_LEVEL 256"
definition Slog_Trace :: "'l log4cplus \<Rightarrow> bytes \<Rightarrow> 'l \<Rightarrow> 'l res" where
  "Slog_Trace L = DO_LOGGER L TRACE_LEVEL 1024"

lemmas Slog_defs = Slog_Debug_def Slog_Error_def Slog_Fatal_def Slog_Info_def Slog_Warn_def Slog_Trace_def

section \<open>What is logged\<close>

lemma DO_LOGGER_line:
  assumes "0 < n" and "0 \<notin> set text"
  shows "DO_LOGGER L level n text l =
    Ret (if lg_enabled L level l then lg_forcedLog L level (take (n - 1) text) l else l)"
proof -
  have "0 \<notin> set (take (n - 1) text)" using assms(2) in_set_takeD by metis
  then have "c_str_at (take (n - 1) text @ 0 # r) 0 = Ret (take (n - 1) text)" for r
    using c_str_at_append[of "take (n - 1) text" "[]" r] by simp
  then show ?thesis using assms(1) by (simp add: DO_LOGGER_def vsnprintf_def Let_def)
qed

text \<open>
  A call never writes outside its buffer; when its level is enabled it logs the text, cut to 255 bytes
  by \<open>Error\<close>, \<open>Fatal\<close> and \<open>Warn\<close>, to 511 by \<open>Info\<close> and to 1023 by \<open>Debug\<close> and \<open>Trace\<close>.
\<close>

theorem Slog_cuts:
  assumes "0 \<notin> set text" and "\<And>level. lg_enabled L level l"
  shows "Slog_Debug L text l = Ret (lg_forcedLog L DEBUG_LEVEL (take 1023 text) l)"
    "Slog_Error L text l = Ret (lg_forcedLog L ERROR_LEVEL (take 255 text) l)"
    "Slog_Fatal L text l = Ret (lg_forcedLog L FATAL_LEVEL (take 255 text) l)"
    "Slog_Info L text l = Ret (lg_forcedLog L INFO_LEVEL (take 511 text) l)"
    "Slog_Warn L text l = Ret (lg_forcedLog L WARN_LEVEL (take 255 text) l)"
    "Slog_Trace L text l = Ret (lg_forcedLog L TRACE_LEVEL (take 1023 text) l)"
  using assms by (simp_all add: Slog_defs DO_LOGGER_line)

end
