(* ===== verification/Utilities.thy ===== *)
theory Utilities
  imports Bytes
begin

text \<open>
  The wrappers of \<open>src/commons/utils.cpp\<close> and \<open>utils.h\<close>, as compiled with \<open>PTHREAD\<close>: threads, the time as text,
  and \<open>SafeDelete\<close>. The calls of the system are parameters. \<open>BuildSockAddr\<close> is in \<open>Sockets\<close>. The server uses
  none of them.
\<close>

section \<open>Threads\<close>

text \<open>\<open>'f\<close> and \<open>'a\<close> are the thread's function and its argument; an error number other than 0 is a failure.\<close>

record ('t, 'f, 'a, 's) pthread =
  pthread_create :: "'f \<Rightarrow> 'a \<Rightarrow> 's \<Rightarrow> (i32 \<times> 't) \<times> 's"
  pthread_cancel :: "'t \<Rightarrow> 's \<Rightarrow> i32 \<times> 's"
  pthread_join :: "'t \<Rightarrow> 's \<Rightarrow> i32 \<times> 's"

definition StartThread :: "('t, 'f, 'a, 's) pthread \<Rightarrow> 'f \<Rightarrow> 'a \<Rightarrow> 's \<Rightarrow> bool \<times> 't \<times> 's" where
  "StartThread T thread_func param s =
     (case pthread_create T thread_func param s of ((ret, thread_id), s) \<Rightarrow>
        if ret \<noteq> 0 then (False, thread_id, s) else (True, thread_id, s))"

definition StopThread :: "('t, 'f, 'a, 's) pthread \<Rightarrow> 't \<Rightarrow> 's \<Rightarrow> 's" where
  "StopThread T thread_id s = snd (pthread_cancel T thread_id s)"

definition JoinThread :: "('t, 'f, 'a, 's) pthread \<Rightarrow> 't \<Rightarrow> 's \<Rightarrow> 's" where
  "JoinThread T thread_id s = snd (pthread_join T thread_id s)"

section \<open>The time\<close>

text \<open>\<open>localtime\<close> returns a null pointer for a year that does not fit; \<open>asctime\<close> returns text without its zero.\<close>

record ('tm, 's) clock =
  clk_time :: "'s \<Rightarrow> time_t \<times> 's"
  clk_localtime :: "time_t \<Rightarrow> 'tm option"
  clk_asctime :: "'tm \<Rightarrow> bytes"

definition strcpy :: "bytes \<Rightarrow> bytes \<Rightarrow> bytes res" where
  "strcpy buffer text = put buffer 0 (text @ [0])"

definition GetTime :: "('tm, 's) clock \<Rightarrow> bytes \<Rightarrow> 's \<Rightarrow> (bytes \<times> 's) res" where
  "GetTime C buffer s =
     (case clk_time C s of (now, s) \<Rightarrow>
      case clk_localtime C now of None \<Rightarrow> Fault NullPointer
      | Some timenow \<Rightarrow> bindR (strcpy buffer (clk_asctime C timenow)) (\<lambda>buffer. Ret (buffer, s)))"

section \<open>\<open>SafeDelete\<close>\<close>

text \<open>On a pointer, \<open>None\<close> the null pointer; \<open>delete\<close> is what the destructor and the heap do.\<close>

definition SafeDelete :: "('p \<Rightarrow> 'h \<Rightarrow> 'h res) \<Rightarrow> 'p option \<Rightarrow> 'h \<Rightarrow> ('p option \<times> 'h) res" where
  "SafeDelete delete p h =
     (case p of None \<Rightarrow> Ret (p, h) | Some a \<Rightarrow> bindR (delete a h) (\<lambda>h. Ret (None, h)))"

section \<open>What they do\<close>

text \<open>
  \<open>GetTime\<close> does not know the size of its buffer: it returns, leaving the text and the rest of the buffer, just
  when the buffer is longer than the text, which is 25 characters for a year of four digits.
\<close>

theorem GetTime_room:
  assumes "clk_time C s = (now, s')" and "clk_localtime C now = Some tm" and "0 \<notin> set (clk_asctime C tm)"
  shows "(\<exists>buffer'. GetTime C buffer s = Ret (buffer', s') \<and> c_str_at buffer' 0 = Ret (clk_asctime C tm) \<and>
      length buffer' = length buffer) \<longleftrightarrow> length (clk_asctime C tm) < length buffer"
    and "\<not> length (clk_asctime C tm) < length buffer \<Longrightarrow> GetTime C buffer s = Fault OutOfBounds"
  using assms c_str_at_append [of "clk_asctime C tm" "[]" "drop (length (clk_asctime C tm) + 1) buffer"]
  by (auto simp: GetTime_def strcpy_def put_def)

text \<open>Deleting through the same pointer twice deletes once.\<close>

theorem SafeDelete_twice:
  "bindR (SafeDelete delete p h) (\<lambda>(p, h). SafeDelete delete p h) = SafeDelete delete p h"
  by (cases p) (simp_all add: SafeDelete_def bindR_assoc)

end
