(* ===== verification/Spec2Isabelle.thy ===== *)
theory Spec2Isabelle
  imports Liveness Interleaved Receipts Process FifoQueue Crc16 Sockets ThriftClient ThriftObjects Logger Utilities
begin

text \<open>
  A model in HOL of the short-message server under \<open>src/src\<close> of the repository, and the theorems that say in which
  sense it is correct. The server takes frames from mobile terminals, which reach it through access servers over
  Thrift, keeps users, satellite covers and messages in a MySQL database, forwards messages to the beams that
  cover the receiver, and sends again what was not acknowledged.

  \<^bold>\<open>Conventions.\<close> A structure is a record with the source's fields, an enumeration a datatype, an
  unsigned integer a word of its width, a signed one an \<open>int\<close> whose conversions and overflows are written
  out, memory a list of bytes with offsets as pointers. A function that can read or write outside an object, fail
  an assertion, use a null pointer or not return has a result \<open>'a res\<close>: \<open>Ret\<close> a value or \<open>Fault\<close> the
  reason. Code that is not in the repository (libzdb and MySQL, the clock, Thrift, the pool, libconfig) is an
  argument of the definitions that call it, and the calls to the database, the clock and the access servers are
  recorded in order in a trace, which is what the theorems about the handlers speak of. The log lines of the other
  parts are left out.

  \<^bold>\<open>The parts.\<close>

  \<^item> \<open>Prelude\<close>, \<open>Bytes\<close>, \<open>Floats\<close>: outcomes, loads and stores, byte order, the two float formats as
    far as beams need them.
  \<^item> \<open>Protocol\<close> (\<open>logic/protocol.h\<close>): frame types, packed structures and field accesses.
  \<^item> \<open>Coder\<close> (\<open>logic/coder.cpp\<close>): the four encoders with the bounds of their buffer; round trips.
  \<^item> \<open>Environment\<close>: the parameter for what is outside, the SQL statements as syntax, the trace.
  \<^item> \<open>Database\<close>, \<open>DatabaseFacts\<close> (\<open>tools/database.cpp\<close>): every member function; what each executes
    on each branch. \<open>SqlServer\<close> is the interface \<open>sql_server\<close> of a database, interpreted on a store in memory,
    which also gives the witnesses a world to run in.
  \<^item> \<open>SendHelper\<close> (\<open>workmanager/send_helper.cpp\<close>): the table of access servers, the choice of the beam.
  \<^item> \<open>Sessions\<close>: what a run of calls does with its connection and its remote calls, as predicates on
    traces, and the interfaces \<open>frame_handler\<close> and \<open>storing_handler\<close> of the handlers.
  \<^item> \<open>MessageManager\<close>, \<open>MobileManager\<close> (\<open>logic/\<close>): the handlers of message and terminal frames; each
    has a specification of its calls, and each interprets the interfaces of \<open>Sessions\<close>.
  \<^item> \<open>Handler\<close>, \<open>Liveness\<close> (\<open>workmanager/LogicInterfaceHandler.cpp\<close>): the dispatch of a request, with
    the discipline of all handlers together, and when a request is processed to its end.
  \<^item> \<open>QosDaemon\<close> (\<open>tools/qos_send_daemon.cpp\<close>): the retransmission loop.
  \<^item> \<open>Tables\<close>, \<open>Cache\<close>, \<open>Meter\<close>, \<open>Lifecycle\<close>: what the calls do to the tables of a database that
    keeps the laws of \<open>sql_server\<close>. \<open>Tables\<close> shows that the tables after a run are the replay of its trace;
    \<open>Cache\<close> types the rows of \<open>message_cache\<close> and computes a round of the daemon on them; \<open>Meter\<close> is the
    interface \<open>metered\<close> of a potential argument; \<open>Lifecycle\<close> interprets it on the rounds and on the whole
    server (locale \<open>message_server\<close>) and follows a message from the request that brings it to its receipt.
  \<^item> \<open>Interleaved\<close>: the loop of the daemon cut into turns, collecting and then sending one message at a time, with
    requests of other threads between any two of them; \<open>metered\<close> is interpreted once more, on these turns.
  \<^item> \<open>Receipts\<close>: the handler of receipts cut into one turn for each statement, and the turns of several threads
    with receipts of the same message interleaved.
  \<^item> \<open>Controller\<close>, \<open>Process\<close> (\<open>workmanager/controller.cpp\<close>, \<open>main.cpp\<close>): configuration and
    destruction; the three threads of the process as a step relation, with its shutdown.
  \<^item> \<open>Thrift\<close>, \<open>ThriftFacts\<close>, \<open>BinaryProtocol\<close>, \<open>Service\<close> (\<open>thrift/\<close>): the generated structures, client
    and dispatch over the library as a parameter; the interface \<open>thrift_protocol\<close> of that library, interpreted
    on the documented binary encoding; a call from the client to the handler and back.
  \<^item> \<open>Concurrent\<close>, \<open>Multiface\<close> (\<open>thrift/LogicInterface.cpp\<close>, \<open>.h\<close>): the client that threads share, over its
    synchronisation object as a parameter with the interface \<open>concurrent_sync\<close>, with the interleaved steps of its
    threads (locale \<open>concurrent_client\<close>); the interface that passes calls on to several. The server uses neither.
  \<^item> \<open>ThriftClient\<close>, \<open>ThriftObjects\<close> (\<open>thrift/\<close>): the client objects with their whole calls over what the other end
    does meanwhile, the factories of handlers and processors; copies on a store of objects that may be the same,
    comparisons, printing.
  \<^item> \<open>Logger\<close>, \<open>Utilities\<close> (\<open>tools/logger.cpp\<close>, \<open>commons/utils.cpp\<close>): the wrapper of log4cplus with its buffers, the
    wrappers of threads and time.
  \<^item> \<open>FifoQueue\<close>, \<open>Crc16\<close> (\<open>commons/\<close>): the ring of packets, against the interface \<open>packet_queue\<close>; the
    checksum, against bit by bit division and the interface \<open>checksum_step\<close>. The server uses neither.
  \<^item> \<open>Sockets\<close> (\<open>commons/comm_socket.cpp\<close>, \<open>udp_socket.cpp\<close>, \<open>BuildSockAddr\<close>): the socket classes over the system
    calls as a parameter, with the interfaces \<open>descriptors\<close> and \<open>waiting\<close> of what they rely on. The server does
    not use them.

  \<^bold>\<open>How they meet.\<close> A client writes a call (\<open>send_AccessToLogic\<close>), the processor reads it and runs the handler
  (\<open>dispatchCall\<close>, \<open>server_iface\<close>), the handler looks at the frame type and runs a manager (\<open>AccessToLogic\<close>), the
  manager takes a connection, executes statements and calls \<open>SendMessage\<close>, which is one remote call of the
  environment. The daemon makes the same calls on its own. \<open>Controller_Init\<close> gives both what they need, and the
  steps of \<open>Process\<close> start and stop them.

  \<^bold>\<open>What is shown.\<close> For the handlers: the calls of every branch in order; a connection is taken once, given back,
  and not held during a remote call (but for the failed insert of a complete message); nothing is sent before it is
  stored; a request is processed to its end when the outside answers. For a message: how often it is sent over any
  interleaving of requests with the daemon, and that its receipt moves it from one table to the other and silences it,
  but for what the daemon already holds; how often it is stored when several receipts come at once. For the data: encoders and decoders are
  inverse, a frame sent again is the frame forwarded, the covers read are the covers written. For the transport:
  what is sent arrives, once. For the process: an orderly shutdown, once the server is built. The theorems of
  kind error and some others show where the code does not do what it means to: they are listed as findings in
  the manifest.

  \<^bold>\<open>Bounds and fuel.\<close> \<open>GetConnection\<close> may not return and is a \<open>partial_function\<close>; that it returns, and when it
  does not, is \<open>GetConnection_outcome\<close>. The loops that read a Thrift structure are \<open>partial_function\<close> too, and
  return on whatever was written (\<open>AccessMessage_read_fields\<close>). The daemon's loop is indexed by the number of
  times its stop flag is still found unset. The depth 64 in \<open>binary_protocol\<close> is the library's recursion limit; the
  structures here nest twice. The counters of the ring are followed up to \<open>2^63\<close> bytes.

  \<^bold>\<open>Not modelled.\<close> What is compiled for Windows or without \<open>PTHREAD\<close> only, the calls of the processor's event handler,
  which the server never sets, the destructors that only free memory, and what is declared but nowhere defined or used
  (\<open>operator <\<close>, the setters of the arguments, the constants of \<open>common_defs.h\<close>). Data races on plain flags are not
  modelled: each step of a thread is atomic. In \<open>Interleaved\<close> a whole request is a step, as is the collection of a
  round; the statements of two requests are interleaved in \<open>Receipts\<close> only.
\<close>

section \<open>Properties across components\<close>

text \<open>The columns of the row a complete message is cached in.\<close>

lemma cached_row_columns:
  "column_of (cached_row defaults h t) From_user = VInt (sint (sender h))"
  "column_of (cached_row defaults h t) To_user = VInt (sint (receiver h))"
  "column_of (cached_row defaults h t) Frame_id = VInt (uint (ntohs (ch_frame_id h)))"
  "column_of (cached_row defaults h t) Type = VInt (uint (ch_type h))"
  "column_of (cached_row defaults h t) Text = VStr (cut_nul (ch_content h))"
  "column_of (cached_row defaults h t) Recv_time = VTime t"
  by (simp_all add: cached_row_def complete_row_def column_of_def)

text \<open>
  C21: What the daemon sends for a cached message is the frame that was forwarded when it
  came in, byte for byte, but for the retain byte, which is zero: encoding the row of
  \<open>message_cache\<close> and encoding the request give the same result (a fault included).
\<close>

theorem resent_frame_is_forwarded_frame:
  "\<exists>m. row_item (row_of lit (map (column_of (cached_row defaults h t))
        [To_user, From_user, Frame_id, Type, Text, Retry_num])) = Ret (Some m) \<and>
     MessageEncode_item m = MessageEncode_head (c_str (head_bytes (h\<lparr>ch_retain := 0\<rparr>)))"
proof -
  let ?m = "\<lparr>msg_to_id = receiver h, msg_from_id = sender h, msg_frame_id = ntohs (ch_frame_id h),
    msg_type = ch_type h, msg_retain = 0, msg_content = cut_nul (ch_content h)\<rparr>"
  have "row_item (row_of lit (map (column_of (cached_row defaults h t))
        [To_user, From_user, Frame_id, Type, Text, Retry_num])) = Ret (Some ?m)"
    by (simp add: row_item_def row_of_def cached_row_columns)
  moreover have "MessageEncode_item ?m = MessageEncode_head (c_str (head_bytes (h\<lparr>ch_retain := 0\<rparr>)))"
    by (simp add: MessageEncode_item_eq MessageEncode_head_request forward_of_def receiver_def sender_def)
  ultimately show ?thesis by blast
qed

text \<open>
  C28: A message that went through \<open>message_cache\<close> ends up in \<open>message_store\<close> with its ends
  exchanged: the row stored on its receipt names the receiver as \<open>from_user\<close> and the sender as
  \<open>to_user\<close>, where a simple message of the same frame is stored the right way round.
\<close>

theorem receipt_stores_ends_exchanged:
  "\<exists>m rows. row_item (row_of lit (map (column_of (cached_row defaults h t))
        [To_user, From_user, Frame_id, Type, Text, Recv_time])) = Ret (Some m) \<and>
     insert_store_item_sql m t now = Insert Message_store rows \<and>
     map_of rows From_user = Some (VInt (sint (receiver h))) \<and>
     map_of rows To_user = Some (VInt (sint (sender h))) \<and>
     (\<exists>rows'. store_stmt h t = Insert Message_store rows' \<and>
        map_of rows' From_user = Some (VInt (sint (sender h))) \<and>
        map_of rows' To_user = Some (VInt (sint (receiver h))) \<and>
        map (map_of rows') [Text, Frame_id, Type, Recv_time] =
          map (map_of rows) [Text, Frame_id, Type, Recv_time])"
  by (simp add: row_item_def row_of_def cached_row_columns insert_store_item_sql_def store_stmt_def
      insert_store_sql_def)

end
